(* ===== verification/JS_Base.thy ===== *)
theory JS_Base
  imports Main "HOL-Library.Word" "HOL-Library.AList"
begin

text \<open>
  The prelude shared by every component: JavaScript strings and byte buffers, errors and
  actions that may throw, \<open>forEach\<close> loops, and prototype-free dictionaries
  (\<^verbatim>\<open>Object.create(null)\<close>) with the property order of \<^verbatim>\<open>Object.keys\<close>.
\<close>

named_theorems dict_simps \<open>lookup, update and delete on JavaScript dictionaries\<close>
named_theorems act_simps \<open>execution of actions that may throw\<close>
named_theorems keeps_intros \<open>an action keeps a state predicate\<close>
named_theorems agree_intros \<open>two actions agree on the states satisfying a predicate\<close>

section \<open>Strings, bytes and errors\<close>

text \<open>
  A JavaScript string is a sequence of UTF-16 code units; a Buffer or Uint8Array is a
  sequence of bytes. String literals of the source are written \<open>jstr ''join''\<close>.
\<close>

type_synonym byte = "8 word"
type_synonym bytes = "byte list"
type_synonym js_string = "16 word list"

definition jstr :: "string \<Rightarrow> js_string" where
  "jstr s = map of_char s"

lemma of_char_u16_inj: "(of_char c :: 16 word) = of_char d \<longleftrightarrow> c = d"
proof
  assume "(of_char c :: 16 word) = of_char d"
  then have "unat (of_nat (of_char c) :: 16 word) = unat (of_nat (of_char d) :: 16 word)"
    by (simp add: of_nat_of_char)
  moreover have "(of_char c :: nat) < 2 ^ 16" for c
    by (rule less_trans [OF nat_of_char_less_256]) simp
  ultimately have "(of_char c :: nat) = of_char d"
    by (simp add: unat_of_nat take_bit_nat_eq_self)
  then show "c = d" by simp
qed simp

lemma jstr_eq_iff [simp]: "jstr s = jstr t \<longleftrightarrow> s = t"
  unfolding jstr_def by (rule inj_map_eq_map) (simp add: inj_def of_char_u16_inj)

lemma jstr_Nil [simp]: "jstr [] = []"
  by (simp add: jstr_def)

lemma jstr_append: "jstr (s @ t) = jstr s @ jstr t"
  by (simp add: jstr_def)

lemma jstr_eq_Nil [simp]: "jstr s = [] \<longleftrightarrow> s = []" "[] = jstr s \<longleftrightarrow> s = []"
  by (auto simp: jstr_def)

definition starts_with :: "js_string \<Rightarrow> js_string \<Rightarrow> bool" where
  "starts_with s p \<longleftrightarrow> take (length p) s = p"

lemma starts_with_append [simp]: "starts_with (p @ s) p"
  by (simp add: starts_with_def)

lemma starts_with_common [simp]: "starts_with (p @ s) (p @ q) \<longleftrightarrow> starts_with s q"
  by (simp add: starts_with_def)

text \<open>
  Exceptions: the two error classes of the language the source throws, a plain
  \<^verbatim>\<open>Error\<close>, and the engine's own failure when the call stack is exhausted (the value of
  a recursion that runs out of fuel; the development proves that it does not occur).
\<close>

datatype js_error =
    RangeError js_string
  | TypeError js_string
  | PlainError js_string
  | SyntaxError js_string
  | StackOverflow

type_synonym 'a result = "js_error + 'a"

text \<open>Sequencing of fallible computations: an error ends the function.\<close>

definition bindE :: "'a result \<Rightarrow> ('a \<Rightarrow> 'b result) \<Rightarrow> 'b result" where
  "bindE r f = (case r of Inl e \<Rightarrow> Inl e | Inr x \<Rightarrow> f x)"

lemma bindE_simps [simp]: "bindE (Inl e) f = Inl e" "bindE (Inr x) f = f x"
  by (simp_all add: bindE_def)

definition guardE :: "bool \<Rightarrow> js_error \<Rightarrow> unit result" where
  "guardE ok e = (if ok then Inr () else Inl e)"

lemma guardE_simps [simp]: "guardE True e = Inr ()" "guardE False e = Inl e"
  by (simp_all add: guardE_def)

section \<open>Actions: state transformers that may throw\<close>

text \<open>
  An action maps a state to an optional exception and the state at that point: effects
  before a throw persist, as they do in JavaScript.
\<close>

type_synonym 's act = "'s \<Rightarrow> js_error option \<times> 's"

definition skip :: "'s act" where
  "skip s = (None, s)"

definition throw :: "js_error \<Rightarrow> 's act" where
  "throw e s = (Some e, s)"

definition modify :: "('s \<Rightarrow> 's) \<Rightarrow> 's act" where
  "modify f s = (None, f s)"

definition andthen :: "'s act \<Rightarrow> 's act \<Rightarrow> 's act" where
  "andthen a b s = (case a s of (None, s') \<Rightarrow> b s' | (Some e, s') \<Rightarrow> (Some e, s'))"

definition when_act :: "bool \<Rightarrow> 's act \<Rightarrow> 's act" where
  "when_act c a s = (if c then a s else (None, s))"

text \<open>\<^verbatim>\<open>try { a } catch (ignore) {}\<close>\<close>

definition try_ignore :: "'s act \<Rightarrow> 's act" where
  "try_ignore a s = (None, snd (a s))"

text \<open>\<^verbatim>\<open>xs.forEach(f)\<close>: a throw leaves the loop.\<close>

primrec for_each :: "('a \<Rightarrow> 's act) \<Rightarrow> 'a list \<Rightarrow> 's act" where
  "for_each f [] s = (None, s)"
| "for_each f (x # xs) s = andthen (f x) (for_each f xs) s"

text \<open>Statements one after the other.\<close>

primrec perform :: "'s act list \<Rightarrow> 's act" where
  "perform [] s = (None, s)"
| "perform (a # as) s = andthen a (perform as) s"

lemma andthen_done [simp]: "andthen a (perform []) = a"
  by (rule ext) (auto simp: andthen_def split: prod.splits option.splits)

lemma andthen_loop_done [simp]: "andthen a (for_each f []) = a"
  by (rule ext) (auto simp: andthen_def split: prod.splits option.splits)

lemma andthen_no_loop [simp]: "andthen (for_each f []) a = a"
  by (rule ext) (simp add: andthen_def)

lemma perform_one [simp]: "perform [a] = a"
  by (rule ext) simp

lemma skip_apply [act_simps]: "skip s = (None, s)"
  by (simp add: skip_def)

lemma modify_apply [act_simps]: "modify f s = (None, f s)"
  by (simp add: modify_def)

lemma andthen_None [act_simps]: "a s = (None, s') \<Longrightarrow> andthen a b s = b s'"
  by (simp add: andthen_def)

lemma andthen_Some [act_simps]: "a s = (Some e, s') \<Longrightarrow> andthen a b s = (Some e, s')"
  by (simp add: andthen_def)

lemma andthen_modify [act_simps]: "andthen (modify f) b s = b (f s)"
  by (simp add: andthen_def modify_def)

lemma for_each_append:
  "for_each f (xs @ ys) s = andthen (for_each f xs) (for_each f ys) s"
  by (induction xs arbitrary: s) (auto simp: andthen_def split: prod.splits option.splits)

subsection \<open>Predicates kept by an action, whether or not it throws\<close>

definition keeps :: "('s \<Rightarrow> bool) \<Rightarrow> 's act \<Rightarrow> bool" where
  "keeps P a \<longleftrightarrow> (\<forall>s. P s \<longrightarrow> P (snd (a s)))"

lemma keepsI: "(\<And>s. P s \<Longrightarrow> P (snd (a s))) \<Longrightarrow> keeps P a"
  by (simp add: keeps_def)

lemma keepsD: "keeps P a \<Longrightarrow> P s \<Longrightarrow> P (snd (a s))"
  by (simp add: keeps_def)

lemma keeps_skip [keeps_intros]: "keeps P skip"
  by (simp add: keeps_def skip_def)

lemma keeps_throw [keeps_intros]: "keeps P (throw e)"
  by (simp add: keeps_def throw_def)

lemma keeps_modify [keeps_intros]: "(\<And>s. P s \<Longrightarrow> P (f s)) \<Longrightarrow> keeps P (modify f)"
  by (simp add: keeps_def modify_def)

lemma keeps_andthen [keeps_intros]: "keeps P a \<Longrightarrow> keeps P b \<Longrightarrow> keeps P (andthen a b)"
  by (fastforce simp: keeps_def andthen_def split: prod.splits option.splits)

lemma keeps_perform [keeps_intros]:
  "(\<And>a. a \<in> set as \<Longrightarrow> keeps P a) \<Longrightarrow> keeps P (perform as)"
proof (induction as)
  case Nil
  show ?case by (simp add: keeps_def)
next
  case (Cons a as)
  then have "keeps P (andthen a (perform as))"
    by (intro keeps_andthen) auto
  then show ?case by (simp add: keeps_def)
qed

lemma keeps_when [keeps_intros]: "(c \<Longrightarrow> keeps P a) \<Longrightarrow> keeps P (when_act c a)"
  by (simp add: keeps_def when_act_def)

lemma keeps_try [keeps_intros]: "keeps P a \<Longrightarrow> keeps P (try_ignore a)"
  by (simp add: keeps_def try_ignore_def)

lemma keeps_for_each [keeps_intros]:
  "(\<And>x. x \<in> set xs \<Longrightarrow> keeps P (f x)) \<Longrightarrow> keeps P (for_each f xs)"
proof (induction xs)
  case Nil
  show ?case by (simp add: keeps_def)
next
  case (Cons x xs)
  then have "keeps P (andthen (f x) (for_each f xs))"
    by (intro keeps_andthen) auto
  then show ?case by (simp add: keeps_def)
qed

lemma keeps_if [keeps_intros]:
  "keeps P f \<Longrightarrow> keeps P g \<Longrightarrow> keeps P (\<lambda>s. if c s then f s else g s)"
  by (simp add: keeps_def)

lemma keeps_case_option [keeps_intros]:
  "keeps P f \<Longrightarrow> (\<And>x. v = Some x \<Longrightarrow> keeps P (g x)) \<Longrightarrow>
     keeps P (\<lambda>s. case v of None \<Rightarrow> f s | Some x \<Rightarrow> g x s)"
  by (simp add: keeps_def split: option.split)

subsection \<open>Actions that never throw\<close>

definition total_act :: "'s act \<Rightarrow> bool" where
  "total_act a \<longleftrightarrow> (\<forall>s. fst (a s) = None)"

lemma total_actD: "total_act a \<Longrightarrow> a s = (None, snd (a s))"
  by (metis prod.collapse total_act_def)

subsection \<open>Which exceptions an action may throw\<close>

text \<open>
  From a state satisfying \<open>P\<close> the action ends in one, and if it throws, then an exception
  satisfying \<open>E\<close>.
\<close>

definition throws_only :: "(js_error \<Rightarrow> bool) \<Rightarrow> ('s \<Rightarrow> bool) \<Rightarrow> 's act \<Rightarrow> bool" where
  "throws_only E P a \<longleftrightarrow> (\<forall>s. P s \<longrightarrow> P (snd (a s)) \<and> (\<forall>e. fst (a s) = Some e \<longrightarrow> E e))"

lemma throws_onlyI:
  "(\<And>s. P s \<Longrightarrow> P (snd (a s)) \<and> (\<forall>e. fst (a s) = Some e \<longrightarrow> E e)) \<Longrightarrow> throws_only E P a"
  by (simp add: throws_only_def)

lemma throws_onlyD: "throws_only E P a \<Longrightarrow> P s \<Longrightarrow> fst (a s) = Some e \<Longrightarrow> E e"
  by (simp add: throws_only_def)

lemma throws_only_keeps: "throws_only E P a \<Longrightarrow> keeps P a"
  by (simp add: throws_only_def keeps_def)

lemma throws_only_total: "keeps P a \<Longrightarrow> total_act a \<Longrightarrow> throws_only E P a"
  by (simp add: throws_only_def keeps_def total_act_def)

lemma throws_only_andthen:
  "throws_only E P a \<Longrightarrow> throws_only E P b \<Longrightarrow> throws_only E P (andthen a b)"
  by (fastforce simp: throws_only_def andthen_def split: prod.splits option.splits)

lemma throws_only_if:
  "throws_only E P f \<Longrightarrow> throws_only E P g \<Longrightarrow> throws_only E P (\<lambda>s. if c s then f s else g s)"
  by (simp add: throws_only_def)

lemma throws_only_for_each:
  "(\<And>x. x \<in> set xs \<Longrightarrow> throws_only E P (f x)) \<Longrightarrow> throws_only E P (for_each f xs)"
proof (induction xs)
  case Nil
  show ?case by (simp add: throws_only_def)
next
  case (Cons x xs)
  then have "throws_only E P (andthen (f x) (for_each f xs))"
    by (intro throws_only_andthen) auto
  then show ?case by (simp add: throws_only_def)
qed

subsection \<open>Actions that agree on a set of states\<close>

text \<open>
  Two versions of an action agree on the states satisfying \<open>P\<close>, and the second keeps
  \<open>P\<close>: the relation that lifts through the loops and sequences of the model, used to show
  that a recursion has enough fuel.
\<close>

definition agree :: "('s \<Rightarrow> bool) \<Rightarrow> 's act \<Rightarrow> 's act \<Rightarrow> bool" where
  "agree P a b \<longleftrightarrow> (\<forall>s. P s \<longrightarrow> a s = b s \<and> P (snd (b s)))"

lemma agreeI: "(\<And>s. P s \<Longrightarrow> a s = b s \<and> P (snd (b s))) \<Longrightarrow> agree P a b"
  by (simp add: agree_def)

lemma agreeD: "agree P a b \<Longrightarrow> P s \<Longrightarrow> a s = b s"
  by (simp add: agree_def)

lemma agree_keeps: "agree P a b \<Longrightarrow> keeps P b"
  by (simp add: agree_def keeps_def)

lemma agree_refl: "keeps P a \<Longrightarrow> agree P a a"
  by (simp add: agree_def keeps_def)

lemma agree_andthen [agree_intros]: "agree P a a' \<Longrightarrow> agree P b b' \<Longrightarrow> agree P (andthen a b) (andthen a' b')"
  unfolding agree_def andthen_def by (fastforce split: prod.splits option.splits)

lemma agree_perform:
  "list_all2 (agree P) as bs \<Longrightarrow> agree P (perform as) (perform bs)"
proof (induction rule: list_all2_induct)
  case Nil
  show ?case by (simp add: agree_def)
next
  case (Cons a as b bs)
  then have "agree P (andthen a (perform as)) (andthen b (perform bs))"
    by (intro agree_andthen)
  then show ?case by (simp add: agree_def)
qed

lemma agree_when [agree_intros]: "agree P a b \<Longrightarrow> agree P (when_act c a) (when_act c b)"
  by (simp add: agree_def when_act_def)

lemma agree_if [agree_intros]:
  "agree P f f' \<Longrightarrow> agree P g g' \<Longrightarrow>
     agree P (\<lambda>s. if c s then f s else g s) (\<lambda>s. if c s then f' s else g' s)"
  by (simp add: agree_def)

lemma agree_for_each [agree_intros]:
  "(\<And>x. x \<in> set xs \<Longrightarrow> agree P (f x) (g x)) \<Longrightarrow> agree P (for_each f xs) (for_each g xs)"
proof (induction xs)
  case Nil
  show ?case by (simp add: agree_def)
next
  case (Cons x xs)
  then have "agree P (andthen (f x) (for_each f xs)) (andthen (g x) (for_each g xs))"
    by (intro agree_andthen) auto
  then show ?case by (simp add: agree_def)
qed

section \<open>Computations with a state, a result and exceptions\<close>

text \<open>Like actions, for functions whose result is used: a throw keeps the state reached.\<close>

type_synonym ('s, 'a) comp = "'s \<Rightarrow> 'a result \<times> 's"

definition ret :: "'a \<Rightarrow> ('s, 'a) comp" where
  "ret x s = (Inr x, s)"

definition liftS :: "'a result \<Rightarrow> ('s, 'a) comp" where
  "liftS r s = (r, s)"

definition bindS :: "('s, 'a) comp \<Rightarrow> ('a \<Rightarrow> ('s, 'b) comp) \<Rightarrow> ('s, 'b) comp" where
  "bindS m f s = (case m s of (Inl e, s') \<Rightarrow> (Inl e, s') | (Inr x, s') \<Rightarrow> f x s')"

lemma ret_apply [act_simps]: "ret x s = (Inr x, s)"
  by (simp add: ret_def)

lemma liftS_apply [act_simps]: "liftS r s = (r, s)"
  by (simp add: liftS_def)

lemma bindS_Inr [act_simps]: "m s = (Inr x, s') \<Longrightarrow> bindS m f s = f x s'"
  by (simp add: bindS_def)

lemma bindS_step: "m s = (Inr x, s') \<Longrightarrow> f x s' = r \<Longrightarrow> bindS m f s = r"
  by (simp add: bindS_def)

lemma bindS_Inl [act_simps]: "m s = (Inl e, s') \<Longrightarrow> bindS m f s = (Inl e, s')"
  by (simp add: bindS_def)

lemma bindS_eq_Inr:
  "bindS m f s = (Inr y, t) \<longleftrightarrow> (\<exists>x s'. m s = (Inr x, s') \<and> f x s' = (Inr y, t))"
  by (auto simp: bindS_def split: prod.splits sum.splits)

definition keepsS :: "('s \<Rightarrow> bool) \<Rightarrow> ('s, 'a) comp \<Rightarrow> bool" where
  "keepsS P m \<longleftrightarrow> (\<forall>s. P s \<longrightarrow> P (snd (m s)))"

lemma keepsSI: "(\<And>s. P s \<Longrightarrow> P (snd (m s))) \<Longrightarrow> keepsS P m"
  by (simp add: keepsS_def)

lemma keepsSD: "keepsS P m \<Longrightarrow> P s \<Longrightarrow> P (snd (m s))"
  by (simp add: keepsS_def)

lemma keepsS_ret [keeps_intros]: "keepsS P (ret x)"
  by (simp add: keepsS_def ret_def)

lemma keepsS_liftS [keeps_intros]: "keepsS P (liftS r)"
  by (simp add: keepsS_def liftS_def)

lemma keepsS_bindS [keeps_intros]: "keepsS P m \<Longrightarrow> (\<And>x. keepsS P (f x)) \<Longrightarrow> keepsS P (bindS m f)"
  by (fastforce simp: keepsS_def bindS_def split: prod.splits sum.splits)

section \<open>Dictionaries: objects made with \<open>Object.create(null)\<close>\<close>

text \<open>
  Own string-keyed properties in creation order. Assigning to an existing property keeps
  its place; \<^verbatim>\<open>delete\<close> removes it; there is no prototype, so no other key is ever found.
\<close>

type_synonym 'v dict = "(js_string \<times> 'v) list"

definition prop_get :: "'v dict \<Rightarrow> js_string \<Rightarrow> 'v option" where
  "prop_get d k = map_of d k"

definition prop_has :: "'v dict \<Rightarrow> js_string \<Rightarrow> bool" where
  "prop_has d k \<longleftrightarrow> map_of d k \<noteq> None"

definition prop_set :: "'v dict \<Rightarrow> js_string \<Rightarrow> 'v \<Rightarrow> 'v dict" where
  "prop_set d k v = AList.update k v d"

definition prop_del :: "'v dict \<Rightarrow> js_string \<Rightarrow> 'v dict" where
  "prop_del d k = AList.delete k d"

text \<open>
  \<^verbatim>\<open>Object.keys\<close> lists canonical array indices (\<open>0 .. 2 ^ 32 - 2\<close>) in ascending order
  first, then the other keys in creation order.
\<close>

definition is_digit :: "16 word \<Rightarrow> bool" where
  "is_digit u \<longleftrightarrow> 48 \<le> unat u \<and> unat u \<le> 57"

definition decimal_value :: "js_string \<Rightarrow> nat" where
  "decimal_value s = foldl (\<lambda>n u. 10 * n + (unat u - 48)) 0 s"

definition array_index :: "js_string \<Rightarrow> nat option" where
  "array_index s =
     (if s \<noteq> [] \<and> list_all is_digit s \<and> (hd s \<noteq> 48 \<or> tl s = []) \<and> decimal_value s < 4294967295
      then Some (decimal_value s) else None)"

definition index_rank :: "js_string \<Rightarrow> nat" where
  "index_rank s = (case array_index s of None \<Rightarrow> 0 | Some n \<Rightarrow> n)"

definition obj_keys :: "'v dict \<Rightarrow> js_string list" where
  "obj_keys d =
     (let ks = map fst d
      in sort_key index_rank (filter (\<lambda>k. array_index k \<noteq> None) ks)
         @ filter (\<lambda>k. array_index k = None) ks)"

definition wf_dict :: "'v dict \<Rightarrow> bool" where
  "wf_dict d \<longleftrightarrow> distinct (map fst d)"

lemma prop_get_empty [simp]: "prop_get [] k = None"
  by (simp add: prop_get_def)

lemma prop_get_set [simp, dict_simps]:
  "prop_get (prop_set d k v) k' = (if k' = k then Some v else prop_get d k')"
  by (simp add: prop_get_def prop_set_def update_conv')

lemma prop_get_del [simp, dict_simps]:
  "prop_get (prop_del d k) k' = (if k' = k then None else prop_get d k')"
  by (simp add: prop_get_def prop_del_def delete_conv')

lemma prop_has_get: "prop_has d k \<longleftrightarrow> prop_get d k \<noteq> None"
  by (simp add: prop_has_def prop_get_def)

lemma prop_has_empty [simp]: "\<not> prop_has [] k"
  by (simp add: prop_has_def)

lemma prop_has_set [simp, dict_simps]: "prop_has (prop_set d k v) k' \<longleftrightarrow> k' = k \<or> prop_has d k'"
  by (simp add: prop_has_get)

lemma prop_has_del [simp, dict_simps]: "prop_has (prop_del d k) k' \<longleftrightarrow> k' \<noteq> k \<and> prop_has d k'"
  by (simp add: prop_has_get)

lemma set_keys_has: "k \<in> fst ` set d \<longleftrightarrow> prop_has d k"
  by (simp add: prop_has_def map_of_eq_None_iff)

lemma set_obj_keys [simp]: "k \<in> set (obj_keys d) \<longleftrightarrow> prop_has d k"
  using set_keys_has [of k d] by (auto simp: obj_keys_def Let_def)

lemma obj_keys_empty [simp]: "obj_keys [] = []"
  by (simp add: obj_keys_def)

lemma length_obj_keys: "length (obj_keys d) = length d"
  unfolding obj_keys_def Let_def
  using sum_length_filter_compl [of "\<lambda>k. array_index k \<noteq> None" "map fst d"] by simp

lemma obj_keys_eq_Nil [simp]: "obj_keys d = [] \<longleftrightarrow> d = []"
  using length_obj_keys [of d] by (metis length_0_conv)

lemma wf_dict_empty [simp]: "wf_dict []"
  by (simp add: wf_dict_def)

lemma wf_dict_set [simp]: "wf_dict d \<Longrightarrow> wf_dict (prop_set d k v)"
  by (simp add: wf_dict_def prop_set_def distinct_update)

lemma wf_dict_del [simp]: "wf_dict d \<Longrightarrow> wf_dict (prop_del d k)"
  by (simp add: wf_dict_def prop_del_def delete_keys distinct_removeAll)

lemma distinct_obj_keys: "wf_dict d \<Longrightarrow> distinct (obj_keys d)"
  by (auto simp: obj_keys_def Let_def wf_dict_def)

lemma prop_set_set [simp]: "prop_set (prop_set d k v) k w = prop_set d k w"
  by (simp add: prop_set_def)

lemma prop_set_nonempty [simp]: "prop_set d k v \<noteq> []"
  by (simp add: prop_set_def)

lemma prop_del_absent [simp]: "\<not> prop_has d k \<Longrightarrow> prop_del d k = d"
  by (simp add: prop_del_def flip: set_keys_has)

lemma prop_del_empty [simp]: "prop_del [] k = []"
  by (simp add: prop_del_def)

lemma length_prop_set:
  "length (prop_set d k v) = (if prop_has d k then length d else Suc (length d))"
  by (induction d) (auto simp: prop_set_def prop_has_def)

lemma length_prop_del:
  "wf_dict d \<Longrightarrow> length (prop_del d k) = (if prop_has d k then length d - 1 else length d)"
proof (induction d)
  case Nil
  then show ?case by (simp add: prop_del_def)
next
  case (Cons p d)
  then have wf: "wf_dict d" and p: "fst p \<notin> fst ` set d" by (auto simp: wf_dict_def)
  show ?case
  proof (cases "fst p = k")
    case True
    with p have "\<not> prop_has d k" using set_keys_has [of k d] by simp
    then show ?thesis
      using True prop_del_absent [of d k] by (cases p) (auto simp: prop_del_def prop_has_def)
  next
    case False
    then have "prop_has (p # d) k = prop_has d k" by (cases p) (simp add: prop_has_def)
    moreover have "prop_has d k \<Longrightarrow> d \<noteq> []" by auto
    ultimately show ?thesis using Cons.IH [OF wf] False
      by (cases p) (auto simp: prop_del_def)
  qed
qed

lemma dict_empty_iff: "d = [] \<longleftrightarrow> (\<forall>k. \<not> prop_has d k)"
proof
  assume "\<forall>k. \<not> prop_has d k"
  then have "set (obj_keys d) = {}" by (simp only: set_eq_iff set_obj_keys) simp
  then show "d = []" by simp
qed simp

end
