(* ===== verification/JS_Number.thy ===== *)
theory JS_Number
  imports JS_Base Complex_Main "HOL-Library.Log_Nat"
begin

text \<open>
  JavaScript numbers: IEEE 754 binary64. A number is not-a-number, an infinity, or a finite
  value (a rational; the two zeros are one value). Every arithmetic operation is the exact
  one followed by rounding to the nearest double, ties to even, with gradual underflow
  (\<open>fl64\<close>) and overflow to an infinity (\<open>round_num\<close>).
\<close>

section \<open>Rounding to binary64\<close>

text \<open>The binary exponent: \<open>2 powi exponent_of x \<le> x < 2 powi (exponent_of x + 1)\<close>.\<close>

definition exponent_of :: "rat \<Rightarrow> int" where
  "exponent_of x =
     (let (a, b) = quotient_of x; e = bitlen a - bitlen b
      in if 2 powi e \<le> x then e else e - 1)"

definition round_even :: "rat \<Rightarrow> int" where
  "round_even x =
     (let f = \<lfloor>x\<rfloor>; d = x - of_int f
      in if d < 1 / 2 then f else if 1 / 2 < d then f + 1 else if even f then f else f + 1)"

text \<open>The exponent of the last significand bit; subnormals share the least one.\<close>

definition ulp_exp :: "rat \<Rightarrow> int" where
  "ulp_exp x = max (exponent_of \<bar>x\<bar> - 52) (-1074)"

definition fl64 :: "rat \<Rightarrow> rat" where
  "fl64 x =
     (if x = 0 then 0
      else of_int (round_even (x / 2 powi ulp_exp x)) * 2 powi ulp_exp x)"

definition is_double :: "rat \<Rightarrow> bool" where
  "is_double x \<longleftrightarrow> fl64 x = x"

section \<open>Numbers and their arithmetic\<close>

datatype jsnum = NaN | PosInf | NegInf | Fin rat

definition round_num :: "rat \<Rightarrow> jsnum" where
  "round_num x =
     (let r = fl64 x
      in if 2 ^ 1024 \<le> r then PosInf else if r \<le> - (2 ^ 1024) then NegInf else Fin r)"

fun num_add :: "jsnum \<Rightarrow> jsnum \<Rightarrow> jsnum" where
  "num_add (Fin x) (Fin y) = round_num (x + y)"
| "num_add NaN _ = NaN"
| "num_add _ NaN = NaN"
| "num_add PosInf NegInf = NaN"
| "num_add NegInf PosInf = NaN"
| "num_add PosInf _ = PosInf"
| "num_add _ PosInf = PosInf"
| "num_add NegInf _ = NegInf"
| "num_add _ NegInf = NegInf"

fun num_neg :: "jsnum \<Rightarrow> jsnum" where
  "num_neg (Fin x) = Fin (- x)"
| "num_neg NaN = NaN"
| "num_neg PosInf = NegInf"
| "num_neg NegInf = PosInf"

definition num_sub :: "jsnum \<Rightarrow> jsnum \<Rightarrow> jsnum" where
  "num_sub a b = num_add a (num_neg b)"

definition inf_of_sign :: "rat \<Rightarrow> jsnum" where
  "inf_of_sign x = (if x = 0 then NaN else if 0 < x then PosInf else NegInf)"

fun num_mul :: "jsnum \<Rightarrow> jsnum \<Rightarrow> jsnum" where
  "num_mul (Fin x) (Fin y) = round_num (x * y)"
| "num_mul NaN _ = NaN"
| "num_mul _ NaN = NaN"
| "num_mul PosInf (Fin y) = inf_of_sign y"
| "num_mul (Fin x) PosInf = inf_of_sign x"
| "num_mul NegInf (Fin y) = inf_of_sign (- y)"
| "num_mul (Fin x) NegInf = inf_of_sign (- x)"
| "num_mul PosInf PosInf = PosInf"
| "num_mul NegInf NegInf = PosInf"
| "num_mul PosInf NegInf = NegInf"
| "num_mul NegInf PosInf = NegInf"

text \<open>Division by a non-zero literal, the only division of the source.\<close>

definition num_div_lit :: "jsnum \<Rightarrow> rat \<Rightarrow> jsnum" where
  "num_div_lit a c =
     (case a of Fin x \<Rightarrow> round_num (x / c)
      | PosInf \<Rightarrow> inf_of_sign c | NegInf \<Rightarrow> inf_of_sign (- c) | NaN \<Rightarrow> NaN)"

fun num_less :: "jsnum \<Rightarrow> jsnum \<Rightarrow> bool" where
  "num_less NaN _ = False"
| "num_less _ NaN = False"
| "num_less (Fin x) (Fin y) = (x < y)"
| "num_less PosInf _ = False"
| "num_less _ PosInf = True"
| "num_less _ NegInf = False"
| "num_less NegInf _ = True"

fun num_eq :: "jsnum \<Rightarrow> jsnum \<Rightarrow> bool" where
  "num_eq NaN _ = False"
| "num_eq a b = (a = b)"

definition num_leq :: "jsnum \<Rightarrow> jsnum \<Rightarrow> bool" where
  "num_leq a b \<longleftrightarrow> num_less a b \<or> num_eq a b"

abbreviation js_nat :: "nat \<Rightarrow> jsnum" where
  "js_nat n \<equiv> Fin (of_nat n)"

text \<open>\<^verbatim>\<open>Number.isInteger\<close>\<close>

fun is_integer_num :: "jsnum \<Rightarrow> bool" where
  "is_integer_num (Fin x) = (of_int \<lfloor>x\<rfloor> = x)"
| "is_integer_num _ = False"

section \<open>Facts about rounding\<close>

lemma exponent_of_bounds:
  assumes "0 < x"
  shows "2 powi exponent_of x \<le> x" "x < 2 powi (exponent_of x + 1)"
proof -
  obtain a b where q: "quotient_of x = (a, b)" by (cases "quotient_of x")
  have b: "0 < b" using quotient_of_denom_pos [OF q] .
  have x: "x = of_int a / of_int b" using quotient_of_div [OF q] .
  have a: "0 < a" using assms b unfolding x by (simp add: zero_less_divide_iff)
  define la lb where "la = bitlen a" and "lb = bitlen b"
  have la: "0 < la" and lb: "0 < lb"
    using a b bitlen_nonneg [of a] bitlen_nonneg [of b] bitlen_eq_zero_iff [of a] bitlen_eq_zero_iff [of b]
    by (auto simp: la_def lb_def less_le)
  have A: "2 powi (la - 1) \<le> (of_int a :: rat)" "(of_int a :: rat) < 2 powi la"
  proof -
    have "2 ^ nat (la - 1) \<le> a" "a < 2 ^ nat la"
      using bitlen_bounds [OF a] by (auto simp: la_def)
    then have "(of_int (2 ^ nat (la - 1)) :: rat) \<le> of_int a" "(of_int a :: rat) < of_int (2 ^ nat la)"
      by (simp_all only: of_int_le_iff of_int_less_iff)
    then show "2 powi (la - 1) \<le> (of_int a :: rat)" "(of_int a :: rat) < 2 powi la"
      using la by (simp_all add: power_int_def)
  qed
  have B: "2 powi (lb - 1) \<le> (of_int b :: rat)" "(of_int b :: rat) < 2 powi lb"
  proof -
    have "2 ^ nat (lb - 1) \<le> b" "b < 2 ^ nat lb"
      using bitlen_bounds [OF b] by (auto simp: lb_def)
    then have "(of_int (2 ^ nat (lb - 1)) :: rat) \<le> of_int b" "(of_int b :: rat) < of_int (2 ^ nat lb)"
      by (simp_all only: of_int_le_iff of_int_less_iff)
    then show "2 powi (lb - 1) \<le> (of_int b :: rat)" "(of_int b :: rat) < 2 powi lb"
      using lb by (simp_all add: power_int_def)
  qed
  have up: "x < 2 powi (la - lb + 1)"
  proof -
    have "x \<le> of_int a / 2 powi (lb - 1)" unfolding x
      by (rule divide_left_mono [OF B(1)]) (use a b in auto)
    also have "\<dots> < 2 powi la / 2 powi (lb - 1)"
      by (rule divide_strict_right_mono [OF A(2)]) simp
    also have "\<dots> = 2 powi (la - lb + 1)"
      by (simp add: algebra_simps flip: power_int_diff)
    finally show ?thesis .
  qed
  have lo: "2 powi (la - lb - 1) \<le> x"
  proof -
    have "2 powi (la - lb - 1) = 2 powi (la - 1) / (2 powi lb :: rat)"
      by (simp add: algebra_simps flip: power_int_diff)
    also have "\<dots> \<le> of_int a / 2 powi lb"
      by (rule divide_right_mono [OF A(1)]) simp
    also have "\<dots> \<le> x" unfolding x
      by (rule divide_left_mono) (use a b B(2) in auto)
    finally show ?thesis .
  qed
  show "2 powi exponent_of x \<le> x" "x < 2 powi (exponent_of x + 1)"
    using up lo by (auto simp: exponent_of_def q la_def lb_def Let_def)
qed

lemma pow2_less_iff: "(2 :: rat) powi m < 2 powi n \<longleftrightarrow> m < n"
  by (metis linorder_not_less one_less_numeral_iff power_int_increasing
      power_int_strict_increasing semiring_norm(76) order_less_imp_le order_less_irrefl)

lemma exponent_of_mono: "0 < x \<Longrightarrow> x \<le> y \<Longrightarrow> exponent_of x \<le> exponent_of y"
  using exponent_of_bounds(1) [of x] exponent_of_bounds(2) [of y]
    pow2_less_iff [of "exponent_of x" "exponent_of y + 1"] by linarith

lemma round_even_bounds: "\<lfloor>x\<rfloor> \<le> round_even x" "round_even x \<le> \<lfloor>x\<rfloor> + 1"
  by (auto simp: round_even_def Let_def)

lemma round_even_near: "\<bar>of_int (round_even x) - x\<bar> \<le> 1 / 2"
  using of_int_floor_le [of x] floor_correct [of x]
  by (auto simp: round_even_def Let_def abs_le_iff)

lemma round_even_of_int [simp]: "round_even (of_int n) = n"
  by (simp add: round_even_def)

lemma round_even_mono: "x \<le> y \<Longrightarrow> round_even x \<le> round_even y"
proof (cases "\<lfloor>x\<rfloor> = \<lfloor>y\<rfloor>")
  case True
  assume "x \<le> y"
  with True show ?thesis by (auto simp: round_even_def Let_def)
next
  case False
  assume "x \<le> y"
  with False have "\<lfloor>x\<rfloor> + 1 \<le> \<lfloor>y\<rfloor>" using floor_mono [of x y] by linarith
  then show ?thesis using round_even_bounds [of x] round_even_bounds [of y] by linarith
qed

lemma round_even_minus: "round_even (- x) = - round_even x"
proof (cases "of_int \<lfloor>x\<rfloor> = x")
  case True
  then show ?thesis by (metis of_int_minus round_even_of_int)
next
  case False
  then have f: "\<lfloor>- x\<rfloor> = - \<lfloor>x\<rfloor> - 1"
    by (metis add_uminus_conv_diff ceiling_altdef ceiling_def minus_add_distrib
        minus_minus)
  show ?thesis unfolding round_even_def f Let_def by (auto simp: algebra_simps)
qed

lemma fl64_0 [simp]: "fl64 0 = 0"
  by (simp add: fl64_def)

lemma fl64_minus: "fl64 (- x) = - fl64 x"
  by (simp add: fl64_def ulp_exp_def round_even_minus)

text \<open>A multiple of the unit in the last place is a double.\<close>

lemma fl64_multiple:
  assumes "x = of_int m * 2 powi ulp_exp x"
  shows "fl64 x = x"
proof (cases "x = 0")
  case False
  have "x / 2 powi ulp_exp x = of_int m"
    using assms by (metis nonzero_mult_div_cancel_right power_int_not_zero zero_neq_numeral)
  then have "round_even (x / 2 powi ulp_exp x) = m" by simp
  with False assms show ?thesis by (simp add: fl64_def)
qed simp

lemma pow2_multiple: "e \<le> f \<Longrightarrow> \<exists>m :: int. (2 :: rat) powi f = of_int m * 2 powi e"
proof -
  assume "e \<le> f"
  then have "(2 :: rat) powi (f - e) = 2 ^ nat (f - e)"
    by (simp add: power_int_def)
  moreover have "(2 :: rat) powi f = 2 powi (f - e) * 2 powi e"
    by (simp flip: power_int_add)
  ultimately have "(2 :: rat) powi f = 2 ^ nat (f - e) * 2 powi e" by simp
  then show ?thesis by (intro exI [of _ "2 ^ nat (f - e)"]) simp
qed

lemma fl64_le_pow2:
  assumes "0 < x" "x \<le> 2 powi f" "ulp_exp x \<le> f"
  shows "fl64 x \<le> 2 powi f"
proof -
  obtain m :: int where m: "(2 :: rat) powi f = of_int m * 2 powi ulp_exp x"
    using pow2_multiple [OF assms(3)] by blast
  have "x / 2 powi ulp_exp x \<le> of_int m"
    using assms(2) by (simp add: m pos_divide_le_eq)
  then have "round_even (x / 2 powi ulp_exp x) \<le> m"
    using round_even_mono round_even_of_int by metis
  then have "of_int (round_even (x / 2 powi ulp_exp x)) * 2 powi ulp_exp x \<le> (of_int m * 2 powi ulp_exp x :: rat)"
    by (intro mult_right_mono) simp_all
  with assms(1) show ?thesis by (simp add: fl64_def m)
qed

lemma fl64_ge_pow2:
  assumes "0 < x" "2 powi f \<le> x" "ulp_exp x \<le> f"
  shows "2 powi f \<le> fl64 x"
proof -
  obtain m :: int where m: "(2 :: rat) powi f = of_int m * 2 powi ulp_exp x"
    using pow2_multiple [OF assms(3)] by blast
  have "of_int m \<le> x / 2 powi ulp_exp x"
    using assms(2) by (simp add: m pos_le_divide_eq)
  then have "m \<le> round_even (x / 2 powi ulp_exp x)"
    using round_even_mono round_even_of_int by metis
  then have "(of_int m * 2 powi ulp_exp x :: rat) \<le> of_int (round_even (x / 2 powi ulp_exp x)) * 2 powi ulp_exp x"
    by (intro mult_right_mono) simp_all
  with assms(1) show ?thesis by (simp add: fl64_def m)
qed

lemma fl64_nonneg: "0 \<le> x \<Longrightarrow> 0 \<le> fl64 x"
proof (cases "x = 0")
  case False
  assume "0 \<le> x"
  then have "0 \<le> \<lfloor>x / 2 powi ulp_exp x\<rfloor>" by (simp add: zero_le_floor)
  then have "0 \<le> round_even (x / 2 powi ulp_exp x)"
    using round_even_bounds(1) [of "x / 2 powi ulp_exp x"] by linarith
  with False show ?thesis by (simp add: fl64_def)
qed simp

lemma fl64_mono_pos:
  assumes "0 < x" "x \<le> y"
  shows "fl64 x \<le> fl64 y"
proof -
  have y: "0 < y" using assms by linarith
  have ex: "exponent_of x \<le> exponent_of y" using assms by (rule exponent_of_mono)
  then have u: "ulp_exp x \<le> ulp_exp y" using assms y by (auto simp: ulp_exp_def)
  show ?thesis
  proof (cases "ulp_exp x = ulp_exp y")
    case True
    have "x / 2 powi ulp_exp y \<le> y / 2 powi ulp_exp y"
      using assms(2) by (intro divide_right_mono) simp_all
    then have "round_even (x / 2 powi ulp_exp y) \<le> round_even (y / 2 powi ulp_exp y)"
      by (rule round_even_mono)
    then show ?thesis using assms y True by (simp add: fl64_def)
  next
    case False
    define f where "f = exponent_of y"
    have f: "exponent_of x + 1 \<le> f" "ulp_exp y \<le> f" "ulp_exp x \<le> f" "ulp_exp y = f - 52"
      using False u assms y by (auto simp: ulp_exp_def f_def)
    have "x \<le> 2 powi f"
      using exponent_of_bounds(2) [OF assms(1)] f(1) power_int_increasing [of "exponent_of x + 1" f "2 :: rat"]
      by simp
    then have "fl64 x \<le> 2 powi f" using assms(1) f(3) by (intro fl64_le_pow2)
    also have "\<dots> \<le> fl64 y"
      using y exponent_of_bounds(1) [OF y] f(2) by (intro fl64_ge_pow2) (simp_all add: f_def)
    finally show ?thesis .
  qed
qed

lemma fl64_mono: "x \<le> y \<Longrightarrow> fl64 x \<le> fl64 y"
proof -
  assume xy: "x \<le> y"
  consider "0 < x" | "x \<le> 0" "0 \<le> y" | "y < 0" by linarith
  then show ?thesis
  proof cases
    case 1
    then show ?thesis using xy by (rule fl64_mono_pos)
  next
    case 2
    then have "0 \<le> fl64 (- x)" "0 \<le> fl64 y" by (auto intro: fl64_nonneg)
    then show ?thesis by (simp add: fl64_minus)
  next
    case 3
    then have "fl64 (- y) \<le> fl64 (- x)" using xy by (intro fl64_mono_pos) auto
    then show ?thesis by (simp add: fl64_minus)
  qed
qed

text \<open>Integers up to \<open>2 ^ 53\<close> are doubles.\<close>

lemma fl64_of_int_pos:
  assumes "0 < n" "n < 2 ^ 53"
  shows "fl64 (of_int n) = of_int n"
proof -
  have "(2 :: rat) powi exponent_of (of_int n) \<le> of_int n"
    using assms exponent_of_bounds(1) by simp
  also have "\<dots> < 2 powi 53"
    using assms(2) by (simp flip: of_int_power_less_of_int_cancel_iff)
  finally have e: "exponent_of (of_int n) < 53" by (simp only: pow2_less_iff)
  then have "ulp_exp (of_int n) \<le> 0" using assms by (simp add: ulp_exp_def)
  then obtain m :: int where "(2 :: rat) powi 0 = of_int m * 2 powi ulp_exp (of_int n)"
    using pow2_multiple by blast
  then have "(of_int n :: rat) = of_int (n * m) * 2 powi ulp_exp (of_int n)" by simp
  then show ?thesis by (rule fl64_multiple)
qed

lemma fl64_of_int: "\<bar>n\<bar> < 2 ^ 53 \<Longrightarrow> fl64 (of_int n) = of_int n"
  using fl64_of_int_pos [of n] fl64_of_int_pos [of "- n"] fl64_minus [of "- of_int n"]
  by (cases "n = 0"; cases "0 < n") auto

section \<open>Numbers that are not negative\<close>

definition nonneg :: "jsnum \<Rightarrow> bool" where
  "nonneg v \<longleftrightarrow> (case v of Fin x \<Rightarrow> 0 \<le> x | PosInf \<Rightarrow> True | _ \<Rightarrow> False)"

lemma nonneg_simps [simp]: "nonneg (Fin x) \<longleftrightarrow> 0 \<le> x" "nonneg PosInf" "\<not> nonneg NegInf" "\<not> nonneg NaN"
  by (simp_all add: nonneg_def)

lemma nonneg_round: "0 \<le> x \<Longrightarrow> nonneg (round_num x)"
proof -
  assume "0 \<le> x"
  then have "0 \<le> fl64 x" by (rule fl64_nonneg)
  moreover have "- (2 ^ 1024) < (0 :: rat)" by simp
  ultimately have "\<not> fl64 x \<le> - (2 ^ 1024)" by (metis less_le_trans not_less)
  with \<open>0 \<le> fl64 x\<close> show ?thesis by (simp add: round_num_def Let_def)
qed

lemma nonneg_add: "nonneg a \<Longrightarrow> nonneg b \<Longrightarrow> nonneg (num_add a b)"
  by (cases a; cases b) (simp_all add: nonneg_round)

lemma nonneg_mul: "nonneg a \<Longrightarrow> num_less (Fin 0) r \<Longrightarrow> r \<noteq> PosInf \<Longrightarrow> nonneg (num_mul a r)"
  by (cases a; cases r) (simp_all add: nonneg_round inf_of_sign_def)

text \<open>A finite double.\<close>

definition finite_double :: "rat \<Rightarrow> bool" where
  "finite_double x \<longleftrightarrow> is_double x \<and> x < 2 ^ 1024"

lemma round_between:
  assumes "0 \<le> x" "x \<le> b" "finite_double b"
  shows "\<exists>y. round_num x = Fin y \<and> 0 \<le> y \<and> y \<le> b"
proof -
  have "fl64 x \<le> b" using fl64_mono [OF assms(2)] assms(3) by (simp add: finite_double_def is_double_def)
  moreover have "b < 2 ^ 1024" using assms(3) by (simp add: finite_double_def)
  ultimately have "\<not> 2 ^ 1024 \<le> fl64 x" by linarith
  then show ?thesis
    using nonneg_round [OF assms(1)] \<open>fl64 x \<le> b\<close>
    by (auto simp: round_num_def Let_def split: if_splits)
qed

text \<open>Rounding gives doubles.\<close>

lemma is_double_fl64: "0 \<le> x \<Longrightarrow> is_double (fl64 x)"
proof (cases "fl64 x = 0")
  case False
  assume "0 \<le> x"
  with False have x: "0 < x" and y: "0 < fl64 x" using fl64_nonneg [of x] by (cases "x = 0"; force)+
  have m: "fl64 x = of_int (round_even (x / 2 powi ulp_exp x)) * 2 powi ulp_exp x" using x by (simp add: fl64_def)
  show ?thesis
  proof (cases "ulp_exp (fl64 x) \<le> ulp_exp x")
    case True
    then obtain j :: int where "(2 :: rat) powi ulp_exp x = of_int j * 2 powi ulp_exp (fl64 x)" using pow2_multiple by blast
    with m have "fl64 x = of_int (round_even (x / 2 powi ulp_exp x) * j) * 2 powi ulp_exp (fl64 x)" by simp
    then show ?thesis unfolding is_double_def by (rule fl64_multiple)
  next
    case False
    let ?f = "exponent_of (fl64 x)"
    from False x y have f: "ulp_exp (fl64 x) = ?f - 52" "exponent_of x + 1 \<le> ?f" "ulp_exp x \<le> ?f"
      by (auto simp: ulp_exp_def)
    have "x < 2 powi (exponent_of x + 1)" using exponent_of_bounds(2) [OF x] .
    also have "\<dots> \<le> 2 powi ?f" using f(2) by (simp add: power_int_increasing)
    finally have "fl64 x \<le> 2 powi ?f" using x f(3) by (intro fl64_le_pow2) simp_all
    with exponent_of_bounds(1) [OF y] have "fl64 x = 2 powi ?f" by simp
    moreover obtain j :: int where "(2 :: rat) powi ?f = of_int j * 2 powi ulp_exp (fl64 x)"
      using pow2_multiple [of "ulp_exp (fl64 x)" ?f] f(1) by auto
    ultimately have "fl64 x = of_int j * 2 powi ulp_exp (fl64 x)" by simp
    then show ?thesis unfolding is_double_def by (rule fl64_multiple)
  qed
qed (simp add: is_double_def)

end
