(* ===== verification/Utf8.thy ===== *)
theory Utf8
  imports JS_Base
begin

text \<open>
  The UTF-8 codec both sides use for names and text: \<^verbatim>\<open>Buffer.from(s, "utf-8")\<close> and
  \<^verbatim>\<open>TextEncoder\<close> (\<open>utf8_encode\<close>), \<^verbatim>\<open>Buffer.toString("utf-8")\<close> (\<open>utf8_decode\<close>) and
  \<^verbatim>\<open>TextDecoder\<close>, which also drops a leading byte order mark (\<open>text_decode\<close>). Encoding
  replaces a lone surrogate by U+FFFD; decoding follows the state machine of the Encoding
  standard, one U+FFFD for each maximal ill-formed prefix.
\<close>

section \<open>Encoding\<close>

definition is_high :: "16 word \<Rightarrow> bool" where
  "is_high u \<longleftrightarrow> 55296 \<le> unat u \<and> unat u < 56320"

definition is_low :: "16 word \<Rightarrow> bool" where
  "is_low u \<longleftrightarrow> 56320 \<le> unat u \<and> unat u < 57344"

definition repl_char :: nat where
  "repl_char = 65533"

text \<open>The scalar values of a string, lone surrogates replaced.\<close>

fun scalars :: "js_string \<Rightarrow> nat list" where
  "scalars [] = []"
| "scalars [u] = [if is_high u \<or> is_low u then repl_char else unat u]"
| "scalars (u # v # us) =
     (if is_high u \<and> is_low v
      then (65536 + (unat u - 55296) * 1024 + (unat v - 56320)) # scalars us
      else (if is_high u \<or> is_low u then repl_char else unat u) # scalars (v # us))"

definition enc_scalar :: "nat \<Rightarrow> bytes" where
  "enc_scalar c =
     (if c < 128 then [of_nat c]
      else if c < 2048 then [of_nat (192 + c div 64), of_nat (128 + c mod 64)]
      else if c < 65536 then
        [of_nat (224 + c div 4096), of_nat (128 + c div 64 mod 64), of_nat (128 + c mod 64)]
      else
        [of_nat (240 + c div 262144), of_nat (128 + c div 4096 mod 64),
         of_nat (128 + c div 64 mod 64), of_nat (128 + c mod 64)])"

definition utf8_encode :: "js_string \<Rightarrow> bytes" where
  "utf8_encode s = concat (map enc_scalar (scalars s))"

section \<open>Decoding\<close>

text \<open>
  \<open>dec cp need lo hi bs\<close>: the code point collected so far, the number of continuation
  bytes still needed and the range the next one must lie in. A byte outside the range ends
  the sequence with U+FFFD and is read again as a first byte.
\<close>

function (sequential) dec :: "nat \<Rightarrow> nat \<Rightarrow> nat \<Rightarrow> nat \<Rightarrow> bytes \<Rightarrow> nat list" where
  "dec cp need lo hi [] = (if need = 0 then [] else [repl_char])"
| "dec cp need lo hi (b # bs) =
     (let x = unat b in
      if need = 0 then
        (if x < 128 then x # dec 0 0 128 191 bs
         else if 194 \<le> x \<and> x \<le> 223 then dec (x mod 32) 1 128 191 bs
         else if 224 \<le> x \<and> x \<le> 239 then
           dec (x mod 16) 2 (if x = 224 then 160 else 128) (if x = 237 then 159 else 191) bs
         else if 240 \<le> x \<and> x \<le> 244 then
           dec (x mod 8) 3 (if x = 240 then 144 else 128) (if x = 244 then 143 else 191) bs
         else repl_char # dec 0 0 128 191 bs)
      else if x < lo \<or> hi < x then repl_char # dec 0 0 128 191 (b # bs)
      else if need = 1 then (cp * 64 + x mod 64) # dec 0 0 128 191 bs
      else dec (cp * 64 + x mod 64) (need - 1) 128 191 bs)"
  by pat_completeness auto
termination
  by (relation "measures [\<lambda>(cp, need, lo, hi, bs). length bs, \<lambda>(cp, need, lo, hi, bs). need]") auto

declare dec.simps [simp del]

text \<open>The UTF-16 code units of a scalar value.\<close>

definition units :: "nat \<Rightarrow> js_string" where
  "units c =
     (if c < 65536 then [of_nat c]
      else [of_nat (55296 + (c - 65536) div 1024), of_nat (56320 + (c - 65536) mod 1024)])"

definition utf8_scalars :: "bytes \<Rightarrow> nat list" where
  "utf8_scalars bs = dec 0 0 128 191 bs"

definition utf8_decode :: "bytes \<Rightarrow> js_string" where
  "utf8_decode bs = concat (map units (utf8_scalars bs))"

text \<open>\<^verbatim>\<open>new TextDecoder("utf-8").decode(bs)\<close>: a leading byte order mark is dropped.\<close>

definition text_decode :: "bytes \<Rightarrow> js_string" where
  "text_decode bs = utf8_decode (if take 3 bs = [239, 187, 191] then drop 3 bs else bs)"

section \<open>Well-formed strings\<close>

definition is_scalar :: "nat \<Rightarrow> bool" where
  "is_scalar c \<longleftrightarrow> c < 55296 \<or> (57344 \<le> c \<and> c < 1114112)"

text \<open>No lone surrogate.\<close>

fun well_formed :: "js_string \<Rightarrow> bool" where
  "well_formed [] = True"
| "well_formed [u] = (\<not> is_high u \<and> \<not> is_low u)"
| "well_formed (u # v # us) =
     (if is_high u \<and> is_low v then well_formed us
      else \<not> is_high u \<and> \<not> is_low u \<and> well_formed (v # us))"

text \<open>\<^verbatim>\<open>String.prototype.toWellFormed\<close>\<close>

definition to_well_formed :: "js_string \<Rightarrow> js_string" where
  "to_well_formed s = concat (map units (scalars s))"

section \<open>Round trip\<close>

lemma unat_lt_u16 [simp]: "unat (u :: 16 word) < 65536"
  using unsigned_less [of u, where ?'a = nat] by simp

lemma unat_lt_u8 [simp]: "unat (u :: 8 word) < 256"
  using unsigned_less [of u, where ?'a = nat] by simp

lemma mod_base:
  fixes y :: nat
  shows "y < 64 \<Longrightarrow> (128 + y) mod 64 = y" "y \<le> 31 \<Longrightarrow> (192 + y) mod 32 = y"
    "y \<le> 15 \<Longrightarrow> (224 + y) mod 16 = y" "y \<le> 4 \<Longrightarrow> (240 + y) mod 8 = y"
  using mod_mult_self2 [of y 64 2] mod_mult_self2 [of y 32 6] mod_mult_self2 [of y 16 14]
    mod_mult_self2 [of y 8 30]
  by (simp_all add: add.commute)

lemma div_64_twice: "(c :: nat) div 64 div 64 = c div 4096" "c div 4096 div 64 = c div 262144"
  by (simp_all flip: div_mult2_eq)

lemma recombine_3: "((c :: nat) div 4096 * 64 + c div 64 mod 64) * 64 + c mod 64 = c"
  using div_mult_mod_eq [of "c div 64" 64] div_mult_mod_eq [of c 64]
  by (simp only: div_64_twice)

lemma recombine_4:
  "(((c :: nat) div 262144 * 64 + c div 4096 mod 64) * 64 + c div 64 mod 64) * 64 + c mod 64 = c"
  using div_mult_mod_eq [of "c div 4096" 64] recombine_3 [of c]
  by (simp only: div_64_twice)

lemma div_mod_digits:
  fixes d :: nat
  assumes "d < (k * 64 + l)" "d div 64 = k"
  shows "d mod 64 < l"
  using assms div_mult_mod_eq [of d 64] by linarith

lemma unat_of_nat_u8 [simp]: "n < 256 \<Longrightarrow> unat (of_nat n :: 8 word) = n"
  by (simp add: unat_of_nat take_bit_nat_eq_self)

lemma unat_of_nat_u16 [simp]: "n < 65536 \<Longrightarrow> unat (of_nat n :: 16 word) = n"
  by (simp add: unat_of_nat take_bit_nat_eq_self)

lemma surrogate_pair_range:
  "is_high u \<Longrightarrow> is_low v \<Longrightarrow>
     65536 \<le> 65536 + (unat u - 55296) * 1024 + (unat v - 56320) \<and>
     65536 + (unat u - 55296) * 1024 + (unat v - 56320) < 1114112"
  unfolding is_high_def is_low_def by linarith

lemma not_surrogate_scalar: "\<not> is_high u \<Longrightarrow> \<not> is_low u \<Longrightarrow> is_scalar (unat u)"
  using less_trans [OF unat_lt_u16 [of u], of 1114112]
  unfolding is_high_def is_low_def is_scalar_def by linarith

lemma scalars_are_scalar: "c \<in> set (scalars s) \<Longrightarrow> is_scalar c"
proof (induction s rule: scalars.induct)
  case (2 u)
  then show ?case
    using not_surrogate_scalar [of u] by (auto simp: is_scalar_def repl_char_def split: if_splits)
next
  case (3 u v us)
  then show ?case
    using surrogate_pair_range [of u v] not_surrogate_scalar [of u]
    by (auto simp: is_scalar_def repl_char_def split: if_splits)
qed simp

text \<open>Decoding undoes the encoding of one scalar value and goes on with the rest.\<close>

lemma dec_enc_1:
  "c < 128 \<Longrightarrow> dec 0 0 128 191 (enc_scalar c @ bs) = c # dec 0 0 128 191 bs"
  by (simp add: enc_scalar_def dec.simps [of 0 0])

lemma dec_first_2:
  assumes "194 \<le> x" "x \<le> 223"
  shows "dec 0 0 128 191 (of_nat x # bs) = dec (x mod 32) 1 128 191 bs"
  using assms by (simp add: dec.simps [of 0 0])

lemma dec_first_3:
  assumes "224 \<le> x" "x \<le> 239"
  shows "dec 0 0 128 191 (of_nat x # bs) =
    dec (x mod 16) 2 (if x = 224 then 160 else 128) (if x = 237 then 159 else 191) bs"
  using assms by (simp add: dec.simps [of 0 0])

lemma dec_first_4:
  assumes "240 \<le> x" "x \<le> 244"
  shows "dec 0 0 128 191 (of_nat x # bs) =
    dec (x mod 8) 3 (if x = 240 then 144 else 128) (if x = 244 then 143 else 191) bs"
  using assms by (simp add: dec.simps [of 0 0])

lemma dec_cont:
  assumes "0 < n" "lo \<le> 128 + y" "128 + y \<le> hi" "y < 64"
  shows "dec cp n lo hi (of_nat (128 + y) # bs) =
    (if n = 1 then (cp * 64 + y) # dec 0 0 128 191 bs else dec (cp * 64 + y) (n - 1) 128 191 bs)"
proof -
  have "(128 + y) mod 64 = y" using assms(4) by (rule mod_base)
  moreover have "unat (of_nat (128 + y) :: 8 word) = 128 + y"
    using assms(4) by (intro unat_of_nat_u8) simp
  ultimately show ?thesis using assms by (simp add: dec.simps [of cp n] Let_def)
qed

lemma dec_enc_2:
  assumes "128 \<le> c" "c < 2048"
  shows "dec 0 0 128 191 (enc_scalar c @ bs) = c # dec 0 0 128 191 bs"
proof -
  have "2 \<le> c div 64" "c div 64 \<le> 31" using assms by auto
  moreover have "(192 + c div 64) mod 32 = c div 64" using calculation by (intro mod_base)
  ultimately show ?thesis
    using assms by (simp add: enc_scalar_def dec_first_2 dec_cont del: of_nat_add)
qed

lemma dec_enc_3:
  assumes "2048 \<le> c" "c < 65536" "is_scalar c"
  shows "dec 0 0 128 191 (enc_scalar c @ bs) = c # dec 0 0 128 191 bs"
proof -
  let ?a = "c div 4096" and ?b = "c div 64 mod 64"
  have a: "?a \<le> 15" using assms by auto
  have m: "(224 + ?a) mod 16 = ?a" using a by (rule mod_base)
  have E0: "?a = 0 \<Longrightarrow> 32 \<le> ?b" using assms by auto
  have ED: "?b \<le> 31" if "?a = 13"
  proof -
    have "c < 57344" using that by auto
    then have "c < 55296" using assms(3) by (auto simp: is_scalar_def)
    then have "c div 64 < 13 * 64 + 32" by auto
    moreover have "c div 64 div 64 = 13" using that by (simp add: div_64_twice)
    ultimately show ?thesis using div_mod_digits [of "c div 64" 13 32] by simp
  qed
  have "dec 0 0 128 191 (enc_scalar c @ bs) =
      dec ?a 2 (if 224 + ?a = 224 then 160 else 128) (if 224 + ?a = 237 then 159 else 191)
        (of_nat (128 + ?b) # of_nat (128 + c mod 64) # bs)"
    using assms a m by (simp add: enc_scalar_def dec_first_3 del: of_nat_add)
  also have "\<dots> = dec (?a * 64 + ?b) 1 128 191 (of_nat (128 + c mod 64) # bs)"
    using E0 ED by (subst dec_cont) auto
  also have "\<dots> = (((?a * 64 + ?b) * 64 + c mod 64)) # dec 0 0 128 191 bs"
    by (subst dec_cont) auto
  also have "(?a * 64 + ?b) * 64 + c mod 64 = c" by (rule recombine_3)
  finally show ?thesis .
qed

lemma dec_enc_4:
  assumes "65536 \<le> c" "is_scalar c"
  shows "dec 0 0 128 191 (enc_scalar c @ bs) = c # dec 0 0 128 191 bs"
proof -
  let ?a = "c div 262144" and ?b = "c div 4096 mod 64" and ?d = "c div 64 mod 64"
  have c: "c < 1114112" using assms by (auto simp: is_scalar_def)
  have a: "?a \<le> 4" using c by auto
  have m: "(240 + ?a) mod 8 = ?a" using a by (rule mod_base)
  have F0: "?a = 0 \<Longrightarrow> 16 \<le> ?b" using assms by auto
  have F4: "?b \<le> 15" if "?a = 4"
  proof -
    have "c div 4096 < 4 * 64 + 16" using c by auto
    moreover have "c div 4096 div 64 = 4" using that by (simp add: div_64_twice)
    ultimately show ?thesis using div_mod_digits [of "c div 4096" 4 16] by simp
  qed
  have "dec 0 0 128 191 (enc_scalar c @ bs) =
      dec ?a 3 (if 240 + ?a = 240 then 144 else 128) (if 240 + ?a = 244 then 143 else 191)
        (of_nat (128 + ?b) # of_nat (128 + ?d) # of_nat (128 + c mod 64) # bs)"
    using assms a m by (simp add: enc_scalar_def dec_first_4 del: of_nat_add)
  also have "\<dots> = dec (?a * 64 + ?b) 2 128 191 (of_nat (128 + ?d) # of_nat (128 + c mod 64) # bs)"
    using F0 F4 by (subst dec_cont) auto
  also have "\<dots> = dec ((?a * 64 + ?b) * 64 + ?d) 1 128 191 (of_nat (128 + c mod 64) # bs)"
    by (subst dec_cont) auto
  also have "\<dots> = ((((?a * 64 + ?b) * 64 + ?d) * 64 + c mod 64)) # dec 0 0 128 191 bs"
    by (subst dec_cont) auto
  also have "((?a * 64 + ?b) * 64 + ?d) * 64 + c mod 64 = c" by (rule recombine_4)
  finally show ?thesis .
qed

lemma dec_enc_scalar:
  "is_scalar c \<Longrightarrow> dec 0 0 128 191 (enc_scalar c @ bs) = c # dec 0 0 128 191 bs"
  using dec_enc_1 dec_enc_2 dec_enc_3 dec_enc_4 by (meson linorder_not_less)

lemma utf8_scalars_concat:
  "(\<And>c. c \<in> set cs \<Longrightarrow> is_scalar c) \<Longrightarrow> utf8_scalars (concat (map enc_scalar cs)) = cs"
  unfolding utf8_scalars_def
  by (induction cs) (simp_all add: dec_enc_scalar dec.simps(1))

lemma utf8_scalars_encode: "utf8_scalars (utf8_encode s) = scalars s"
  unfolding utf8_encode_def by (rule utf8_scalars_concat) (rule scalars_are_scalar)

lemma utf8_decode_encode: "utf8_decode (utf8_encode s) = to_well_formed s"
  by (simp add: utf8_decode_def utf8_scalars_encode to_well_formed_def)

lemma to_well_formed_id: "well_formed s \<Longrightarrow> to_well_formed s = s"
proof (induction s rule: scalars.induct)
  case 1
  show ?case by (simp add: to_well_formed_def)
next
  case (2 u)
  then show ?case by (simp add: to_well_formed_def units_def)
next
  case (3 u v us)
  show ?case
  proof (cases "is_high u \<and> is_low v")
    case True
    let ?c = "65536 + (unat u - 55296) * 1024 + (unat v - 56320)"
    define x y where "x = unat u - 55296" and "y = unat v - 56320"
    have xy: "y < 1024" "unat u = 55296 + x" "unat v = 56320 + y"
      using True by (auto simp: is_high_def is_low_def x_def y_def)
    then have hi: "55296 + (?c - 65536) div 1024 = unat u" and lo: "56320 + (?c - 65536) mod 1024 = unat v"
      by auto
    have "units ?c = [u, v]"
      unfolding units_def hi lo by simp
    with 3 True show ?thesis by (simp add: to_well_formed_def)
  next
    case False
    with 3 show ?thesis by (auto simp: to_well_formed_def units_def)
  qed
qed

section \<open>What decoding produces\<close>

text \<open>
  The values a partial sequence can still become form an interval; it never meets the
  surrogates and never passes U+10FFFF. This is why the decoder only yields scalar values.
\<close>

definition in_range :: "nat \<Rightarrow> nat \<Rightarrow> bool" where
  "in_range lo hi \<longleftrightarrow> hi < 55296 \<or> (57344 \<le> lo \<and> hi < 1114112)"

definition dec_ok :: "nat \<Rightarrow> nat \<Rightarrow> nat \<Rightarrow> nat \<Rightarrow> bool" where
  "dec_ok cp need lo hi \<longleftrightarrow>
     need = 0 \<or>
     (128 \<le> lo \<and> hi \<le> 191 \<and>
      ((need = 1 \<and> in_range (cp * 64 + (lo - 128)) (cp * 64 + (hi - 128))) \<or>
       (need = 2 \<and> in_range ((cp * 64 + (lo - 128)) * 64) ((cp * 64 + (hi - 128)) * 64 + 63)) \<or>
       (need = 3 \<and> in_range ((cp * 64 + (lo - 128)) * 4096) ((cp * 64 + (hi - 128)) * 4096 + 4095))))"

lemma dec_ok_start [simp]: "dec_ok cp 0 lo hi"
  by (simp add: dec_ok_def)

lemma first_2_ok: "194 \<le> x \<Longrightarrow> x \<le> 223 \<Longrightarrow> dec_ok (x mod 32) 1 128 191"
proof -
  have "x mod 32 < 32" by simp
  then have "(x mod 32 * 64 + 63) < 55296" by linarith
  then show ?thesis by (simp add: dec_ok_def in_range_def)
qed

lemma first_3_ok:
  assumes "224 \<le> x" "x \<le> 239"
  shows "dec_ok (x mod 16) 2 (if x = 224 then 160 else 128) (if x = 237 then 159 else 191)"
proof -
  have "x mod 16 = x - 224" using assms mod_base(3) [of "x - 224"] by simp
  then show ?thesis using assms by (auto simp: dec_ok_def in_range_def)
qed

lemma first_4_ok:
  assumes "240 \<le> x" "x \<le> 244"
  shows "dec_ok (x mod 8) 3 (if x = 240 then 144 else 128) (if x = 244 then 143 else 191)"
proof -
  have "x mod 8 = x - 240" using assms mod_base(4) [of "x - 240"] by simp
  then show ?thesis using assms by (auto simp: dec_ok_def in_range_def)
qed

lemma cont_digit: "128 \<le> x \<Longrightarrow> x \<le> 191 \<Longrightarrow> x mod 64 = x - (128 :: nat)"
  using mod_base(1) [of "x - 128"] by simp

lemma in_range_sub: "in_range a b \<Longrightarrow> a \<le> a' \<Longrightarrow> b' \<le> b \<Longrightarrow> in_range a' b'"
  unfolding in_range_def by linarith

lemma cont_ok:
  assumes ok: "dec_ok cp need lo hi" and n: "need \<noteq> 0" "need \<noteq> 1" and x: "lo \<le> x" "x \<le> hi"
  shows "dec_ok (cp * 64 + x mod 64) (need - 1) 128 191"
proof -
  have b: "128 \<le> lo" "hi \<le> 191" using ok n by (auto simp: dec_ok_def)
  define y where "y = x - 128"
  have m: "x mod 64 = y" unfolding y_def by (rule cont_digit) (use b x in linarith)+
  have y: "lo - 128 \<le> y" "y \<le> hi - 128" using b x by (simp_all add: y_def)
  consider "need = 2" "in_range ((cp * 64 + (lo - 128)) * 64) ((cp * 64 + (hi - 128)) * 64 + 63)"
    | "need = 3" "in_range ((cp * 64 + (lo - 128)) * 4096) ((cp * 64 + (hi - 128)) * 4096 + 4095)"
    using ok n unfolding dec_ok_def by blast
  then show ?thesis
  proof cases
    case 1
    then have "in_range ((cp * 64 + y) * 64 + (128 - 128)) ((cp * 64 + y) * 64 + (191 - 128))"
      using y by (intro in_range_sub [OF 1(2)]) simp_all
    then show ?thesis unfolding m dec_ok_def by (simp add: 1(1))
  next
    case 2
    then have "in_range (((cp * 64 + y) * 64 + (128 - 128)) * 64) (((cp * 64 + y) * 64 + (191 - 128)) * 64 + 63)"
      using y by (intro in_range_sub [OF 2(2)]) simp_all
    then show ?thesis unfolding m dec_ok_def by (simp add: 2(1))
  qed
qed

lemma last_ok:
  assumes "dec_ok cp 1 lo hi" "lo \<le> x" "x \<le> hi"
  shows "is_scalar (cp * 64 + x mod 64)"
  using assms cont_digit [of x] by (auto simp: dec_ok_def in_range_def is_scalar_def)

lemma repl_is_scalar [simp]: "is_scalar repl_char"
  by (simp add: is_scalar_def repl_char_def)

text \<open>One step of the decoder from its initial state, case by case.\<close>

lemma dec_start_cases:
  obtains (ascii) "unat b < 128" "dec cp 0 lo hi (b # bs) = unat b # dec 0 0 128 191 bs"
  | (two) "194 \<le> unat b" "unat b \<le> 223" "dec cp 0 lo hi (b # bs) = dec (unat b mod 32) 1 128 191 bs"
  | (three) "224 \<le> unat b" "unat b \<le> 239" "dec cp 0 lo hi (b # bs) =
      dec (unat b mod 16) 2 (if unat b = 224 then 160 else 128) (if unat b = 237 then 159 else 191) bs"
  | (four) "240 \<le> unat b" "unat b \<le> 244" "dec cp 0 lo hi (b # bs) =
      dec (unat b mod 8) 3 (if unat b = 240 then 144 else 128) (if unat b = 244 then 143 else 191) bs"
  | (bad) "dec cp 0 lo hi (b # bs) = repl_char # dec 0 0 128 191 bs"
proof -
  have eq: "dec cp 0 lo hi (b # bs) =
    (if unat b < 128 then unat b # dec 0 0 128 191 bs
     else if 194 \<le> unat b \<and> unat b \<le> 223 then dec (unat b mod 32) 1 128 191 bs
     else if 224 \<le> unat b \<and> unat b \<le> 239 then
       dec (unat b mod 16) 2 (if unat b = 224 then 160 else 128) (if unat b = 237 then 159 else 191) bs
     else if 240 \<le> unat b \<and> unat b \<le> 244 then
       dec (unat b mod 8) 3 (if unat b = 240 then 144 else 128) (if unat b = 244 then 143 else 191) bs
     else repl_char # dec 0 0 128 191 bs)"
    by (simp only: dec.simps(2) [of cp 0 lo hi b bs] Let_def simp_thms if_True)
  show ?thesis
  proof (cases "unat b < 128")
    case True
    then show ?thesis using eq by (intro ascii) (simp_all only: if_True)
  next
    case f1: False
    show ?thesis
    proof (cases "194 \<le> unat b \<and> unat b \<le> 223")
      case True
      then show ?thesis using eq f1 by (intro two) (simp_all only: if_True if_False simp_thms)
    next
      case f2: False
      show ?thesis
      proof (cases "224 \<le> unat b \<and> unat b \<le> 239")
        case True
        then show ?thesis using eq f1 f2 by (intro three) (simp_all only: if_True if_False simp_thms)
      next
        case f3: False
        show ?thesis
        proof (cases "240 \<le> unat b \<and> unat b \<le> 244")
          case True
          then show ?thesis using eq f1 f2 f3 by (intro four) (simp_all only: if_True if_False simp_thms)
        next
          case False
          with eq f1 f2 f3 show ?thesis by (intro bad) (simp only: if_True if_False simp_thms)
        qed
      qed
    qed
  qed
qed

text \<open>One step in the middle of a sequence.\<close>

lemma dec_cont_cases:
  assumes "need \<noteq> 0"
  obtains (bad) "dec cp need lo hi (b # bs) = repl_char # dec 0 0 128 191 (b # bs)"
  | (last) "need = 1" "lo \<le> unat b" "unat b \<le> hi"
      "dec cp need lo hi (b # bs) = (cp * 64 + unat b mod 64) # dec 0 0 128 191 bs"
  | (more) "need \<noteq> 1" "lo \<le> unat b" "unat b \<le> hi"
      "dec cp need lo hi (b # bs) = dec (cp * 64 + unat b mod 64) (need - 1) 128 191 bs"
proof -
  consider "unat b < lo \<or> hi < unat b" | "lo \<le> unat b \<and> unat b \<le> hi" "need = 1"
    | "lo \<le> unat b \<and> unat b \<le> hi" "need \<noteq> 1"
    by linarith
  then show ?thesis
  proof cases
    case 1
    with assms show ?thesis by (intro bad) (simp add: dec.simps(2) [of cp need])
  next
    case 2
    with assms show ?thesis by (intro last) (simp_all add: dec.simps(2) [of cp "Suc 0"])
  next
    case 3
    with assms show ?thesis by (intro more) (simp_all add: dec.simps(2) [of cp need])
  qed
qed

lemma dec_scalars: "dec_ok cp need lo hi \<Longrightarrow> c \<in> set (dec cp need lo hi bs) \<Longrightarrow> is_scalar c"
proof (induction bs arbitrary: cp need lo hi)
  case Nil
  then show ?case by (auto simp: dec.simps(1) split: if_splits)
next
  case (Cons b bs)
  have start: "is_scalar c" if "c \<in> set (dec cp 0 lo hi (b # bs))" for cp lo hi
  proof (cases rule: dec_start_cases [of b cp lo hi bs])
    case ascii
    with that Cons.IH [OF dec_ok_start] show ?thesis by (auto simp: is_scalar_def)
  next
    case two
    with that Cons.IH [OF first_2_ok [OF two(1,2)]] show ?thesis by simp
  next
    case three
    with that Cons.IH [OF first_3_ok [OF three(1,2)]] show ?thesis by simp
  next
    case four
    with that Cons.IH [OF first_4_ok [OF four(1,2)]] show ?thesis by simp
  next
    case bad
    with that Cons.IH [OF dec_ok_start] show ?thesis by auto
  qed
  show ?case
  proof (cases "need = 0")
    case True
    with Cons.prems start show ?thesis by simp
  next
    case False
    from False show ?thesis
    proof (cases rule: dec_cont_cases [of need cp lo hi b bs])
      case bad
      with Cons.prems(2) start [of 0 128 191] show ?thesis by auto
    next
      case last
      with Cons.prems Cons.IH [OF dec_ok_start] last_ok [of cp lo hi "unat b"] show ?thesis by auto
    next
      case more
      with Cons.prems Cons.IH [OF cont_ok [OF Cons.prems(1) False more(1-3)]] show ?thesis by simp
    qed
  qed
qed

lemma utf8_scalars_ok: "c \<in> set (utf8_scalars bs) \<Longrightarrow> is_scalar c"
  unfolding utf8_scalars_def by (rule dec_scalars [OF dec_ok_start])

lemma scalars_units: "is_scalar c \<Longrightarrow> scalars (units c @ s) = c # scalars s"
proof (cases "c < 65536")
  case True
  assume "is_scalar c"
  with True have "\<not> is_high (of_nat c)" "\<not> is_low (of_nat c)"
    by (auto simp: is_high_def is_low_def is_scalar_def)
  with True show ?thesis by (cases s) (auto simp: units_def)
next
  case False
  assume "is_scalar c"
  define x y where "x = (c - 65536) div 1024" and "y = (c - 65536) mod 1024"
  have "x < 1024" using \<open>is_scalar c\<close> by (auto simp: x_def is_scalar_def)
  moreover have "y < 1024" by (simp add: y_def)
  moreover have "c = 65536 + x * 1024 + y"
    using False div_mult_mod_eq [of "c - 65536" 1024] by (simp add: x_def y_def)
  ultimately show ?thesis
    using False by (simp add: units_def is_high_def is_low_def flip: x_def y_def del: of_nat_add)
qed

lemma scalars_concat_units:
  "(\<And>c. c \<in> set cs \<Longrightarrow> is_scalar c) \<Longrightarrow> scalars (concat (map units cs)) = cs"
  by (induction cs) (simp_all add: scalars_units)

lemma scalars_decode [simp]: "scalars (utf8_decode bs) = utf8_scalars bs"
  unfolding utf8_decode_def by (rule scalars_concat_units) (rule utf8_scalars_ok)

text \<open>A decoded string survives another round trip.\<close>

lemma utf8_decode_stable: "utf8_decode (utf8_encode (utf8_decode bs)) = utf8_decode bs"
  by (simp add: utf8_decode_encode to_well_formed_def) (simp add: utf8_decode_def)

subsection \<open>How long a decoded name gets when it is encoded again\<close>

lemma length_enc_scalar: "length (enc_scalar c) \<le> 4" "0 < length (enc_scalar c)"
  by (auto simp: enc_scalar_def)

lemma length_enc_repl: "length (enc_scalar repl_char) = 3"
  by (simp add: enc_scalar_def repl_char_def)

definition enc_length :: "nat list \<Rightarrow> nat" where
  "enc_length cs = sum_list (map (\<lambda>c. length (enc_scalar c)) cs)"

lemma enc_length_simps [simp]:
  "enc_length [] = 0" "enc_length (c # cs) = length (enc_scalar c) + enc_length cs"
  by (simp_all add: enc_length_def)

lemma length_utf8_encode: "length (utf8_encode s) = enc_length (scalars s)"
  by (simp add: utf8_encode_def enc_length_def length_concat comp_def)

lemma dec_enc_length:
  "enc_length (dec cp need lo hi bs) \<le> 3 * length bs + (if need = 0 then 0 else 3)"
proof (induction bs arbitrary: cp need lo hi)
  case Nil
  then show ?case by (simp add: dec.simps(1) length_enc_repl)
next
  case (Cons b bs)
  have ih: "enc_length (dec cp need lo hi bs) \<le> 3 * length bs + 3"
    "enc_length (dec cp 0 lo hi bs) \<le> 3 * length bs" for cp need lo hi
    using Cons.IH [of cp need lo hi] Cons.IH [of cp 0 lo hi] by (auto split: if_splits)
  have start: "enc_length (dec cp 0 lo hi (b # bs)) \<le> 3 * length (b # bs)" for cp lo hi
  proof (cases rule: dec_start_cases [of b cp lo hi bs])
    case ascii
    then have "length (enc_scalar (unat b)) = 1" by (simp add: enc_scalar_def)
    with ascii ih(2) [of 0 128 191] show ?thesis by simp
  next
    case bad
    with ih(2) [of 0 128 191] show ?thesis by (simp add: length_enc_repl)
  next
    case two
    then show ?thesis using ih(1) by (simp only: length_Cons) (metis add.commute mult_Suc_right)
  next
    case three
    then show ?thesis using ih(1) by (simp only: length_Cons) (metis add.commute mult_Suc_right)
  next
    case four
    then show ?thesis using ih(1) by (simp only: length_Cons) (metis add.commute mult_Suc_right)
  qed
  show ?case
  proof (cases "need = 0")
    case True
    with start [of cp lo hi] show ?thesis by simp
  next
    case False
    from False show ?thesis
    proof (cases rule: dec_cont_cases [of need cp lo hi b bs])
      case bad
      with start [of 0 128 191] False show ?thesis by (simp add: length_enc_repl)
    next
      case last
      with ih(2) [of 0 128 191] length_enc_scalar(1) [of "cp * 64 + unat b mod 64"] False
      show ?thesis by simp
    next
      case more
      with ih(1) [of "cp * 64 + unat b mod 64" "need - 1" 128 191] False show ?thesis by simp
    qed
  qed
qed

lemma reencode_length: "length (utf8_encode (utf8_decode bs)) \<le> 3 * length bs"
  using dec_enc_length [of 0 0 128 191 bs] by (simp add: length_utf8_encode utf8_scalars_def)

text \<open>Bytes that begin no sequence triple in length.\<close>

lemma dec_invalid: "dec 0 0 128 191 (replicate n 255) = replicate n repl_char"
  by (induction n) (simp_all add: dec.simps)

lemma reencode_invalid: "length (utf8_encode (utf8_decode (replicate n 255))) = 3 * n"
  by (simp add: length_utf8_encode utf8_scalars_def dec_invalid enc_length_def length_enc_repl
      sum_list_replicate)

text \<open>ASCII text is encoded byte for byte.\<close>

lemma ascii_not_surrogate: "unat u < 128 \<Longrightarrow> \<not> is_high u \<and> \<not> is_low u"
  by (simp add: is_high_def is_low_def)

lemma scalars_ascii: "(\<And>u. u \<in> set s \<Longrightarrow> unat u < 128) \<Longrightarrow> scalars s = map unat s"
  by (induction s rule: scalars.induct) (simp_all add: ascii_not_surrogate)

lemma well_formed_ascii: "(\<And>u. u \<in> set s \<Longrightarrow> unat u < 128) \<Longrightarrow> well_formed s"
  by (induction s rule: well_formed.induct) (simp_all add: ascii_not_surrogate)

lemma utf8_encode_ascii_length: "(\<And>u. u \<in> set s \<Longrightarrow> unat u < 128) \<Longrightarrow> length (utf8_encode s) = length s"
proof (induction s)
  case (Cons u s)
  moreover have "scalars (u # s) = unat u # scalars s"
    using Cons.prems scalars_ascii [of "u # s"] scalars_ascii [of s] by simp
  ultimately show ?case
    by (simp add: length_utf8_encode enc_scalar_def)
qed (simp add: utf8_encode_def)

section \<open>The round trip\<close>

lemma utf8_roundtrip: "well_formed s \<Longrightarrow> utf8_decode (utf8_encode s) = s"
  by (simp add: utf8_decode_encode to_well_formed_id)

text \<open>String literals are well formed.\<close>

lemma well_formed_Cons: "\<not> is_high u \<Longrightarrow> \<not> is_low u \<Longrightarrow> well_formed s \<Longrightarrow> well_formed (u # s)"
  by (cases s) auto

lemma well_formed_append: "well_formed p \<Longrightarrow> well_formed s \<Longrightarrow> well_formed (p @ s)"
  by (induction p rule: well_formed.induct) (auto simp: well_formed_Cons split: if_splits)

lemma unat_of_char: "unat (of_char c :: 16 word) = of_char c"
proof -
  have "(of_char c :: nat) < 65536" by (rule less_trans [OF nat_of_char_less_256]) simp
  then have "unat (of_nat (of_char c) :: 16 word) = of_char c" by (rule unat_of_nat_u16)
  then show ?thesis by (simp add: of_nat_of_char)
qed

lemma well_formed_jstr [simp]: "well_formed (jstr s)"
proof (induction s)
  case (Cons c s)
  have "(of_char c :: nat) < 55296" by (rule less_trans [OF nat_of_char_less_256]) simp
  then have "\<not> is_high (of_char c)" "\<not> is_low (of_char c)"
    by (simp_all add: is_high_def is_low_def unat_of_char)
  with Cons show ?case by (simp add: jstr_def well_formed_Cons)
qed simp

end
