(* ===== verification/JS_Value.thy ===== *)
theory JS_Value
  imports JS_Number Utf8
begin

text \<open>
  The JavaScript values the code tests with \<^verbatim>\<open>typeof\<close>, the JSON text it builds with
  \<^verbatim>\<open>JSON.stringify\<close>, and the Node.js Buffer primitives of the codecs: big-endian reads and
  writes that throw a RangeError out of bounds, and \<^verbatim>\<open>copy\<close>.
\<close>

section \<open>JSON text\<close>

text \<open>
  A value with a JSON text. An object is given by its own properties in the order of
  \<^verbatim>\<open>Object.keys\<close>.
\<close>

datatype json =
    JsNull
  | JsBool bool
  | JsNum jsnum
  | JsStr js_string
  | JsArr "json list"
  | JsObj "(js_string \<times> json) list"

definition hex_digit :: "nat \<Rightarrow> 16 word" where
  "hex_digit n = (if n < 10 then of_nat (48 + n) else of_nat (87 + n))"

text \<open>\<^verbatim>\<open>\uXXXX\<close>, lower case.\<close>

definition unicode_escape :: "16 word \<Rightarrow> js_string" where
  "unicode_escape u =
     [92, 117, hex_digit (unat u div 4096), hex_digit (unat u div 256 mod 16),
      hex_digit (unat u div 16 mod 16), hex_digit (unat u mod 16)]"

definition escape_unit :: "16 word \<Rightarrow> js_string" where
  "escape_unit u =
     (if u = 8 then [92, 98] else if u = 9 then [92, 116] else if u = 10 then [92, 110]
      else if u = 12 then [92, 102] else if u = 13 then [92, 114]
      else if u = 34 then [92, 34] else if u = 92 then [92, 92]
      else if unat u < 32 then unicode_escape u else [u])"

fun escape_string :: "js_string \<Rightarrow> js_string" where
  "escape_string [] = []"
| "escape_string [u] = (if is_high u \<or> is_low u then unicode_escape u else escape_unit u)"
| "escape_string (u # v # us) =
     (if is_high u \<and> is_low v then u # v # escape_string us
      else (if is_high u \<or> is_low u then unicode_escape u else escape_unit u) @ escape_string (v # us))"

definition quote_json :: "js_string \<Rightarrow> js_string" where
  "quote_json s = [34] @ escape_string s @ [34]"

fun digits :: "nat \<Rightarrow> js_string" where
  "digits n = (if n < 10 then [of_nat (48 + n)] else digits (n div 10) @ [of_nat (48 + n mod 10)])"

declare digits.simps [simp del]

definition int_string :: "int \<Rightarrow> js_string" where
  "int_string i = (if i < 0 then 45 # digits (nat (- i)) else digits (nat i))"

text \<open>
  \<^verbatim>\<open>String(x)\<close> of a number: the shortest decimal digits that round to it, printed as the
  language standard says. \<open>dec_exp x\<close> is the \<open>n\<close> with \<open>10 powi (n - 1) \<le> x < 10 powi n\<close>.
\<close>

definition dec_exp :: "rat \<Rightarrow> int" where
  "dec_exp x =
     (if 1 \<le> x then int (length (digits (nat \<lfloor>x\<rfloor>)))
      else 1 - int (length (digits (nat (\<lceil>1 / x\<rceil> - 1)))))"

definition shortest_digits :: "rat \<Rightarrow> js_string \<times> int" where
  "shortest_digits x =
     (let n = dec_exp x;
          s = (\<lambda>k. round_even (x / 10 powi (n - int k)));
          k = hd (filter (\<lambda>k. fl64 (of_int (s k) * 10 powi (n - int k)) = x) [1..<18] @ [17]);
          ds = digits (nat (s k)) in
      if length ds = k then (ds, n) else (take k ds, n + 1))"

definition positive_string :: "rat \<Rightarrow> js_string" where
  "positive_string x =
     (let (ds, n) = shortest_digits x; k = int (length ds); e = n - 1;
          zeros = (\<lambda>i. replicate (nat i) (48 :: 16 word));
          exponent = [101, if 0 < e then 43 else 45] @ digits (nat \<bar>e\<bar>) in
      if k \<le> n \<and> n \<le> 21 then ds @ zeros (n - k)
      else if 0 < n \<and> n \<le> 21 then take (nat n) ds @ [46] @ drop (nat n) ds
      else if - 6 < n \<and> n \<le> 0 then [48, 46] @ zeros (- n) @ ds
      else if k = 1 then ds @ exponent
      else take 1 ds @ [46] @ drop 1 ds @ exponent)"

fun number_string :: "jsnum \<Rightarrow> js_string" where
  "number_string NaN = jstr ''NaN''"
| "number_string PosInf = jstr ''Infinity''"
| "number_string NegInf = jstr ''-Infinity''"
| "number_string (Fin x) =
     (if x = 0 then [48] else if x < 0 then 45 # positive_string (- x) else positive_string x)"

fun join_comma :: "js_string list \<Rightarrow> js_string" where
  "join_comma [] = []"
| "join_comma [x] = x"
| "join_comma (x # y # xs) = x @ [44] @ join_comma (y # xs)"

primrec json_stringify :: "json \<Rightarrow> js_string" where
  "json_stringify JsNull = jstr ''null''"
| "json_stringify (JsBool b) = (if b then jstr ''true'' else jstr ''false'')"
| "json_stringify (JsNum n) = (case n of Fin x \<Rightarrow> number_string n | _ \<Rightarrow> jstr ''null'')"
| "json_stringify (JsStr s) = quote_json s"
| "json_stringify (JsArr xs) = [91] @ join_comma (map json_stringify xs) @ [93]"
| "json_stringify (JsObj kvs) =
     [123] @ join_comma (map (\<lambda>(k, v). quote_json k @ [58] @ v) (map (map_prod id json_stringify) kvs)) @ [125]"

section \<open>Values\<close>

datatype jsval =
    JUndefined
  | JNull
  | JBool bool
  | JNumber jsnum
  | JBigInt int
  | JString js_string
  | JBuffer bytes
  | JUint8Array bytes
  | JArrayBuffer bytes
  | JObject json

text \<open>\<^verbatim>\<open>readyState\<close> of a WebSocket, in Node.js and in a browser: 0 to 3.\<close>

datatype ready_state = CONNECTING | OPEN | CLOSING | CLOSED

text \<open>Option handling: \<^verbatim>\<open>typeof v === "number" && v > 0 ? v : d\<close>.\<close>

definition positive_or :: "jsval \<Rightarrow> jsnum \<Rightarrow> jsnum" where
  "positive_or v d = (case v of JNumber n \<Rightarrow> if num_less (Fin 0) n then n else d | _ \<Rightarrow> d)"

text \<open>\<^verbatim>\<open>typeof v === "number" ? v : d\<close>\<close>

definition number_or :: "jsval \<Rightarrow> jsnum \<Rightarrow> jsnum" where
  "number_or v d = (case v of JNumber n \<Rightarrow> n | _ \<Rightarrow> d)"

text \<open>\<^verbatim>\<open>typeof v === "string" ? v : d\<close>\<close>

definition string_or :: "jsval \<Rightarrow> js_string \<Rightarrow> js_string" where
  "string_or v d = (case v of JString s \<Rightarrow> s | _ \<Rightarrow> d)"

text \<open>\<^verbatim>\<open>typeof v === "string" && v !== "" ? v : d\<close>\<close>

definition nonempty_string_or :: "jsval \<Rightarrow> js_string \<Rightarrow> js_string" where
  "nonempty_string_or v d = (case v of JString s \<Rightarrow> if s \<noteq> [] then s else d | _ \<Rightarrow> d)"

lemma positive_or_simps [simp]:
  "positive_or (JNumber n) d = (if num_less (Fin 0) n then n else d)"
  "positive_or JUndefined d = d"
  by (simp_all add: positive_or_def)

lemma number_or_simps [simp]: "number_or (JNumber n) d = n" "number_or JUndefined d = d"
  by (simp_all add: number_or_def)

lemma string_or_simps [simp]: "string_or (JString s) d = s" "string_or JUndefined d = d"
  by (simp_all add: string_or_def)

section \<open>Node.js Buffers\<close>

abbreviation out_of_range :: js_error where
  "out_of_range \<equiv> RangeError (jstr ''ERR_OUT_OF_RANGE'')"

definition u16_be :: "nat \<Rightarrow> bytes" where
  "u16_be n = [of_nat (n div 256), of_nat (n mod 256)]"

definition u32_be :: "nat \<Rightarrow> bytes" where
  "u32_be n =
     [of_nat (n div 16777216), of_nat (n div 65536 mod 256), of_nat (n div 256 mod 256), of_nat (n mod 256)]"

text \<open>Store \<open>bs\<close> at \<open>off\<close>; \<^verbatim>\<open>copy\<close> drops what does not fit, a numeric write throws.\<close>

definition buf_copy :: "bytes \<Rightarrow> bytes \<Rightarrow> nat \<Rightarrow> bytes" where
  "buf_copy bs buf off = take off buf @ take (length buf - off) bs @ drop (off + length bs) buf"

definition buf_put :: "bytes \<Rightarrow> bytes \<Rightarrow> nat \<Rightarrow> bytes result" where
  "buf_put bs buf off =
     (if off + length bs \<le> length buf then Inr (buf_copy bs buf off) else Inl out_of_range)"

text \<open>
  \<^verbatim>\<open>writeUInt8(value, offset)\<close> takes any number: out of range throws, not-a-number stores 0, a
  fraction is truncated.
\<close>

definition u8_of_num :: "jsnum \<Rightarrow> byte result" where
  "u8_of_num v =
     (case v of NaN \<Rightarrow> Inr 0
      | Fin x \<Rightarrow> if x < 0 \<or> 255 < x then Inl out_of_range else Inr (of_int \<lfloor>x\<rfloor>)
      | _ \<Rightarrow> Inl out_of_range)"

definition write_u8 :: "jsnum \<Rightarrow> bytes \<Rightarrow> nat \<Rightarrow> bytes result" where
  "write_u8 v buf off = bindE (u8_of_num v) (\<lambda>b. buf_put [b] buf off)"

definition write_u16 :: "nat \<Rightarrow> bytes \<Rightarrow> nat \<Rightarrow> bytes result" where
  "write_u16 n buf off = (if n < 65536 then buf_put (u16_be n) buf off else Inl out_of_range)"

definition write_u32 :: "nat \<Rightarrow> bytes \<Rightarrow> nat \<Rightarrow> bytes result" where
  "write_u32 n buf off = (if n < 4294967296 then buf_put (u32_be n) buf off else Inl out_of_range)"

definition read_u8 :: "bytes \<Rightarrow> nat \<Rightarrow> nat result" where
  "read_u8 buf off = (if off + 1 \<le> length buf then Inr (unat (buf ! off)) else Inl out_of_range)"

definition read_u16 :: "bytes \<Rightarrow> nat \<Rightarrow> nat result" where
  "read_u16 buf off =
     (if off + 2 \<le> length buf then Inr (unat (buf ! off) * 256 + unat (buf ! (off + 1)))
      else Inl out_of_range)"

definition read_u32 :: "bytes \<Rightarrow> nat \<Rightarrow> nat result" where
  "read_u32 buf off =
     (if off + 4 \<le> length buf then
        Inr (unat (buf ! off) * 16777216 + unat (buf ! (off + 1)) * 65536
             + unat (buf ! (off + 2)) * 256 + unat (buf ! (off + 3)))
      else Inl out_of_range)"

text \<open>\<^verbatim>\<open>buf.subarray(start, end)\<close>\<close>

definition subarray :: "bytes \<Rightarrow> nat \<Rightarrow> nat \<Rightarrow> bytes" where
  "subarray buf start finish = take (finish - start) (drop start buf)"

text \<open>\<^verbatim>\<open>buf.toString("utf-8", start, end)\<close>\<close>

definition to_utf8_string :: "bytes \<Rightarrow> nat \<Rightarrow> nat \<Rightarrow> js_string" where
  "to_utf8_string buf start finish = utf8_decode (subarray buf start finish)"

subsection \<open>Filling a fresh buffer from the front\<close>

text \<open>
  \<open>filled pre mem\<close>: the first bytes of the fresh buffer \<open>mem\<close> have been overwritten by
  \<open>pre\<close>. Writing at the end of \<open>pre\<close> extends it.
\<close>

definition filled :: "bytes \<Rightarrow> bytes \<Rightarrow> bytes" where
  "filled pre mem = pre @ drop (length pre) mem"

lemma filled_Nil: "mem = filled [] mem"
  by (simp add: filled_def)

lemma filled_all: "length pre = length mem \<Longrightarrow> filled pre mem = pre"
  by (simp add: filled_def)

lemma length_filled: "length pre \<le> length mem \<Longrightarrow> length (filled pre mem) = length mem"
  by (simp add: filled_def)

lemma buf_copy_filled:
  "off = length pre \<Longrightarrow> length pre + length bs \<le> length mem \<Longrightarrow>
     buf_copy bs (filled pre mem) off = filled (pre @ bs) mem"
  by (simp add: buf_copy_def filled_def add.commute)

lemma buf_put_filled:
  "off = length pre \<Longrightarrow> length pre + length bs \<le> length mem \<Longrightarrow>
     buf_put bs (filled pre mem) off = Inr (filled (pre @ bs) mem)"
  by (simp add: buf_put_def buf_copy_filled length_filled)

lemma length_u16_be [simp]: "length (u16_be n) = 2"
  by (simp add: u16_be_def)

lemma length_u32_be [simp]: "length (u32_be n) = 4"
  by (simp add: u32_be_def)

subsection \<open>Reading what was written, and back\<close>

lemma base256: "n < 65536 \<Longrightarrow> (n :: nat) div 256 < 256"
  by simp

lemma read_u8_at:
  "off = length pre \<Longrightarrow> read_u8 (pre @ b # rest) off = Inr (unat b)"
  by (simp add: read_u8_def)

lemma read_u16_at:
  "off = length pre \<Longrightarrow> n < 65536 \<Longrightarrow> read_u16 (pre @ u16_be n @ rest) off = Inr n"
  by (simp add: read_u16_def u16_be_def nth_append mult.commute [of _ 256])

lemma u32_digits:
  "(n :: nat) div 16777216 * 16777216 + n div 65536 mod 256 * 65536 + n div 256 mod 256 * 256 + n mod 256 = n"
proof -
  have "n = n div 256 * 256 + n mod 256" "n div 256 = n div 65536 * 256 + n div 256 mod 256"
    "n div 65536 = n div 16777216 * 256 + n div 65536 mod 256"
    using div_mult_mod_eq [of n 256] div_mult_mod_eq [of "n div 256" 256]
      div_mult_mod_eq [of "n div 65536" 256]
    by (simp_all flip: div_mult2_eq)
  then show ?thesis by linarith
qed

lemma read_u32_at:
  "off = length pre \<Longrightarrow> n < 4294967296 \<Longrightarrow> read_u32 (pre @ u32_be n @ rest) off = Inr n"
  using u32_digits [of n] by (simp add: read_u32_def u32_be_def nth_append)

lemma bytes_bound:
  "a < 256 \<Longrightarrow> b < 256 \<Longrightarrow> a * 256 + b < (65536 :: nat)"
  "a < 256 \<Longrightarrow> b < 256 \<Longrightarrow> c < 256 \<Longrightarrow> d < 256 \<Longrightarrow>
     a * 16777216 + b * 65536 + c * 256 + d < (4294967296 :: nat)"
  by linarith+

lemma read_u16_bound: "read_u16 buf off = Inr n \<Longrightarrow> n < 65536"
  by (auto simp: read_u16_def intro: bytes_bound split: if_splits)

lemma read_u8_bound: "read_u8 buf off = Inr n \<Longrightarrow> n < 256"
  by (auto simp: read_u8_def split: if_splits)

lemma read_u32_bound: "read_u32 buf off = Inr n \<Longrightarrow> n < 4294967296"
  by (auto simp: read_u32_def intro: bytes_bound split: if_splits)

lemma drop_eq_Cons: "off < length buf \<Longrightarrow> drop off buf = buf ! off # drop (Suc off) buf"
  by (simp add: Cons_nth_drop_Suc)

text \<open>The remaining input splits at a field that was read.\<close>

lemma drop_u8: "read_u8 buf off = Inr n \<Longrightarrow> drop off buf = [of_nat n] @ drop (off + 1) buf"
  by (auto simp: read_u8_def drop_eq_Cons split: if_splits)

lemma drop_u16: "read_u16 buf off = Inr n \<Longrightarrow> drop off buf = u16_be n @ drop (off + 2) buf"
  by (auto simp: read_u16_def u16_be_def drop_eq_Cons split: if_splits)

lemma byte_digits_32:
  assumes "a < 256" "b < 256" "c < 256" "d < (256 :: nat)" and n: "n = a * 16777216 + b * 65536 + c * 256 + d"
  shows "n div 16777216 = a" "n div 65536 mod 256 = b" "n div 256 mod 256 = c" "n mod 256 = d"
proof -
  have split: "(y + 256 * x) mod 256 = y" "(y + 256 * x) div 256 = x" if "y < 256" for x y :: nat
    using that by simp_all
  have "n = d + 256 * (a * 65536 + b * 256 + c)" using n by simp
  then have 1: "n mod 256 = d" "n div 256 = a * 65536 + b * 256 + c"
    by (simp_all only: split [OF assms(4)])
  have "a * 65536 + b * 256 + c = c + 256 * (a * 256 + b)" by simp
  then have 2: "(a * 65536 + b * 256 + c) mod 256 = c" "(a * 65536 + b * 256 + c) div 256 = a * 256 + b"
    by (simp_all only: split [OF assms(3)])
  have "a * 256 + b = b + 256 * a" by simp
  then have 3: "(a * 256 + b) mod 256 = b" "(a * 256 + b) div 256 = a"
    by (simp_all only: split [OF assms(2)])
  have d1: "n div 65536 = n div 256 div 256" and d2: "n div 16777216 = n div 256 div 256 div 256"
    by (simp_all flip: div_mult2_eq)
  show "n div 16777216 = a" "n div 65536 mod 256 = b" "n div 256 mod 256 = c" "n mod 256 = d"
    unfolding d1 d2 by (simp_all only: 1 2 3)
qed

lemma drop_u32: "read_u32 buf off = Inr n \<Longrightarrow> drop off buf = u32_be n @ drop (off + 4) buf"
proof -
  assume r: "read_u32 buf off = Inr n"
  then have len: "off + 4 \<le> length buf" by (simp add: read_u32_def split: if_splits)
  let ?b = "\<lambda>i. buf ! (off + i)"
  have n: "n = unat (?b 0) * 16777216 + unat (?b 1) * 65536 + unat (?b 2) * 256 + unat (?b 3)"
    using r len by (simp add: read_u32_def)
  have "drop off buf = [?b 0, ?b 1, ?b 2, ?b 3] @ drop (off + 4) buf"
    using len by (simp add: drop_eq_Cons eval_nat_numeral)
  moreover have "u32_be n = [?b 0, ?b 1, ?b 2, ?b 3]"
    using byte_digits_32 [OF unat_lt_u8 unat_lt_u8 unat_lt_u8 unat_lt_u8 n]
    by (simp add: u32_be_def)
  ultimately show ?thesis by simp
qed

lemma drop_subarray:
  "off + n \<le> length buf \<Longrightarrow> drop off buf = subarray buf off (off + n) @ drop (off + n) buf"
  by (simp add: subarray_def add.commute flip: drop_drop)

lemma length_subarray: "off + n \<le> length buf \<Longrightarrow> length (subarray buf off (off + n)) = n"
  by (simp add: subarray_def)

lemma subarray_at:
  "off = length pre \<Longrightarrow> n = length bs \<Longrightarrow> subarray (pre @ bs @ rest) off (off + n) = bs"
  by (simp add: subarray_def)

end
