(* ===== verification/Json_Parse.thy ===== *)
theory Json_Parse
  imports JS_Value
begin

text \<open>
  \<^verbatim>\<open>JSON.parse\<close>: the grammar of the language standard on UTF-16 code units. Strings may hold any
  unit but a control character, a quote or an unescaped backslash; of two properties with one
  name the last one counts; a number is the double nearest to its decimal.
\<close>

section \<open>Tokens\<close>

definition is_ws :: "16 word \<Rightarrow> bool" where
  "is_ws u \<longleftrightarrow> u = 32 \<or> u = 9 \<or> u = 10 \<or> u = 13"

definition skip_ws :: "js_string \<Rightarrow> js_string" where
  "skip_ws = dropWhile is_ws"

fun next_is :: "16 word \<Rightarrow> js_string \<Rightarrow> js_string option" where
  "next_is c [] = None"
| "next_is c (u # us) = (if u = c then Some us else None)"

definition expect :: "16 word \<Rightarrow> js_string \<Rightarrow> js_string option" where
  "expect c s = next_is c (skip_ws s)"

definition literal :: "js_string \<Rightarrow> 'a \<Rightarrow> js_string \<Rightarrow> ('a \<times> js_string) option" where
  "literal name v s = (if take (length name) s = name then Some (v, drop (length name) s) else None)"

section \<open>Strings\<close>

definition hex_value :: "16 word \<Rightarrow> nat option" where
  "hex_value u =
     (let n = unat u in
      if 48 \<le> n \<and> n \<le> 57 then Some (n - 48)
      else if 97 \<le> n \<and> n \<le> 102 then Some (n - 87)
      else if 65 \<le> n \<and> n \<le> 70 then Some (n - 55) else None)"

definition hex_unit :: "16 word \<Rightarrow> 16 word \<Rightarrow> 16 word \<Rightarrow> 16 word \<Rightarrow> 16 word option" where
  "hex_unit a b c d =
     (case (hex_value a, hex_value b, hex_value c, hex_value d) of
        (Some i, Some j, Some k, Some l) \<Rightarrow> Some (of_nat (4096 * i + 256 * j + 16 * k + l))
      | _ \<Rightarrow> None)"

definition simple_escape :: "16 word \<Rightarrow> 16 word option" where
  "simple_escape u =
     (if u = 34 \<or> u = 92 \<or> u = 47 then Some u
      else if u = 98 then Some 8 else if u = 102 then Some 12 else if u = 110 then Some 10
      else if u = 114 then Some 13 else if u = 116 then Some 9 else None)"

definition escape_at :: "js_string \<Rightarrow> (16 word \<times> js_string) option" where
  "escape_at s =
     (case s of
        [] \<Rightarrow> None
      | u # us \<Rightarrow>
          if u = 117
          then (case us of
                  a # b # c # d # rest \<Rightarrow> map_option (\<lambda>v. (v, rest)) (hex_unit a b c d)
                | _ \<Rightarrow> None)
          else map_option (\<lambda>v. (v, us)) (simple_escape u))"

lemma escape_at_shorter: "escape_at s = Some (v, rest) \<Longrightarrow> length rest < length s"
  by (auto simp: escape_at_def split: list.splits if_splits)

text \<open>What follows the opening quote; the units up to the closing one, and the rest.\<close>

function string_rest :: "js_string \<Rightarrow> (js_string \<times> js_string) option" where
  "string_rest [] = None"
| "string_rest (u # us) =
     (if u = 34 then Some ([], us)
      else if u = 92
      then (case escape_at us of
              None \<Rightarrow> None
            | Some (v, rest) \<Rightarrow> map_option (apfst (Cons v)) (string_rest rest))
      else if unat u < 32 then None
      else map_option (apfst (Cons u)) (string_rest us))"
  by pat_completeness auto

termination
  by (relation "measure length") (auto dest: escape_at_shorter)

section \<open>Numbers\<close>

definition digits_of :: "js_string \<Rightarrow> js_string \<times> js_string" where
  "digits_of s = (takeWhile is_digit s, dropWhile is_digit s)"

text \<open>A fraction or an exponent, when there is one; \<open>None\<close> when it has no digits.\<close>

definition fraction_at :: "js_string \<Rightarrow> (js_string \<times> js_string) option" where
  "fraction_at s =
     (case next_is 46 s of
        None \<Rightarrow> Some ([], s)
      | Some r \<Rightarrow> (let (ds, r') = digits_of r in if ds = [] then None else Some (ds, r')))"

definition sign_at :: "js_string \<Rightarrow> int \<times> js_string" where
  "sign_at s =
     (case next_is 45 s of
        Some r \<Rightarrow> (- 1, r)
      | None \<Rightarrow> (case next_is 43 s of Some r \<Rightarrow> (1, r) | None \<Rightarrow> (1, s)))"

definition exponent_at :: "js_string \<Rightarrow> (int \<times> js_string) option" where
  "exponent_at s =
     (case (case next_is 101 s of None \<Rightarrow> next_is 69 s | r \<Rightarrow> r) of
        None \<Rightarrow> Some (0, s)
      | Some r \<Rightarrow>
          (let (sg, r1) = sign_at r; (ds, r2) = digits_of r1 in
           if ds = [] then None else Some (sg * int (decimal_value ds), r2)))"

definition decimal_num :: "rat \<Rightarrow> js_string \<Rightarrow> js_string \<Rightarrow> int \<Rightarrow> jsnum" where
  "decimal_num sg whole part e =
     round_num (sg * of_nat (decimal_value (whole @ part)) * 10 powi (e - int (length part)))"

definition unsigned_at :: "rat \<Rightarrow> js_string \<Rightarrow> (jsnum \<times> js_string) option" where
  "unsigned_at sg s =
     (let (whole, r) = digits_of s in
      if whole = [] \<or> (hd whole = 48 \<and> tl whole \<noteq> []) then None
      else case fraction_at r of
        None \<Rightarrow> None
      | Some (part, r1) \<Rightarrow>
          (case exponent_at r1 of
             None \<Rightarrow> None
           | Some (e, r2) \<Rightarrow> Some (decimal_num sg whole part e, r2)))"

definition number_at :: "js_string \<Rightarrow> (jsnum \<times> js_string) option" where
  "number_at s = (case next_is 45 s of Some r \<Rightarrow> unsigned_at (- 1) r | None \<Rightarrow> unsigned_at 1 s)"

section \<open>Values\<close>

definition own_property :: "json dict \<Rightarrow> js_string \<Rightarrow> json" where
  "own_property d k = (case prop_get d k of Some v \<Rightarrow> v | None \<Rightarrow> JsNull)"

definition make_object :: "(js_string \<times> json) list \<Rightarrow> json" where
  "make_object kvs =
     (let d = foldl (\<lambda>d (k, v). prop_set d k v) [] kvs in
      JsObj (map (\<lambda>k. (k, own_property d k)) (obj_keys d)))"

text \<open>
  A value, the elements of an array after its bracket, the members of an object after its
  brace. The first argument bounds the recursion; twice the length of the text is enough.
\<close>

fun value_at :: "nat \<Rightarrow> js_string \<Rightarrow> (json \<times> js_string) option"
and elements_at :: "nat \<Rightarrow> js_string \<Rightarrow> (json list \<times> js_string) option"
and members_at :: "nat \<Rightarrow> js_string \<Rightarrow> ((js_string \<times> json) list \<times> js_string) option"
where
  "value_at 0 s = None"
| "value_at (Suc n) s =
     (let t = skip_ws s in
      case next_is 34 t of
        Some r \<Rightarrow> map_option (apfst JsStr) (string_rest r)
      | None \<Rightarrow> (case next_is 91 t of
        Some r \<Rightarrow>
          (case expect 93 r of
             Some r' \<Rightarrow> Some (JsArr [], r')
           | None \<Rightarrow> map_option (apfst JsArr) (elements_at n r))
      | None \<Rightarrow> (case next_is 123 t of
        Some r \<Rightarrow>
          (case expect 125 r of
             Some r' \<Rightarrow> Some (JsObj [], r')
           | None \<Rightarrow> map_option (apfst make_object) (members_at n r))
      | None \<Rightarrow> (case literal (jstr ''null'') JsNull t of
        Some x \<Rightarrow> Some x
      | None \<Rightarrow> (case literal (jstr ''true'') (JsBool True) t of
        Some x \<Rightarrow> Some x
      | None \<Rightarrow> (case literal (jstr ''false'') (JsBool False) t of
        Some x \<Rightarrow> Some x
      | None \<Rightarrow> map_option (apfst JsNum) (number_at t)))))))"
| "elements_at 0 s = None"
| "elements_at (Suc n) s =
     (case value_at n s of
        None \<Rightarrow> None
      | Some (v, r) \<Rightarrow>
          (case expect 44 r of
             Some r' \<Rightarrow> map_option (apfst (Cons v)) (elements_at n r')
           | None \<Rightarrow> map_option (Pair [v]) (expect 93 r)))"
| "members_at 0 s = None"
| "members_at (Suc n) s =
     (case Option.bind (expect 34 s) string_rest of
        None \<Rightarrow> None
      | Some (k, r) \<Rightarrow>
          (case Option.bind (expect 58 r) (value_at n) of
             None \<Rightarrow> None
           | Some (v, r1) \<Rightarrow>
               (case expect 44 r1 of
                  Some r2 \<Rightarrow> map_option (apfst (Cons (k, v))) (members_at n r2)
                | None \<Rightarrow> map_option (Pair [(k, v)]) (expect 125 r1))))"

definition parse_json :: "js_string \<Rightarrow> json option" where
  "parse_json s =
     (case value_at (2 * length s + 1) s of
        Some (v, r) \<Rightarrow> if skip_ws r = [] then Some v else None
      | None \<Rightarrow> None)"

lemma parse_json_Nil [simp]: "parse_json [] = None"
  by (simp add: parse_json_def skip_ws_def literal_def jstr_def number_at_def unsigned_at_def digits_of_def)

end
