(* ===== verification/Decimal.thy ===== *)
theory Decimal
  imports JS_Value
begin

text \<open>
  Numbers in decimal: the text that \<^verbatim>\<open>String\<close> and \<^verbatim>\<open>JSON.stringify\<close> print for a number rounds back
  to that number.
\<close>

section \<open>A decimal near a double rounds to it\<close>

lemma round_even_unique: "\<bar>y - of_int m\<bar> < 1 / 2 \<Longrightarrow> round_even y = m"
proof -
  assume a: "\<bar>y - of_int m\<bar> < 1 / 2"
  have "\<bar>of_int (round_even y) - y\<bar> \<le> 1 / 2" by (rule round_even_near)
  with a have "\<bar>(of_int (round_even y) :: rat) - of_int m\<bar> < 1" by linarith
  then show ?thesis by linarith
qed

lemma fl64_scaled: "0 < y \<Longrightarrow> \<bar>y / 2 powi ulp_exp y - of_int m\<bar> < 1 / 2 \<Longrightarrow> fl64 y = of_int m * 2 powi ulp_exp y"
  by (simp add: fl64_def round_even_unique)

lemma exponent_of_unique: "2 powi e \<le> x \<Longrightarrow> x < 2 powi (e + 1) \<Longrightarrow> exponent_of x = e"
proof -
  assume a: "2 powi e \<le> x" "x < 2 powi (e + 1)"
  then have "0 < x" by (metis less_le_trans zero_less_numeral zero_less_power_int)
  then show ?thesis
    using exponent_of_bounds [of x] a pow2_less_iff [of "exponent_of x" "e + 1"] pow2_less_iff [of e "exponent_of x + 1"]
    by linarith
qed

lemma double_multiple_of: "fl64 x = x \<Longrightarrow> \<exists>m :: int. x = of_int m * 2 powi ulp_exp x"
  by (cases "x = 0") (auto simp: fl64_def intro: exI [of _ 0] dest: sym)

definition near :: "rat \<Rightarrow> rat \<Rightarrow> bool" where
  "near y x \<longleftrightarrow> \<bar>y - x\<bar> \<le> x / 20000000000000000"

lemma near_normal:
  assumes "0 < x" "near y x" "ulp_exp x = exponent_of x - 52"
  shows "\<bar>y - x\<bar> < 2 powi ulp_exp x / 2"
proof -
  have "x < 2 powi (exponent_of x + 1)" by (rule exponent_of_bounds(2) [OF assms(1)])
  also have "\<dots> = 2 ^ 53 * 2 powi ulp_exp x" unfolding assms(3) by (simp add: power_int_add power_int_diff)
  finally have "x < 9007199254740992 * 2 powi ulp_exp x" by simp
  moreover have "0 < (2 powi ulp_exp x :: rat)" by simp
  ultimately have "x / 20000000000000000 < 2 powi ulp_exp x / 2" by linarith
  with assms(2) show ?thesis unfolding near_def by linarith
qed

lemma near_same: "0 < y \<Longrightarrow> fl64 x = x \<Longrightarrow> ulp_exp y = ulp_exp x \<Longrightarrow> \<bar>y - x\<bar> < 2 powi ulp_exp x / 2 \<Longrightarrow> fl64 y = x"
proof -
  assume a: "0 < y" "fl64 x = x" "ulp_exp y = ulp_exp x" "\<bar>y - x\<bar> < 2 powi ulp_exp x / 2"
  obtain m :: int where m: "x = of_int m * 2 powi ulp_exp x" using double_multiple_of [OF a(2)] by blast
  let ?u = "2 powi ulp_exp x :: rat"
  have u: "0 < ?u" by simp
  have "y / ?u - of_int m = (y - x) / ?u" using m u by (simp add: field_simps)
  also have "\<bar>\<dots>\<bar> < 1 / 2" using a(4) u by (simp add: field_simps)
  finally show ?thesis using fl64_scaled [OF a(1), of m] a(3) m by simp
qed

lemma ulp_exp_pos: "0 < x \<Longrightarrow> ulp_exp x = max (exponent_of x - 52) (- 1074)"
  by (simp add: ulp_exp_def)

lemma near_pos: "0 < x \<Longrightarrow> near y x \<Longrightarrow> 0 < y \<and> x / 2 < y \<and> y < 2 * x"
  unfolding near_def by linarith

text \<open>Just below a power of two the doubles are twice as dense.\<close>

lemma near_below:
  assumes x: "0 < x" "fl64 x = x" "near y x" and e: "exponent_of y < exponent_of x" "ulp_exp x = exponent_of x - 52"
    and sub: "- 1074 < ulp_exp x"
  shows "fl64 y = x"
proof -
  let ?e = "exponent_of x" and ?u = "2 powi ulp_exp x :: rat"
  have y: "0 < y" using near_pos [OF x(1,3)] by simp
  have u: "0 < ?u" by simp
  obtain m :: int where m: "x = of_int m * ?u" using double_multiple_of [OF x(2)] by blast
  have p: "2 powi ?e = 2 ^ 52 * ?u" unfolding e(2) by (simp add: power_int_diff)
  have close: "\<bar>y - x\<bar> < ?u / 2" by (rule near_normal [OF x(1,3) e(2)])
  have "y < 2 powi (exponent_of y + 1)" by (rule exponent_of_bounds(2) [OF y])
  also have "\<dots> \<le> 2 powi ?e" using e(1) by (intro power_int_increasing) simp_all
  finally have below: "y < 2 powi ?e" .
  have low: "2 powi ?e \<le> x" by (rule exponent_of_bounds(1) [OF x(1)])
  have "of_int m * ?u < (2 ^ 52 + 1) * ?u" using close below m p u by (simp add: abs_if distrib_right split: if_splits)
  moreover have "2 ^ 52 * ?u \<le> of_int m * ?u" using low m p by simp
  ultimately have "(of_int m :: rat) < 2 ^ 52 + 1" "(2 ^ 52 :: rat) \<le> of_int m"
    using u by (simp_all only: mult_less_cancel_right_pos mult_le_cancel_right_pos)
  then have "of_int m < (of_int (2 ^ 52 + 1) :: rat)" "(of_int (2 ^ 52) :: rat) \<le> of_int m" by simp_all
  then have "m = 2 ^ 52" by (simp only: of_int_less_iff of_int_le_iff)
  then have x_eq: "x = 2 powi ?e" using p by (subst m) simp
  have "2 powi (?e - 1) \<le> y"
    using near_pos [OF x(1,3)] low by (simp add: power_int_diff)
  then have "exponent_of y = ?e - 1" by (rule exponent_of_unique) (use below in simp)
  then have uy: "ulp_exp y = ulp_exp x - 1" using sub y x(1) e(2) by (simp add: ulp_exp_pos)
  have half: "2 powi ulp_exp y = ?u / 2" unfolding uy by (simp add: power_int_diff)
  have xu: "x = 2 ^ 52 * ?u" by (rule trans [OF x_eq p])
  have "\<bar>y - x\<bar> \<le> 2 ^ 52 * ?u / 20000000000000000"
    by (rule ord_le_eq_trans [OF x(3) [unfolded near_def]]) (rule arg_cong [OF xu])
  then have "\<bar>y - x\<bar> \<le> 4503599627370496 * ?u / 20000000000000000" by simp
  then have "\<bar>y - x\<bar> < ?u / 4" using u by linarith
  then have "\<bar>y - x\<bar> / \<bar>?u / 2\<bar> < 1 / 2" using u by (simp add: pos_divide_less_eq)
  then have "\<bar>(y - x) / (?u / 2)\<bar> < 1 / 2" by (simp only: abs_divide)
  moreover have "y / (?u / 2) - of_int (2 ^ 53) = (y - x) / (?u / 2)"
  proof -
    have "(x / (?u / 2) :: rat) = of_int (2 ^ 53)" using u by (subst xu) simp
    then show ?thesis by (simp add: diff_divide_distrib)
  qed
  ultimately have scaled: "\<bar>y / 2 powi ulp_exp y - of_int (2 ^ 53)\<bar> < 1 / 2" by (simp only: half)
  have "fl64 y = of_int (2 ^ 53) * (?u / 2)" by (rule fl64_scaled [OF y scaled, unfolded half])
  also have "\<dots> = 2 ^ 52 * ?u" by simp
  also have "\<dots> = x" by (rule xu [symmetric])
  finally show ?thesis .
qed

lemma near_above:
  assumes x: "0 < x" "fl64 x = x" "near y x"
  shows "exponent_of y \<le> exponent_of x \<or> ulp_exp y = ulp_exp x"
proof (rule ccontr)
  assume "\<not> ?thesis"
  then have e: "exponent_of x < exponent_of y" and d: "ulp_exp y \<noteq> ulp_exp x" by auto
  let ?e = "exponent_of x" and ?u = "2 powi ulp_exp x :: rat"
  have y: "0 < y" using near_pos [OF x(1,3)] by simp
  have "2 powi (?e + 1) \<le> (2 powi exponent_of y :: rat)" using e by (intro power_int_increasing) simp_all
  then have up: "2 powi (?e + 1) \<le> y" using exponent_of_bounds(1) [OF y] by simp
  have hi: "x < 2 powi (?e + 1)" by (rule exponent_of_bounds(2) [OF x(1)])
  show False
  proof (cases "ulp_exp x = ?e - 52")
    case True
    obtain m :: int where m: "x = of_int m * ?u" using double_multiple_of [OF x(2)] by blast
    have p: "2 powi (?e + 1) = 2 ^ 53 * ?u" unfolding True by (simp add: power_int_diff power_int_add)
    have u: "0 < ?u" by simp
    have "of_int m * ?u < 2 ^ 53 * ?u" using hi m p by simp
    then have "(of_int m :: rat) < 2 ^ 53" using u by (simp only: mult_less_cancel_right_pos)
    then have "of_int m < (of_int (2 ^ 53) :: rat)" by simp
    then have "m \<le> 2 ^ 53 - 1" by (simp only: of_int_less_iff)
    then have "of_int m \<le> (of_int (2 ^ 53 - 1) :: rat)" by (simp only: of_int_le_iff)
    then have "(of_int m :: rat) \<le> 2 ^ 53 - 1" by simp
    then have "of_int m * ?u \<le> (2 ^ 53 - 1) * ?u" using u by (intro mult_right_mono) simp_all
    then have "x \<le> (2 ^ 53 - 1) * ?u" by (rule ord_eq_le_trans [OF m])
    then have "?u \<le> y - x" using up p by (simp add: left_diff_distrib)
    with near_normal [OF x(1,3) True] u show False by linarith
  next
    case False
    then have "?e - 52 < - 1074" "ulp_exp x = - 1074" using x(1) by (auto simp: ulp_exp_pos)
    with d y have "- 1022 < exponent_of y" by (simp add: ulp_exp_pos)
    then have "2 powi (?e + 2) \<le> (2 powi exponent_of y :: rat)" using \<open>?e - 52 < - 1074\<close> by (intro power_int_increasing) simp_all
    then have "2 * 2 powi (?e + 1) \<le> y" using exponent_of_bounds(1) [OF y] by (simp add: power_int_add)
    with hi near_pos [OF x(1,3)] show False by linarith
  qed
qed

lemma near_rounds:
  assumes x: "0 < x" "fl64 x = x" "near y x"
  shows "fl64 y = x"
proof (cases "ulp_exp y = ulp_exp x")
  case True
  have y: "0 < y" using near_pos [OF x(1,3)] by simp
  show ?thesis
  proof (cases "ulp_exp x = exponent_of x - 52")
    case False
    then have "ulp_exp x = - 1074" "exponent_of x + 1 \<le> - 1022" using x(1) by (auto simp: ulp_exp_pos)
    then have "x < 2 powi (- 1022)"
      using exponent_of_bounds(2) [OF x(1)] power_int_increasing [of "exponent_of x + 1" "- 1022" "2 :: rat"] by linarith
    also have "2 powi (- 1022) = (2 powi (52 + - 1074) :: rat)" by simp
    also have "\<dots> = 2 ^ 52 * 2 powi ulp_exp x" unfolding \<open>ulp_exp x = - 1074\<close> by (subst power_int_add) simp_all
    finally have "x < 4503599627370496 * 2 powi ulp_exp x" by simp
    moreover have "0 < (2 powi ulp_exp x :: rat)" by simp
    ultimately have "x / 20000000000000000 < 2 powi ulp_exp x / 2" by linarith
    then have "\<bar>y - x\<bar> < 2 powi ulp_exp x / 2" using x(3) unfolding near_def by linarith
    then show ?thesis by (rule near_same [OF y x(2) True])
  qed (rule near_same [OF y x(2) True near_normal [OF x(1,3)]])
next
  case False
  then have e: "exponent_of y < exponent_of x"
    using near_above [OF x] near_pos [OF x(1,3)] x(1) by (metis order.not_eq_order_implies_strict ulp_exp_pos)
  then have "ulp_exp x = exponent_of x - 52" "- 1074 < ulp_exp x"
    using False x(1) near_pos [OF x(1,3)] by (auto simp: ulp_exp_pos)
  with near_below [OF x e] show ?thesis by simp
qed

section \<open>Digits\<close>

lemma digit_unit: "m < 10 \<Longrightarrow> unat (of_nat (48 + m) :: 16 word) = 48 + m"
  by (rule unat_of_nat_u16) simp

lemma is_digit_of: "m < 10 \<Longrightarrow> is_digit (of_nat (48 + m))"
  unfolding is_digit_def by (subst (1 2) digit_unit) simp_all

lemma digits_less: "n < 10 \<Longrightarrow> digits n = [of_nat (48 + n)]"
  by (subst digits.simps) simp

lemma digits_step: "\<not> n < 10 \<Longrightarrow> digits n = digits (n div 10) @ [of_nat (48 + n mod 10)]"
  by (subst digits.simps) simp

lemma decimal_foldl:
  "foldl (\<lambda>n u. 10 * n + (unat (u :: 16 word) - 48)) a t = a * 10 ^ length t + decimal_value t"
proof (induction t arbitrary: a)
  case (Cons u t)
  have "decimal_value (u # t) = (unat u - 48) * 10 ^ length t + decimal_value t"
    using Cons.IH [of "10 * 0 + (unat u - 48)"] by (simp add: decimal_value_def)
  then show ?case
    using Cons.IH [of "10 * a + (unat u - 48)"] by (simp add: algebra_simps)
qed (simp add: decimal_value_def)

lemma decimal_value_append: "decimal_value (s @ t) = decimal_value s * 10 ^ length t + decimal_value t"
  using decimal_foldl [of "decimal_value s" t] by (simp add: decimal_value_def)

lemma decimal_value_simps [simp]: "decimal_value [] = 0" "decimal_value [u] = unat u - 48"
  by (simp_all add: decimal_value_def)

lemma decimal_value_zeros [simp]: "decimal_value (replicate k 48) = 0"
proof (induction k)
  case (Suc k)
  have "decimal_value ([48] @ replicate k 48) = 0" unfolding decimal_value_append Suc by simp
  then show ?case by simp
qed simp

lemma decimal_digits [simp]: "decimal_value (digits n) = n"
proof (induction n rule: digits.induct)
  case (1 n)
  show ?case
  proof (cases "n < 10")
    case True
    then show ?thesis using digit_unit [of n] by (simp add: digits_less)
  next
    case False
    have "unat (of_nat (48 + n mod 10) :: 16 word) = 48 + n mod 10" by (rule digit_unit) simp
    then show ?thesis using 1 False
      by (simp only: digits_step [OF False] decimal_value_append decimal_value_simps) simp
  qed
qed

lemma digits_all: "list_all is_digit (digits n)"
proof (induction n rule: digits.induct)
  case (1 n)
  show ?case
  proof (cases "n < 10")
    case True
    then show ?thesis using is_digit_of [of n] by (simp add: digits_less)
  next
    case False
    then show ?thesis using 1 False is_digit_of [of "n mod 10"] by (simp add: digits_step)
  qed
qed

lemma digits_nonempty [simp]: "digits n \<noteq> []"
  by (subst digits.simps) simp

lemma hd_digits: "0 < n \<Longrightarrow> hd (digits n) \<noteq> 48"
proof (induction n rule: digits.induct)
  case (1 n)
  show ?case
  proof (cases "n < 10")
    case True
    have "unat (of_nat (48 + n) :: 16 word) \<noteq> unat (48 :: 16 word)" using digit_unit [OF True] 1(2) by simp
    then show ?thesis using True by (metis digits_less list.sel(1))
  next
    case False
    then show ?thesis using 1 by (simp add: digits_step)
  qed
qed

lemma length_digits: "0 < n \<Longrightarrow> 10 ^ (length (digits n) - 1) \<le> n \<and> n < 10 ^ length (digits n)"
proof (induction n rule: digits.induct)
  case (1 n)
  show ?case
  proof (cases "n < 10")
    case False
    define k where "k = length (digits (n div 10))"
    have k: "k \<noteq> 0" by (simp add: k_def)
    from 1 False have "10 ^ (k - 1) \<le> n div 10" "n div 10 < 10 ^ k" by (simp_all add: k_def)
    then have "10 * 10 ^ (k - 1) \<le> n" "n < 10 * 10 ^ k" by linarith+
    moreover have "10 * 10 ^ (k - 1) = (10 :: nat) ^ k" using k by (cases k) simp_all
    ultimately show ?thesis using False by (simp add: digits_step k_def)
  qed (use 1 in \<open>simp add: digits_less\<close>)
qed

lemma power10_less: "(10 :: nat) ^ a \<le> n \<Longrightarrow> n < 10 ^ b \<Longrightarrow> a < b"
  by (metis le_less_trans nat_power_less_imp_less zero_less_numeral)

lemma length_digits_eq: "10 ^ (k - 1) \<le> n \<Longrightarrow> n < 10 ^ k \<Longrightarrow> 0 < k \<Longrightarrow> length (digits n) = k"
proof -
  assume a: "10 ^ (k - 1) \<le> n" "n < 10 ^ k" "0 < k"
  then have "0 < n" by (metis not_gr_zero not_less zero_less_numeral zero_less_power)
  then have "10 ^ (length (digits n) - 1) \<le> n" "n < 10 ^ length (digits n)" using length_digits by simp_all
  then have "length (digits n) - 1 < k" "k - 1 < length (digits n)" using a power10_less by blast+
  then show ?thesis using a(3) by simp
qed

section \<open>The decimal exponent\<close>

lemma powi10_nat: "0 < k \<Longrightarrow> (10 :: rat) powi (int k - 1) = of_nat (10 ^ (k - 1))"
  by (cases k) (simp_all add: power_int_def)

lemma dec_exp_bounds:
  assumes "0 < x"
  shows "10 powi (dec_exp x - 1) \<le> x" "x < 10 powi dec_exp x"
proof -
  have *: "10 powi (dec_exp x - 1) \<le> x \<and> x < 10 powi dec_exp x"
  proof (cases "1 \<le> x")
    case True
    define m k where "m = nat \<lfloor>x\<rfloor>" and "k = length (digits m)"
    have m: "0 < m" "of_nat m \<le> x" "x < of_nat m + 1" using True by (simp_all add: m_def) linarith+
    have k: "0 < k" by (simp add: k_def)
    have d: "dec_exp x = int k" using True by (simp add: dec_exp_def k_def m_def)
    have b: "10 ^ (k - 1) \<le> m" "m + 1 \<le> 10 ^ k" using length_digits [OF m(1)] by (simp_all add: k_def)
    have "(of_nat (10 ^ (k - 1)) :: rat) \<le> of_nat m" "(of_nat (m + 1) :: rat) \<le> of_nat (10 ^ k)"
      using b by (simp_all only: of_nat_le_iff)
    moreover have "(10 :: rat) powi int k = of_nat (10 ^ k)" by simp
    ultimately show ?thesis using m unfolding d powi10_nat [OF k] by linarith
  next
    case False
    define m k where "m = nat (\<lceil>1 / x\<rceil> - 1)" and "k = length (digits m)"
    have y: "1 < 1 / x" using False assms by simp
    then have m: "0 < m" "of_nat m < 1 / x" "1 / x \<le> of_nat m + 1" by (simp_all add: m_def) linarith+
    have k: "0 < k" by (simp add: k_def)
    have d: "dec_exp x = 1 - int k" using False by (simp add: dec_exp_def k_def m_def)
    have b: "10 ^ (k - 1) \<le> m" "m + 1 \<le> 10 ^ k" using length_digits [OF m(1)] by (simp_all add: k_def)
    have "(of_nat (10 ^ (k - 1)) :: rat) \<le> of_nat m" "(of_nat (m + 1) :: rat) \<le> of_nat (10 ^ k)"
      using b by (simp_all only: of_nat_le_iff)
    moreover have "(10 :: rat) powi int k = of_nat (10 ^ k)" by simp
    ultimately have lo: "10 powi (int k - 1) < 1 / x" and hi: "1 / x \<le> 10 powi int k"
      using m unfolding powi10_nat [OF k] by linarith+
    have "x = 1 / (1 / x)" by simp
    also have "\<dots> < 1 / 10 powi (int k - 1)" using lo assms by (intro divide_strict_left_mono) simp_all
    also have "\<dots> = 10 powi dec_exp x" unfolding d by (simp add: power_int_diff)
    finally have 1: "x < 10 powi dec_exp x" .
    have "10 powi (dec_exp x - 1) = 1 / (10 :: rat) powi int k" unfolding d by (simp add: power_int_minus divide_inverse)
    also have "\<dots> \<le> 1 / (1 / x)" using hi assms by (intro divide_left_mono) simp_all
    finally have "10 powi (dec_exp x - 1) \<le> x" by simp
    with 1 show ?thesis by simp
  qed
  then show "10 powi (dec_exp x - 1) \<le> x" "x < 10 powi dec_exp x" by simp_all
qed

section \<open>The shortest digits\<close>

definition scaled :: "rat \<Rightarrow> nat \<Rightarrow> int" where
  "scaled x k = round_even (x / 10 powi (dec_exp x - int k))"

lemma scaled_bounds:
  assumes "0 < x" "0 < k"
  shows "10 ^ (k - 1) \<le> scaled x k" "scaled x k \<le> 10 ^ k"
proof -
  let ?p = "10 powi (dec_exp x - int k) :: rat"
  have p: "0 < ?p" by simp
  have lo: "10 powi (dec_exp x - 1) = of_int (10 ^ (k - 1)) * ?p" and hi: "10 powi dec_exp x = of_int (10 ^ k) * ?p"
    using assms(2) by (cases k; simp add: power_int_diff power_int_add field_simps)+
  have "of_int (10 ^ (k - 1)) \<le> x / ?p" "x / ?p \<le> of_int (10 ^ k)"
    using dec_exp_bounds [OF assms(1)] p unfolding lo hi by (simp_all only: pos_le_divide_eq pos_divide_le_eq less_imp_le)
  from this [THEN round_even_mono]
  have "round_even (of_int (10 ^ (k - 1))) \<le> scaled x k" "scaled x k \<le> round_even (of_int (10 ^ k))"
    unfolding scaled_def .
  then show "10 ^ (k - 1) \<le> scaled x k" "scaled x k \<le> 10 ^ k" by (simp_all only: round_even_of_int)
qed

lemma scaled_near: "0 < x \<Longrightarrow> near (of_int (scaled x 17) * 10 powi (dec_exp x - 17)) x"
proof -
  assume x: "0 < x"
  let ?p = "10 powi (dec_exp x - 17) :: rat"
  have p: "0 < ?p" by simp
  have "\<bar>of_int (scaled x 17) - x / ?p\<bar> \<le> 1 / 2" using round_even_near [of "x / ?p"] by (simp add: scaled_def)
  then have "\<bar>of_int (scaled x 17) - x / ?p\<bar> * ?p \<le> ?p / 2" using p by simp
  moreover have "\<bar>of_int (scaled x 17) * ?p - x\<bar> = \<bar>of_int (scaled x 17) - x / ?p\<bar> * ?p"
  proof -
    have "of_int (scaled x 17) * ?p - x = (of_int (scaled x 17) - x / ?p) * ?p" using p by (simp add: left_diff_distrib)
    then show ?thesis using p by (simp only: abs_mult abs_of_pos)
  qed
  moreover have "10 powi (dec_exp x - 1) = 10 ^ 16 * ?p" by (simp add: power_int_diff)
  then have "10000000000000000 * ?p \<le> x" using dec_exp_bounds(1) [OF x] by simp
  then have "?p / 2 \<le> x / 20000000000000000" by simp
  ultimately show ?thesis unfolding near_def by linarith
qed

lemma hd_filter_or:
  "Q a \<Longrightarrow> a \<in> set xs \<Longrightarrow> Q (hd (filter Q xs @ [a])) \<and> hd (filter Q xs @ [a]) \<in> set xs"
  by (induction xs) auto

lemma digits_power10: "0 < k \<Longrightarrow> take k (digits (10 ^ k)) = digits (10 ^ (k - 1))"
proof -
  assume k: "0 < k"
  then have "\<not> (10 :: nat) ^ k < 10" by (cases k) simp_all
  moreover have "(10 :: nat) ^ k div 10 = 10 ^ (k - 1)" using k by (cases k) simp_all
  ultimately have "digits (10 ^ k) = digits (10 ^ (k - 1)) @ [of_nat (48 + 10 ^ k mod 10)]" 
    using digits_step [of "10 ^ k"] by simp
  moreover have "length (digits (10 ^ (k - 1))) = k"
    by (rule length_digits_eq) (use k in \<open>simp_all add: power_strict_increasing\<close>)
  ultimately show ?thesis by simp
qed

lemma shortest_digits_ok:
  assumes "0 < x" "fl64 x = x" "shortest_digits x = (ds, n)"
  shows "fl64 (of_nat (decimal_value ds) * 10 powi (n - int (length ds))) = x \<and>
    list_all is_digit ds \<and> ds \<noteq> [] \<and> hd ds \<noteq> 48"
proof -
  let ?Q = "\<lambda>k. fl64 (of_int (scaled x k) * 10 powi (dec_exp x - int k)) = x"
  define k where "k = hd (filter ?Q [1..<18] @ [17])"
  have "?Q 17" using near_rounds [OF assms(1,2) scaled_near [OF assms(1)]] by simp
  from hd_filter_or [of ?Q 17 "[1..<18]", OF this] have k: "?Q k" "0 < k" by (auto simp: k_def)
  define m where "m = nat (scaled x k)"
  have m: "10 ^ (k - 1) \<le> m" "m \<le> 10 ^ k" and sm: "scaled x k = int m"
    using scaled_bounds [OF assms(1) k(2)] by (simp_all add: m_def nat_le_iff le_nat_iff)
      (meson order_trans zero_le_numeral zero_le_power)+
  have sd: "(ds, n) = (if length (digits m) = k then (digits m, dec_exp x) else (take k (digits m), dec_exp x + 1))"
    using assms(3) unfolding shortest_digits_def by (simp only: Let_def scaled_def [symmetric] k_def [symmetric] m_def [symmetric])
  have Q: "fl64 (of_nat m * 10 powi (dec_exp x - int k)) = x" using k(1) unfolding sm by simp
  show ?thesis
  proof (cases "m = 10 ^ k")
    case False
    then have len: "length (digits m) = k" using m k(2) by (intro length_digits_eq) simp_all
    have "0 < m" using m(1) by (metis not_gr_zero not_less zero_less_numeral zero_less_power)
    with sd len Q show ?thesis by (simp add: digits_all hd_digits)
  next
    case True
    have "length (digits m) = Suc k" unfolding True
      by (rule length_digits_eq) (simp_all add: power_strict_increasing)
    then have eq: "ds = digits (10 ^ (k - 1))" "n = dec_exp x + 1"
      using sd True digits_power10 [OF k(2)] by simp_all
    have len: "length ds = k" unfolding eq
      by (rule length_digits_eq) (use k in \<open>simp_all add: power_strict_increasing\<close>)
    have "(of_nat m :: rat) * 10 powi (dec_exp x - int k) = of_nat (decimal_value ds) * 10 powi (n - int (length ds))"
      using k(2) unfolding len unfolding eq True by (cases k) (simp_all add: power_int_diff power_int_add)
    with Q show ?thesis by (simp add: eq digits_all hd_digits)
  qed
qed

end
