(* ===== verification/Json_Roundtrip.thy ===== *)
theory Json_Roundtrip
  imports Decimal Json_Parse
begin

text \<open>
  \<^verbatim>\<open>JSON.parse\<close> undoes \<^verbatim>\<open>JSON.stringify\<close>: every value comes back, but for the numbers that have no
  JSON text and are printed as \<^verbatim>\<open>null\<close>.
\<close>

section \<open>The bound on the recursion is never reached\<close>

lemma skip_ws_shorter: "length (skip_ws s) \<le> length s"
  by (simp add: skip_ws_def length_dropWhile_le)

lemma next_is_shorter: "next_is c s = Some r \<Longrightarrow> length s = Suc (length r)"
  by (cases s) (auto split: if_splits)

lemma expect_shorter: "expect c s = Some r \<Longrightarrow> length r < length s"
  using skip_ws_shorter [of s] by (auto simp: expect_def dest: next_is_shorter)

lemma string_rest_shorter: "string_rest s = Some (v, r) \<Longrightarrow> length r < length s"
  by (induction s arbitrary: v r rule: string_rest.induct)
    (fastforce split: if_splits option.splits dest: escape_at_shorter)+

lemma digits_of_shorter: "digits_of s = (ds, r) \<Longrightarrow> length s = length ds + length r"
  unfolding digits_of_def by (metis length_append prod.inject takeWhile_dropWhile_id)

lemma fraction_at_shorter: "fraction_at s = Some (ds, r) \<Longrightarrow> length r \<le> length s"
  by (auto simp: fraction_at_def split: option.splits prod.splits if_splits
      dest!: next_is_shorter digits_of_shorter)

lemma sign_at_shorter: "sign_at s = (sg, r) \<Longrightarrow> length r \<le> length s"
  by (auto simp: sign_at_def split: option.splits dest!: next_is_shorter)

lemma exponent_at_shorter: "exponent_at s = Some (e, r) \<Longrightarrow> length r \<le> length s"
  by (auto simp: exponent_at_def split: option.splits prod.splits if_splits
      dest!: next_is_shorter digits_of_shorter sign_at_shorter)

lemma unsigned_at_shorter: "unsigned_at sg s = Some (v, r) \<Longrightarrow> length r < length s"
proof -
  assume u: "unsigned_at sg s = Some (v, r)"
  obtain whole r0 where d: "digits_of s = (whole, r0)" by fastforce
  from u d obtain part r1 e where "whole \<noteq> []" "fraction_at r0 = Some (part, r1)" "exponent_at r1 = Some (e, r)"
    by (auto simp: unsigned_at_def split: option.splits if_splits)
  then show ?thesis
    using digits_of_shorter [OF d] fraction_at_shorter exponent_at_shorter by (fastforce simp: neq_Nil_conv)
qed

lemma number_at_shorter: "number_at s = Some (v, r) \<Longrightarrow> length r < length s"
  by (auto simp: number_at_def split: option.splits dest!: unsigned_at_shorter next_is_shorter)

lemma literal_shorter: "literal name v s = Some (w, r) \<Longrightarrow> name \<noteq> [] \<Longrightarrow> length r < length s"
  by (auto simp: literal_def split: if_splits) (metis diff_less length_greater_0_conv take_eq_Nil)

lemmas token_shorter = next_is_shorter expect_shorter string_rest_shorter number_at_shorter

lemma value_at_shorter:
  "value_at n s = Some (v, r) \<Longrightarrow> length r < length s"
  "elements_at n s = Some (vs, r) \<Longrightarrow> length r < length s"
  "members_at n s = Some (kvs, r) \<Longrightarrow> length r < length s"
proof (induction n s and n s and n s arbitrary: v r and vs r and kvs r rule: value_at_elements_at_members_at.induct)
  case (2 n s)
  have "length (skip_ws s) \<le> length s" by (rule skip_ws_shorter)
  moreover have "length r < length (skip_ws s)"
    using 2 unfolding value_at.simps Let_def
    by (auto split: option.splits dest!: token_shorter literal_shorter) (metis less_SucI)+
  ultimately show ?case by simp
next
  case (4 n s)
  then show ?case
    by (fastforce split: option.splits dest!: expect_shorter)
next
  case (6 n s)
  then show ?case
    by (fastforce split: option.splits bind_splits dest!: expect_shorter string_rest_shorter)
qed simp_all


declare value_at.simps [simp del] elements_at.simps [simp del] members_at.simps [simp del]

lemma next_is_skip: "next_is c (skip_ws s) = Some r \<Longrightarrow> length r < length s"
  using skip_ws_shorter [of s] by (auto dest: next_is_shorter)

text \<open>With twice the length of the text as bound, a larger one changes nothing.\<close>

lemma value_at_step:
  "(\<forall>s. 2 * length s + 1 \<le> n \<longrightarrow> value_at (Suc n) s = value_at n s) \<and>
   (\<forall>s. 2 * length s + 2 \<le> n \<longrightarrow> elements_at (Suc n) s = elements_at n s) \<and>
   (\<forall>s. 2 * length s + 2 \<le> n \<longrightarrow> members_at (Suc n) s = members_at n s)"
proof (induction n)
  case (Suc n)
  have v: "value_at (Suc n) s = value_at n s" if "2 * length s + 1 \<le> n" for s using Suc that by blast
  have es: "elements_at (Suc n) s = elements_at n s" if "2 * length s + 2 \<le> n" for s using Suc that by blast
  have ms: "members_at (Suc n) s = members_at n s" if "2 * length s + 2 \<le> n" for s using Suc that by blast
  have "value_at (Suc (Suc n)) s = value_at (Suc n) s" if "2 * length s + 1 \<le> Suc n" for s
  proof -
    have "2 * length r + 2 \<le> n" if "next_is c (skip_ws s) = Some r" for c r
      using next_is_skip [OF that] \<open>2 * length s + 1 \<le> Suc n\<close> by simp
    then show ?thesis
      unfolding value_at.simps(2) [of "Suc n" s] value_at.simps(2) [of n s] Let_def
      by (simp add: es ms split: option.split)
  qed
  moreover have "elements_at (Suc (Suc n)) s = elements_at (Suc n) s" if "2 * length s + 2 \<le> Suc n" for s
  proof -
    have "2 * length r' + 2 \<le> n" if "value_at n s = Some (w, r)" "expect c r = Some r'" for c r r' w
      using value_at_shorter(1) [OF that(1)] expect_shorter [OF that(2)] \<open>2 * length s + 2 \<le> Suc n\<close> by simp
    moreover have "value_at (Suc n) s = value_at n s" using that by (intro v) simp
    ultimately show ?thesis
      unfolding elements_at.simps(2) [of "Suc n" s] elements_at.simps(2) [of n s]
      by (auto simp: es split: option.split)
  qed
  moreover have "members_at (Suc (Suc n)) s = members_at (Suc n) s" if "2 * length s + 2 \<le> Suc n" for s
  proof -
    note unfolded = members_at.simps(2) [of "Suc n" s] members_at.simps(2) [of n s]
    show ?thesis
    proof (cases "Option.bind (Option.bind (expect 34 s) string_rest) (\<lambda>(k, r). map_option (Pair k) (expect 58 r))")
      case None
      then show ?thesis unfolding unfolded by (auto split: option.split bind_split)
    next
      case (Some p)
      then obtain s1 k s2 r where p: "expect 34 s = Some s1" "string_rest s1 = Some (k, s2)" "expect 58 s2 = Some r"
        by (auto simp: bind_eq_Some_conv)
      have r: "2 * length r + 6 \<le> 2 * length s"
        using expect_shorter [OF p(1)] string_rest_shorter [OF p(2)] expect_shorter [OF p(3)] by simp
      have "2 * length r'' + 2 \<le> n" if "value_at n r = Some (w, r')" "expect c r' = Some r''" for c w r' r''
        using r value_at_shorter(1) [OF that(1)] expect_shorter [OF that(2)] \<open>2 * length s + 2 \<le> Suc n\<close> by simp
      moreover have "value_at (Suc n) r = value_at n r" using r that by (intro v) simp
      ultimately show ?thesis
        unfolding unfolded by (auto simp: p ms split: option.split)
    qed
  qed
  ultimately show ?case by blast
qed simp

lemma value_at_enough: "2 * length s + 1 \<le> n \<Longrightarrow> value_at n s = value_at (2 * length s + 1) s"
proof (induction n rule: dec_induct)
  case (step n)
  then show ?case using value_at_step [of n] by simp
qed simp

lemma parse_json_eventually:
  assumes "\<And>n. N \<le> n \<Longrightarrow> value_at n s = Some (v, [])"
  shows "parse_json s = Some v"
proof -
  have "value_at (2 * length s + 1) s = value_at (max N (2 * length s + 1)) s"
    by (rule value_at_enough [symmetric]) simp
  also have "\<dots> = Some (v, [])" by (rule assms) simp
  finally show ?thesis by (simp add: parse_json_def skip_ws_def)
qed

section \<open>Strings\<close>

lemma hex_value_digit: "n < 16 \<Longrightarrow> hex_value (hex_digit n) = Some n"
proof -
  assume n: "n < 16"
  then have "unat (of_nat (48 + n) :: 16 word) = 48 + n" "unat (of_nat (87 + n) :: 16 word) = 87 + n"
    by (intro unat_of_nat_u16; simp)+
  then have "unat (hex_digit n) = (if n < 10 then 48 + n else 87 + n)" unfolding hex_digit_def by (simp only: split: if_split) simp
  then show ?thesis using n by (simp add: hex_value_def)
qed

lemma escape_unicode:
  "escape_at (drop 1 (unicode_escape u) @ r) = Some (u, r)"
proof -
  let ?n = "unat u"
  have "?n < 65536" by (rule unat_lt_u16)
  then have "hex_value (hex_digit (?n div 4096)) = Some (?n div 4096)"
      "hex_value (hex_digit (?n div 256 mod 16)) = Some (?n div 256 mod 16)"
      "hex_value (hex_digit (?n div 16 mod 16)) = Some (?n div 16 mod 16)"
      "hex_value (hex_digit (?n mod 16)) = Some (?n mod 16)"
    by (simp_all add: hex_value_digit less_mult_imp_div_less)
  moreover have "4096 * (?n div 4096) + 256 * (?n div 256 mod 16) + 16 * (?n div 16 mod 16) + ?n mod 16 = ?n"
  proof -
    have sum: "4096 * c + 256 * m2 + 16 * m1 + m0 = n" if "n = 16 * a + m0" "a = 16 * b + m1" "b = 16 * c + m2"
      for n a b c m0 m1 m2 :: nat using that by simp
    have "?n div 16 = 16 * (?n div 256) + ?n div 16 mod 16" "?n div 256 = 16 * (?n div 4096) + ?n div 256 mod 16"
      using mult_div_mod_eq [of 16 "?n div 16"] mult_div_mod_eq [of 16 "?n div 256"] by (simp_all flip: div_mult2_eq)
    with mult_div_mod_eq [of 16 ?n, symmetric] show ?thesis by (rule sum)
  qed
  ultimately show ?thesis
    by (simp add: escape_at_def unicode_escape_def hex_unit_def del: of_nat_add of_nat_mult)
qed

lemma string_rest_unicode: "string_rest (unicode_escape u @ r) = map_option (apfst (Cons u)) (string_rest r)"
proof -
  have "unicode_escape u @ r = 92 # (drop 1 (unicode_escape u) @ r)" by (simp add: unicode_escape_def)
  then show ?thesis using escape_unicode [of u r] by (simp only: string_rest.simps) simp
qed

lemma string_rest_escape: "string_rest (escape_unit u @ r) = map_option (apfst (Cons u)) (string_rest r)"
  using string_rest_unicode [of u r]
  by (auto simp: escape_unit_def escape_at_def simple_escape_def)

lemma surrogate_plain: "is_high u \<or> is_low u \<Longrightarrow> u \<noteq> 34 \<and> u \<noteq> 92 \<and> \<not> unat u < 32"
  by (auto simp: is_high_def is_low_def)

lemma string_rest_quote: "string_rest (escape_string s @ 34 # r) = Some (s, r)"
proof (induction s rule: escape_string.induct)
  case (2 u)
  show ?case using string_rest_unicode [of u "34 # r"] string_rest_escape [of u "34 # r"] by simp
next
  case (3 u v us)
  show ?case
  proof (cases "is_high u \<and> is_low v")
    case True
    then show ?thesis using 3 surrogate_plain [of u] surrogate_plain [of v] by simp
  next
    case False
    then have "escape_string (u # v # us) @ 34 # r =
        (if is_high u \<or> is_low u then unicode_escape u else escape_unit u) @ (escape_string (v # us) @ 34 # r)"
      by (simp only: escape_string.simps if_False append_assoc simp_thms)
    then show ?thesis
      using 3(2) [OF False] string_rest_unicode [of u] string_rest_escape [of u] by (simp only: split: if_split) simp
  qed
qed simp

section \<open>Numbers\<close>

text \<open>What may follow a number in a JSON text.\<close>

definition ends_number :: "js_string \<Rightarrow> bool" where
  "ends_number r \<longleftrightarrow> (case r of [] \<Rightarrow> True | u # _ \<Rightarrow> \<not> is_digit u \<and> u \<noteq> 46 \<and> u \<noteq> 101 \<and> u \<noteq> 69)"

lemma digits_of_append:
  "list_all is_digit ds \<Longrightarrow> (case r of [] \<Rightarrow> True | u # _ \<Rightarrow> \<not> is_digit u) \<Longrightarrow> digits_of (ds @ r) = (ds, r)"
  by (induction ds) (auto simp: digits_of_def split: list.splits)

lemma ends_number_simps:
  assumes "ends_number r"
  shows "fraction_at r = Some ([], r)" "exponent_at r = Some (0, r)"
    "list_all is_digit ds \<Longrightarrow> digits_of (ds @ r) = (ds, r)"
  using assms digits_of_append [of ds r]
  by (cases r; simp add: ends_number_def fraction_at_def exponent_at_def)+

lemma exponent_at_text:
  assumes "ends_number r" "e \<noteq> 0"
  shows "exponent_at ([101, if 0 < e then 43 else 45] @ digits (nat \<bar>e\<bar>) @ r) = Some (e, r)"
proof -
  have "digits_of (digits (nat \<bar>e\<bar>) @ r) = (digits (nat \<bar>e\<bar>), r)"
    by (rule ends_number_simps(3) [OF assms(1) digits_all])
  then show ?thesis using assms(2) by (cases "0 < e") (simp_all add: exponent_at_def sign_at_def)
qed

lemma unsigned_at_parts:
  assumes "list_all is_digit whole" "whole \<noteq> []" "hd whole \<noteq> 48 \<or> tl whole = []"
    and "case r0 of [] \<Rightarrow> True | u # _ \<Rightarrow> \<not> is_digit u"
    and "fraction_at r0 = Some (part, r1)" "exponent_at r1 = Some (e, r)"
  shows "unsigned_at sg (whole @ r0) = Some (decimal_num sg whole part e, r)"
  using assms(2,3,5,6) digits_of_append [OF assms(1,4)] by (auto simp: unsigned_at_def)

lemma dot_no_digit: "\<not> is_digit 46" "\<not> is_digit 101"
  by (simp_all add: is_digit_def)

lemma fraction_at_text:
  "list_all is_digit part \<Longrightarrow> part \<noteq> [] \<Longrightarrow> (case r of [] \<Rightarrow> True | u # _ \<Rightarrow> \<not> is_digit u) \<Longrightarrow>
     fraction_at (46 # part @ r) = Some (part, r)"
  using digits_of_append [of part r] by (simp add: fraction_at_def)

definition finite_num :: "rat \<Rightarrow> bool" where
  "finite_num x \<longleftrightarrow> is_double x \<and> \<bar>x\<bar> < 2 ^ 1024"

lemma round_num_double:
  "finite_num x \<Longrightarrow> fl64 y = x \<Longrightarrow> round_num y = Fin x"
proof -
  assume a: "finite_num x" "fl64 y = x"
  then have "x < 2 ^ 1024" "- (2 ^ 1024) < x" unfolding finite_num_def by linarith+
  then show ?thesis using a(2) by (simp add: round_num_def Let_def)
qed

lemma decimal_num_exact:
  assumes "fl64 (of_nat D * 10 powi E) = x" "finite_num (sg * x)" "sg = 1 \<or> sg = - 1"
    and "of_nat (decimal_value (whole @ part)) * 10 powi (e - int (length part)) = (of_nat D * 10 powi E :: rat)"
  shows "decimal_num sg whole part e = Fin (sg * x)"
proof -
  have "fl64 (sg * (of_nat D * 10 powi E)) = sg * x"
    using assms(1,3) by (auto simp: fl64_minus)
  then have "round_num (sg * (of_nat D * 10 powi E)) = Fin (sg * x)" by (rule round_num_double [OF assms(2)])
  then show ?thesis using assms(4) by (simp add: decimal_num_def mult.assoc)
qed

lemma digit_48: "is_digit 48"
  by (simp add: is_digit_def)

lemma positive_string_parsed:
  assumes x: "0 < x" "finite_num x" and r: "ends_number r" and sg: "sg = 1 \<or> sg = - 1"
  shows "unsigned_at sg (positive_string x @ r) = Some (Fin (sg * x), r)"
proof -
  obtain ds n where s: "shortest_digits x = (ds, n)" by fastforce
  have fl: "fl64 x = x" using x(2) by (simp add: finite_num_def is_double_def)
  from shortest_digits_ok [OF x(1) fl s]
  have D: "fl64 (of_nat (decimal_value ds) * 10 powi (n - int (length ds))) = x"
    and ds: "list_all is_digit ds" "ds \<noteq> []" "hd ds \<noteq> 48" by blast+
  have fin: "finite_num (sg * x)" using x(2) sg by (auto simp: finite_num_def is_double_def fl64_minus)
  let ?k = "int (length ds)"
  have k: "1 \<le> ?k" using ds(2) by (cases ds) simp_all
  have parts: "unsigned_at sg (whole @ r0) = Some (Fin (sg * x), r)"
    if "list_all is_digit whole" "whole \<noteq> []" "hd whole \<noteq> 48 \<or> tl whole = []"
      "case r0 of [] \<Rightarrow> True | u # _ \<Rightarrow> \<not> is_digit u"
      "fraction_at r0 = Some (part, r1)" "exponent_at r1 = Some (e, r)"
      "of_nat (decimal_value (whole @ part)) * 10 powi (e - int (length part))
         = (of_nat (decimal_value ds) * 10 powi (n - ?k) :: rat)" for whole r0 part r1 e
    using unsigned_at_parts [OF that(1-6)] decimal_num_exact [OF D fin sg that(7)] by simp
  have no_digit: "case r of [] \<Rightarrow> True | u # _ \<Rightarrow> \<not> is_digit u"
    using r by (simp add: ends_number_def split: list.splits)
  have taken: "list_all is_digit (take i ds)" "list_all is_digit (drop i ds)" for i
    using ds(1) by (auto simp: list_all_iff dest: in_set_takeD in_set_dropD)
  have exp_text: "case [101, c] @ u of [] \<Rightarrow> True | u # _ \<Rightarrow> \<not> is_digit u" for c u
    by (simp add: dot_no_digit)
  consider (int) "?k \<le> n \<and> n \<le> 21" | (frac) "\<not> (?k \<le> n \<and> n \<le> 21)" "0 < n \<and> n \<le> 21"
    | (small) "\<not> (?k \<le> n \<and> n \<le> 21)" "\<not> (0 < n \<and> n \<le> 21)" "- 6 < n \<and> n \<le> 0"
    | (one) "\<not> (?k \<le> n \<and> n \<le> 21)" "\<not> (0 < n \<and> n \<le> 21)" "\<not> (- 6 < n \<and> n \<le> 0)" "?k = 1"
    | (many) "\<not> (?k \<le> n \<and> n \<le> 21)" "\<not> (0 < n \<and> n \<le> 21)" "\<not> (- 6 < n \<and> n \<le> 0)" "?k \<noteq> 1"
    by blast
  then show ?thesis
  proof cases
    case int
    have t: "positive_string x = ds @ replicate (nat (n - ?k)) 48"
      using int unfolding positive_string_def s by simp
    have "10 powi (n - ?k) = (10 :: rat) ^ nat (n - ?k)" using int by (simp add: power_int_def)
    then show ?thesis
      unfolding t using ds int no_digit ends_number_simps(1,2) [OF r] digit_48
      by (intro parts [where part = "[]" and e = 0])
        (auto simp: list_all_iff decimal_value_append tl_append split: list.split)
  next
    case frac
    have t: "positive_string x @ r = take (nat n) ds @ 46 # drop (nat n) ds @ r"
      using frac unfolding positive_string_def s by (simp add: Let_def)
    have "drop (nat n) ds \<noteq> []" "take (nat n) ds \<noteq> []" "hd (take (nat n) ds) \<noteq> 48"
      using frac ds(2,3) by (simp_all add: nat_le_iff not_le) linarith+
    then show ?thesis
      unfolding t using frac taken no_digit ends_number_simps(2) [OF r] dot_no_digit
      by (intro parts [where part = "drop (nat n) ds" and e = 0])
        (auto intro: fraction_at_text)
  next
    case small
    have t: "positive_string x @ r = [48] @ 46 # (replicate (nat (- n)) 48 @ ds) @ r"
      using small unfolding positive_string_def s by (simp add: Let_def)
    have zeros: "decimal_value ([48] @ replicate (nat (- n)) 48 @ ds) = decimal_value ds"
      using decimal_value_zeros [of "Suc (nat (- n))"] by (simp add: decimal_value_append [of "48 # replicate _ _", simplified])
    have "fraction_at (46 # (replicate (nat (- n)) 48 @ ds) @ r) = Some (replicate (nat (- n)) 48 @ ds, r)"
      using ds no_digit digit_48 by (intro fraction_at_text) (auto simp: list_all_iff)
    then show ?thesis
      unfolding t using small ends_number_simps(2) [OF r] dot_no_digit digit_48
      by (intro parts [OF _ _ _ _ _ _ arg_cong2 [of _ _ _ _ "\<lambda>d z. of_nat d * 10 powi z", OF zeros]]) simp_all
  next
    case one
    have t: "positive_string x @ r = ds @ [101, if 0 < n - 1 then 43 else 45] @ digits (nat \<bar>n - 1\<bar>) @ r"
      using one unfolding positive_string_def s by (auto simp: Let_def)
    have "n - 1 \<noteq> 0" using one by auto
    from exponent_at_text [OF r this] show ?thesis
      unfolding t using one ds exp_text
      by (intro parts [where part = "[]" and e = "n - 1"]) (simp_all add: fraction_at_def)
  next
    case many
    have t: "positive_string x @ r = take 1 ds @ 46 # drop 1 ds @ [101, if 0 < n - 1 then 43 else 45] @ digits (nat \<bar>n - 1\<bar>) @ r"
      using many unfolding positive_string_def s by (auto simp: Let_def)
    have "n - 1 \<noteq> 0" using many k by auto
    note e = exponent_at_text [OF r this]
    have "drop 1 ds \<noteq> []" "length (drop 1 ds) = length ds - 1" "take 1 ds \<noteq> []" "hd (take 1 ds) \<noteq> 48"
      using many ds(2,3) k by simp_all
    then show ?thesis
      unfolding t using many k taken e exp_text dot_no_digit
      by (intro parts [where part = "drop 1 ds" and e = "n - 1"])
        (auto intro!: fraction_at_text simp: of_nat_diff algebra_simps)
  qed
qed

lemma positive_string_start:
  assumes "0 < x" "finite_num x"
  shows "\<exists>u us. positive_string x = u # us \<and> is_digit u"
proof -
  obtain ds n where s: "shortest_digits x = (ds, n)" by fastforce
  have "fl64 x = x" using assms(2) by (simp add: finite_num_def is_double_def)
  from shortest_digits_ok [OF assms(1) this s] obtain d ds' where "ds = d # ds'" "is_digit d"
    by (cases ds) auto
  then show ?thesis
    unfolding positive_string_def s using digit_48 by (auto simp: Let_def take_Cons split: nat.split)
qed

lemma digit_not_minus: "is_digit u \<Longrightarrow> next_is 45 (u # us) = None"
  by (auto simp: is_digit_def)

lemma number_roundtrip:
  assumes "finite_num x" "ends_number r"
  shows "number_at (number_string (Fin x) @ r) = Some (Fin x, r)"
proof -
  have minus: "finite_num (- x)" using assms(1) by (simp add: finite_num_def is_double_def fl64_minus)
  consider "x = 0" | "0 < x" | "x < 0" by linarith
  then show ?thesis
  proof cases
    case 1
    have "fraction_at r = Some ([], r)" "exponent_at r = Some (0, r)" "case r of [] \<Rightarrow> True | u # _ \<Rightarrow> \<not> is_digit u"
      using ends_number_simps(1,2) [OF assms(2)] assms(2) by (simp_all add: ends_number_def split: list.splits)
    from unsigned_at_parts [OF _ _ _ this(3,1,2), of "[48]" 1] digit_48
    have "unsigned_at 1 (48 # r) = Some (decimal_num 1 [48] [] 0, r)" by simp
    moreover have "decimal_num 1 [48] [] 0 = Fin 0" by (simp add: decimal_num_def round_num_def)
    ultimately show ?thesis using 1 by (simp add: number_at_def)
  next
    case 2
    obtain u us where "positive_string x = u # us" "is_digit u" using positive_string_start [OF 2 assms(1)] by blast
    then have "next_is 45 (positive_string x @ r) = None" using digit_not_minus [of u "us @ r"] by simp
    then show ?thesis
      using 2 positive_string_parsed [OF 2 assms, of 1] by (simp add: number_at_def)
  next
    case 3
    then have "0 < - x" by simp
    from positive_string_parsed [OF this minus assms(2), of "- 1"] 3 show ?thesis by (simp add: number_at_def)
  qed
qed

lemma number_start:
  assumes "finite_num x"
  shows "\<exists>u us. number_string (Fin x) = u # us \<and> (is_digit u \<or> u = 45)"
proof -
  have "x \<noteq> 0 \<Longrightarrow> 0 < \<bar>x\<bar> \<and> finite_num \<bar>x\<bar>" using assms by (auto simp: finite_num_def is_double_def fl64_minus abs_if)
  then show ?thesis using positive_string_start [of "\<bar>x\<bar>"] digit_48 by (cases "x = 0"; cases "x < 0") auto
qed

section \<open>Values\<close>

text \<open>
  What \<^verbatim>\<open>JSON.parse\<close> can return: numbers are doubles and the properties of an object, each with
  a name of its own, are in the order of \<^verbatim>\<open>Object.keys\<close>. \<open>nulled\<close> replaces the numbers without a
  JSON text.
\<close>

fun num_ok :: "jsnum \<Rightarrow> bool" where
  "num_ok (Fin x) = finite_num x"
| "num_ok _ = True"

primrec json_ok :: "json \<Rightarrow> bool" where
  "json_ok JsNull = True"
| "json_ok (JsBool b) = True"
| "json_ok (JsNum n) = num_ok n"
| "json_ok (JsStr s) = True"
| "json_ok (JsArr xs) = list_all id (map json_ok xs)"
| "json_ok (JsObj kvs) =
     (list_all snd (map (map_prod id json_ok) kvs) \<and> distinct (map fst kvs) \<and> obj_keys kvs = map fst kvs)"

primrec nulled :: "json \<Rightarrow> json" where
  "nulled JsNull = JsNull"
| "nulled (JsBool b) = JsBool b"
| "nulled (JsNum n) = (case n of Fin x \<Rightarrow> JsNum n | _ \<Rightarrow> JsNull)"
| "nulled (JsStr s) = JsStr s"
| "nulled (JsArr xs) = JsArr (map nulled xs)"
| "nulled (JsObj kvs) = JsObj (map (map_prod id nulled) kvs)"

lemma not_ws: "is_ws u \<longleftrightarrow> u \<in> {32, 9, 10, 13}"
  by (auto simp: is_ws_def)

lemma skip_ws_Cons: "\<not> is_ws u \<Longrightarrow> skip_ws (u # us) = u # us"
  by (simp add: skip_ws_def)

lemma expect_Cons: "\<not> is_ws u \<Longrightarrow> expect c (u # us) = (if u = c then Some us else None)"
  by (simp add: expect_def skip_ws_Cons)

text \<open>The first unit of a JSON text.\<close>

definition starts_value :: "js_string \<Rightarrow> bool" where
  "starts_value s \<longleftrightarrow> (case s of [] \<Rightarrow> False | u # _ \<Rightarrow> \<not> is_ws u \<and> u \<noteq> 93 \<and> u \<noteq> 125)"

lemma digit_start: "is_digit u \<or> u = 45 \<Longrightarrow> \<not> is_ws u \<and> u \<notin> {34, 91, 93, 123, 125, 110, 116, 102}"
  by (auto simp: is_digit_def is_ws_def)

lemma stringify_start: "json_ok j \<Longrightarrow> starts_value (json_stringify j @ r)"
proof (cases j)
  case (JsNum n)
  assume "json_ok j"
  show ?thesis
  proof (cases n)
    case (Fin x)
    then obtain u us where "number_string n = u # us" "is_digit u \<or> u = 45"
      using number_start [of x] JsNum \<open>json_ok j\<close> by auto
    then show ?thesis using JsNum Fin digit_start [of u] by (simp add: starts_value_def)
  qed (use JsNum in \<open>simp_all add: starts_value_def jstr_def is_ws_def\<close>)
qed (simp_all add: starts_value_def is_ws_def jstr_def quote_json_def)

lemma take_literal: "literal name v (name @ r) = Some (v, r)"
  by (simp add: literal_def)

lemma literal_other: "s = u # us \<Longrightarrow> name = c # cs \<Longrightarrow> u \<noteq> c \<Longrightarrow> literal name v s = None"
  by (simp add: literal_def)

lemma value_at_words:
  "value_at (Suc n) (jstr ''null'' @ r) = Some (JsNull, r)"
  "value_at (Suc n) (jstr ''true'' @ r) = Some (JsBool True, r)"
  "value_at (Suc n) (jstr ''false'' @ r) = Some (JsBool False, r)"
  by (simp_all add: value_at.simps jstr_def skip_ws_def is_ws_def literal_def)

lemma value_at_string: "value_at (Suc n) (34 # s) = map_option (apfst JsStr) (string_rest s)"
  by (simp add: value_at.simps skip_ws_def is_ws_def)

lemma value_at_array:
  "starts_value s \<Longrightarrow> value_at (Suc n) (91 # s) = map_option (apfst JsArr) (elements_at n s)"
  by (auto simp: value_at.simps skip_ws_Cons not_ws starts_value_def expect_Cons split: list.splits)

lemma value_at_object:
  "value_at (Suc n) (123 # 34 # s) = map_option (apfst make_object) (members_at n (34 # s))"
  by (simp add: value_at.simps skip_ws_Cons not_ws expect_Cons)

lemma value_at_empty:
  "value_at (Suc n) (91 # 93 # s) = Some (JsArr [], s)"
  "value_at (Suc n) (123 # 125 # s) = Some (JsObj [], s)"
  by (simp_all add: value_at.simps skip_ws_Cons not_ws expect_Cons)

lemma value_at_number:
  assumes "is_digit u \<or> u = 45"
  shows "value_at (Suc n) (u # us) = map_option (apfst JsNum) (number_at (u # us))"
proof -
  have "\<not> is_ws u" "u \<noteq> 34" "u \<noteq> 91" "u \<noteq> 123" "u \<noteq> 110" "u \<noteq> 116" "u \<noteq> 102" using digit_start [OF assms] by auto
  then show ?thesis by (simp add: value_at.simps skip_ws_Cons literal_def jstr_def)
qed

definition printed_as :: "js_string \<Rightarrow> json \<Rightarrow> bool" where
  "printed_as s j \<longleftrightarrow> starts_value s \<and> (\<forall>r. ends_number r \<longrightarrow> (\<exists>N. \<forall>n \<ge> N. value_at n (s @ r) = Some (j, r)))"

lemma printed_asI:
  assumes "starts_value s" "\<And>n r. ends_number r \<Longrightarrow> value_at (Suc n) (s @ r) = Some (j, r)"
  shows "printed_as s j"
proof -
  have "value_at n (s @ r) = Some (j, r)" if "ends_number r" "1 \<le> n" for n r
    using assms(2) [OF that(1), of "n - 1"] that(2) by simp
  then show ?thesis using assms(1) unfolding printed_as_def by blast
qed

lemma separators: "ends_number (44 # r)" "ends_number (93 # r)" "ends_number (125 # r)" "ends_number []"
  by (simp_all add: ends_number_def is_digit_def)

lemma starts_value_append: "starts_value s \<Longrightarrow> starts_value (s @ r)"
  by (auto simp: starts_value_def split: list.splits)

lemma starts_join: "starts_value s \<Longrightarrow> starts_value (join_comma (s # ss) @ r)"
  by (cases ss) (simp_all add: starts_value_append)

lemma elements_printed:
  assumes "\<And>x. x \<in> set xs \<Longrightarrow> printed_as (p x) (v x)" "xs \<noteq> []"
  shows "\<exists>N. \<forall>n \<ge> N. elements_at n (join_comma (map p xs) @ 93 # r) = Some (map v xs, r)"
  using assms
proof (induction xs)
  case (Cons x xs)
  have x: "printed_as (p x) (v x)" using Cons.prems by simp
  show ?case
  proof (cases xs)
    case Nil
    from x obtain N where N: "value_at n (p x @ 93 # r) = Some (v x, 93 # r)" if "N \<le> n" for n
      unfolding printed_as_def using separators(2) by blast
    have "elements_at n (p x @ 93 # r) = Some ([v x], r)" if "Suc N \<le> n" for n
      using N [of "n - 1"] that by (cases n) (simp_all add: elements_at.simps expect_Cons not_ws)
    then show ?thesis using Nil by auto
  next
    case (Cons y ys)
    let ?tail = "join_comma (map p xs) @ 93 # r"
    from x obtain N where N: "value_at n (p x @ 44 # ?tail) = Some (v x, 44 # ?tail)" if "N \<le> n" for n
      unfolding printed_as_def using separators(1) by blast
    from Cons.IH Cons.prems Cons obtain M where M: "elements_at n ?tail = Some (map v xs, r)" if "M \<le> n" for n
      by auto
    have "elements_at n (p x @ 44 # ?tail) = Some (v x # map v xs, r)" if "Suc (max N M) \<le> n" for n
      using N [of "n - 1"] M [of "n - 1"] that by (cases n) (simp_all add: elements_at.simps expect_Cons not_ws)
    then show ?thesis using Cons by (auto simp: Cons)
  qed
qed simp

definition member_text :: "js_string \<times> js_string \<Rightarrow> js_string" where
  "member_text = (\<lambda>(k, v). quote_json k @ [58] @ v)"

lemma member_printed:
  assumes "printed_as s v" "ends_number r"
  shows "\<exists>N. \<forall>n \<ge> N. Option.bind (expect 34 (member_text (k, s) @ r)) string_rest = Some (k, 58 # s @ r) \<and>
    Option.bind (expect 58 (58 # s @ r)) (value_at n) = Some (v, r)"
proof -
  obtain N where "\<forall>n \<ge> N. value_at n (s @ r) = Some (v, r)" using assms unfolding printed_as_def by blast
  moreover have "Option.bind (expect 34 (member_text (k, s) @ r)) string_rest = Some (k, 58 # s @ r)"
    using string_rest_quote [of k "58 # s @ r"] by (simp add: member_text_def quote_json_def expect_Cons not_ws)
  ultimately show ?thesis by (auto simp: expect_Cons not_ws)
qed

lemma members_printed:
  assumes "\<And>x. x \<in> set xs \<Longrightarrow> printed_as (p x) (v x)" "xs \<noteq> []"
  shows "\<exists>N. \<forall>n \<ge> N. members_at n (join_comma (map (\<lambda>x. member_text (k x, p x)) xs) @ 125 # r) = Some (map (\<lambda>x. (k x, v x)) xs, r)"
  using assms
proof (induction xs)
  case (Cons x xs)
  have x: "printed_as (p x) (v x)" using Cons.prems by simp
  show ?case
  proof (cases xs)
    case Nil
    from member_printed [OF x separators(3) [of r], of "k x"] obtain N where
      N: "Option.bind (expect 34 (member_text (k x, p x) @ 125 # r)) string_rest = Some (k x, 58 # p x @ 125 # r) \<and>
        Option.bind (expect 58 (58 # p x @ 125 # r)) (value_at n) = Some (v x, 125 # r)" if "N \<le> n" for n by blast
    have "members_at n (member_text (k x, p x) @ 125 # r) = Some ([(k x, v x)], r)" if "Suc N \<le> n" for n
      using N [of "n - 1"] that by (cases n) (simp_all add: members_at.simps(2) expect_Cons [of 125] not_ws)
    then show ?thesis using Nil by auto
  next
    case (Cons y ys)
    let ?tail = "join_comma (map (\<lambda>x. member_text (k x, p x)) xs) @ 125 # r"
    from member_printed [OF x separators(1) [of ?tail], of "k x"] obtain N where
      N: "Option.bind (expect 34 (member_text (k x, p x) @ 44 # ?tail)) string_rest = Some (k x, 58 # p x @ 44 # ?tail) \<and>
        Option.bind (expect 58 (58 # p x @ 44 # ?tail)) (value_at n) = Some (v x, 44 # ?tail)" if "N \<le> n" for n by blast
    from Cons.IH Cons.prems Cons obtain M where M: "members_at n ?tail = Some (map (\<lambda>x. (k x, v x)) xs, r)" if "M \<le> n" for n
      by auto
    have "members_at n (member_text (k x, p x) @ 44 # ?tail) = Some ((k x, v x) # map (\<lambda>x. (k x, v x)) xs, r)"
      if "Suc (max N M) \<le> n" for n
      using N [of "n - 1"] M [of "n - 1"] that by (cases n) (simp_all add: members_at.simps(2) expect_Cons [of 44] not_ws)
    then show ?thesis using Cons by (auto simp: Cons)
  qed
qed simp

lemma prop_set_new: "k \<notin> fst ` set d \<Longrightarrow> prop_set d k v = d @ [(k, v)]"
  by (induction d) (auto simp: prop_set_def)

lemma foldl_prop_set:
  "distinct (map fst (d @ kvs)) \<Longrightarrow> foldl (\<lambda>d (k, v). prop_set d k v) d kvs = d @ kvs"
proof (induction kvs arbitrary: d)
  case (Cons p kvs)
  then show ?case by (cases p) (auto simp: prop_set_new)
qed simp

lemma obj_keys_cong: "map fst d = map fst d' \<Longrightarrow> obj_keys d = obj_keys d'"
  by (simp add: obj_keys_def)

lemma make_object_same:
  assumes "distinct (map fst kvs)" "obj_keys kvs = map fst kvs"
  shows "make_object kvs = JsObj kvs"
proof -
  have "map (\<lambda>k. (k, own_property kvs k)) (map fst kvs) = kvs"
    using assms(1) by (auto simp: own_property_def prop_get_def intro!: map_idI)
  then show ?thesis
    using assms foldl_prop_set [of "[]" kvs] by (simp add: make_object_def Let_def)
qed

lemma stringify_printed: "json_ok j \<Longrightarrow> printed_as (json_stringify j) (nulled j)"
proof (induction j)
  case (JsNum n)
  show ?case
  proof (rule printed_asI)
    show "starts_value (json_stringify (JsNum n))" using stringify_start [OF JsNum, of "[]"] by simp
    fix m r
    assume r: "ends_number r"
    show "value_at (Suc m) (json_stringify (JsNum n) @ r) = Some (nulled (JsNum n), r)"
    proof (cases n)
      case (Fin x)
      with JsNum have x: "finite_num x" by simp
      from number_start [OF x] obtain u us where "number_string (Fin x) = u # us" "is_digit u \<or> u = 45" by blast
      then show ?thesis
        using number_roundtrip [OF x r] value_at_number [of u m "us @ r"] Fin by simp
    qed (simp_all add: value_at_words)
  qed
next
  case (JsStr s)
  show ?case
    using string_rest_quote [of s]
    by (intro printed_asI) (simp_all add: value_at_string quote_json_def starts_value_def not_ws)
next
  case (JsArr xs)
  then have xs: "printed_as (json_stringify x) (nulled x)" if "x \<in> set xs" for x
    using that by (auto simp: list_all_iff)
  have start: "starts_value (json_stringify (JsArr xs))" using stringify_start [OF JsArr.prems, of "[]"] by simp
  show ?case
  proof (cases xs)
    case Nil
    with start show ?thesis by (intro printed_asI) (simp_all add: value_at_empty)
  next
    case (Cons y ys)
    have "\<exists>N. \<forall>n \<ge> N. value_at n (json_stringify (JsArr xs) @ r) = Some (nulled (JsArr xs), r)" for r
    proof -
      from elements_printed [of xs json_stringify nulled r] xs Cons obtain N where
        N: "elements_at n (join_comma (map json_stringify xs) @ 93 # r) = Some (map nulled xs, r)" if "N \<le> n" for n
        by auto
      have "starts_value (join_comma (map json_stringify xs) @ 93 # r)"
        using xs [of y] Cons starts_join [of "json_stringify y" "map json_stringify ys"] by (simp add: printed_as_def)
      from value_at_array [OF this] have "value_at n (json_stringify (JsArr xs) @ r) = Some (nulled (JsArr xs), r)" if "Suc N \<le> n" for n
        using N [of "n - 1"] that by (cases n) simp_all
      then show ?thesis by blast
    qed
    with start show ?thesis by (simp add: printed_as_def)
  qed
next
  case (JsObj kvs)
  have kvs: "printed_as (json_stringify (snd x)) (nulled (snd x))" if "x \<in> set kvs" for x
    using JsObj that by (cases x) (auto simp: list_all_iff snds.simps)
  have start: "starts_value (json_stringify (JsObj kvs))" using stringify_start [OF JsObj.prems, of "[]"] by simp
  show ?case
  proof (cases kvs)
    case Nil
    with start show ?thesis by (intro printed_asI) (simp_all add: value_at_empty)
  next
    case (Cons y ys)
    let ?text = "join_comma (map (\<lambda>x. member_text (fst x, json_stringify (snd x))) kvs)"
    have printed: "json_stringify (JsObj kvs) = 123 # ?text @ [125]"
      by (simp add: member_text_def comp_def case_prod_beta map_prod_def)
    let ?kvs = "map (\<lambda>x. (fst x, nulled (snd x))) kvs"
    have keys: "map fst ?kvs = map fst kvs" by (simp add: comp_def)
    have "make_object ?kvs = JsObj ?kvs"
      by (rule make_object_same, unfold keys) (use JsObj.prems obj_keys_cong [OF keys] in auto)
    then have made: "make_object ?kvs = nulled (JsObj kvs)" by (simp add: map_prod_def case_prod_beta)
    have "\<exists>N. \<forall>n \<ge> N. value_at n (json_stringify (JsObj kvs) @ r) = Some (nulled (JsObj kvs), r)" for r
    proof -
      from members_printed [of kvs "\<lambda>x. json_stringify (snd x)" "\<lambda>x. nulled (snd x)" fst r] kvs Cons obtain N where
        N: "members_at n (?text @ 125 # r) = Some (map (\<lambda>x. (fst x, nulled (snd x))) kvs, r)" if "N \<le> n" for n
        by auto
      obtain t where t: "?text @ 125 # r = 34 # t"
        using Cons by (cases ys) (simp_all add: member_text_def quote_json_def)
      have "value_at n (json_stringify (JsObj kvs) @ r) = Some (nulled (JsObj kvs), r)" if "Suc N \<le> n" for n
        using N [of "n - 1"] that value_at_object [of "n - 1" t] made unfolding printed by (cases n) (simp_all add: t)
      then show ?thesis by blast
    qed
    with start show ?thesis by (simp add: printed_as_def)
  qed
next
  case JsNull
  show ?case by (rule printed_asI [OF stringify_start [OF JsNull, of "[]", simplified append_Nil2]]) (simp add: value_at_words)
next
  case (JsBool b)
  show ?case
    by (rule printed_asI [OF stringify_start [OF JsBool, of "[]", simplified append_Nil2]]) (simp add: value_at_words)
qed

lemma parse_stringify: "json_ok j \<Longrightarrow> parse_json (json_stringify j) = Some (nulled j)"
proof -
  assume "json_ok j"
  from stringify_printed [OF this] obtain N where "value_at n (json_stringify j @ []) = Some (nulled j, [])" if "N \<le> n" for n
    unfolding printed_as_def using separators(4) by blast
  then show ?thesis by (intro parse_json_eventually [of N]) simp
qed

end
