(* ===== verification/Ieee.thy ===== *)
theory Ieee
  imports JS_Value
begin

text \<open>
  The bytes of a JavaScript number: the IEEE 754 interchange formats that \<^verbatim>\<open>DataView\<close> writes and
  reads, for any width of exponent and fraction (binary32 is 8 and 23, binary64 is 11 and 52).
  Elsewhere the two zeros are one number; their bytes differ, so here a value tells -0 apart.
\<close>

section \<open>The formats\<close>

datatype js_any = Value jsval | MinusZero

text \<open>The exponent of the last bit of the least positive number.\<close>

definition ulp_min :: "nat \<Rightarrow> nat \<Rightarrow> int" where
  "ulp_min w m = 2 - 2 ^ (w - 1) - int m"

definition ulp_of :: "nat \<Rightarrow> nat \<Rightarrow> rat \<Rightarrow> int" where
  "ulp_of w m x = max (exponent_of x - int m) (ulp_min w m)"

definition significand :: "nat \<Rightarrow> nat \<Rightarrow> rat \<Rightarrow> nat" where
  "significand w m x = nat (round_even (x / 2 powi ulp_of w m x))"

definition infinity_bits :: "nat \<Rightarrow> nat \<Rightarrow> nat" where
  "infinity_bits w m = (2 ^ w - 1) * 2 ^ m"

text \<open>
  The bits of a magnitude. The exponent field counts binades from the subnormal one; a
  significand that rounds up to the next power of two carries into it, and past the last
  binade the result is infinite.
\<close>

definition magnitude_bits :: "nat \<Rightarrow> nat \<Rightarrow> rat \<Rightarrow> nat" where
  "magnitude_bits w m x =
     (if x = 0 then 0
      else min (nat (ulp_of w m x - ulp_min w m) * 2 ^ m + significand w m x) (infinity_bits w m))"

text \<open>Of the representations of not-a-number the engines write the quiet one with no payload.\<close>

fun number_bits :: "nat \<Rightarrow> nat \<Rightarrow> jsnum \<Rightarrow> nat" where
  "number_bits w m NaN = infinity_bits w m + 2 ^ (m - 1)"
| "number_bits w m PosInf = infinity_bits w m"
| "number_bits w m NegInf = 2 ^ (w + m) + infinity_bits w m"
| "number_bits w m (Fin x) = (if x < 0 then 2 ^ (w + m) else 0) + magnitude_bits w m \<bar>x\<bar>"

fun float_bits :: "nat \<Rightarrow> nat \<Rightarrow> js_any \<Rightarrow> nat" where
  "float_bits w m MinusZero = 2 ^ (w + m)"
| "float_bits w m (Value (JNumber n)) = number_bits w m n"
| "float_bits w m _ = 0"

definition magnitude :: "nat \<Rightarrow> nat \<Rightarrow> nat \<Rightarrow> jsnum" where
  "magnitude w m n =
     (let e = n div 2 ^ m; f = n mod 2 ^ m
      in if e = 2 ^ w - 1 then (if f = 0 then PosInf else NaN)
         else if e = 0 then Fin (of_nat f * 2 powi ulp_min w m)
         else Fin (of_nat (2 ^ m + f) * 2 powi (int e - 1 + ulp_min w m)))"

definition with_sign :: "bool \<Rightarrow> jsnum \<Rightarrow> js_any" where
  "with_sign negative v =
     (if \<not> negative then Value (JNumber v)
      else if v = Fin 0 then MinusZero else Value (JNumber (num_neg v)))"

definition float_value :: "nat \<Rightarrow> nat \<Rightarrow> nat \<Rightarrow> js_any" where
  "float_value w m n = with_sign (2 ^ (w + m) \<le> n) (magnitude w m (n mod 2 ^ (w + m)))"

section \<open>What survives: rounding to the format\<close>

definition rounded :: "nat \<Rightarrow> nat \<Rightarrow> rat \<Rightarrow> jsnum" where
  "rounded w m x =
     (if x = 0 then Fin 0
      else let r = of_nat (significand w m x) * 2 powi ulp_of w m x
           in if 2 ^ (2 ^ (w - 1)) \<le> r then PosInf else Fin r)"

fun to_format :: "nat \<Rightarrow> nat \<Rightarrow> js_any \<Rightarrow> js_any" where
  "to_format w m (Value (JNumber (Fin x))) = with_sign (x < 0) (rounded w m \<bar>x\<bar>)"
| "to_format w m v = v"

text \<open>A format has exponents and a fraction.\<close>

definition a_format :: "nat \<Rightarrow> nat \<Rightarrow> bool" where
  "a_format w m \<longleftrightarrow> 2 \<le> w \<and> 0 < m"

lemma half_range: "a_format w m \<Longrightarrow> \<exists>h :: nat. 2 ^ w = 2 * h \<and> 2 ^ (w - 1) = h \<and> 2 \<le> h"
proof -
  assume "a_format w m"
  then obtain k where "w = Suc (Suc k)" by (metis a_format_def Suc_le_D numeral_2_eq_2 Suc_le_mono)
  then show ?thesis by (intro exI [of _ "2 * 2 ^ k"]) simp
qed

lemma pow2_shift: "(2 :: rat) ^ k * 2 powi e = 2 powi (int k + e)"
  by (simp add: power_int_add)

lemma significand_le:
  assumes "0 < x"
  shows "significand w m x \<le> 2 ^ (m + 1)"
    and "ulp_min w m < ulp_of w m x \<Longrightarrow> 2 ^ m \<le> significand w m x"
proof -
  let ?u = "ulp_of w m x" and ?e = "exponent_of x"
  have "x < 2 powi (?e + 1)" by (rule exponent_of_bounds(2) [OF assms])
  also have "\<dots> \<le> 2 powi (?u + int (m + 1))" by (intro power_int_increasing) (simp_all add: ulp_of_def)
  also have "\<dots> = 2 ^ (m + 1) * 2 powi ?u" by (simp add: power_int_add)
  finally have "x / 2 powi ?u \<le> of_int (2 ^ (m + 1))" by (simp add: pos_divide_le_eq)
  then have "round_even (x / 2 powi ?u) \<le> 2 ^ (m + 1)" using round_even_mono round_even_of_int by metis
  then show "significand w m x \<le> 2 ^ (m + 1)" by (simp add: significand_def nat_le_iff)
  assume "ulp_min w m < ?u"
  then have "?e = ?u + int m" by (auto simp: ulp_of_def)
  then have "2 ^ m * 2 powi ?u \<le> x" using exponent_of_bounds(1) [OF assms] by (simp add: power_int_add mult.commute)
  then have "of_int (2 ^ m) \<le> x / 2 powi ?u" by (simp add: pos_le_divide_eq)
  then have "2 ^ m \<le> round_even (x / 2 powi ?u)" using round_even_mono round_even_of_int by metis
  then show "2 ^ m \<le> significand w m x" by (simp add: significand_def le_nat_iff)
qed

text \<open>Decoding a number with the significand \<open>j\<close> of \<open>m + 1\<close> bits, in binade \<open>d\<close>.\<close>

lemma magnitude_normal:
  assumes w: "a_format w m" and j: "2 ^ m \<le> j" "j < 2 ^ (m + 1)"
  shows "magnitude w m (min (d * 2 ^ m + j) (infinity_bits w m)) =
    (let r = of_nat j * 2 powi (int d + ulp_min w m) in if 2 ^ (2 ^ (w - 1)) \<le> r then PosInf else Fin r)"
proof -
  obtain h :: nat where h: "2 ^ w = 2 * h" "2 ^ (w - 1) = h" "2 \<le> h" using half_range [OF w] by blast
  have hi: "(2 :: int) ^ (w - 1) = int h" using h(2) by (metis of_nat_numeral of_nat_power)
  define f where "f = j - 2 ^ m"
  have f: "j = 2 ^ m + f" "f < 2 ^ m" using j by (simp_all add: f_def)
  let ?r = "of_nat j * 2 powi (int d + ulp_min w m) :: rat"
  have n: "d * 2 ^ m + j = (d + 1) * 2 ^ m + f" using f(1) by simp
  show ?thesis
  proof (cases "d + 1 < 2 * h - 1")
    case True
    have "(d + 1) * 2 ^ m + f < (d + 2) * 2 ^ m" using f(2) by simp
    also have "\<dots> \<le> (2 * h - 1) * 2 ^ m" using True by (intro mult_right_mono) simp_all
    finally have "min (d * 2 ^ m + j) (infinity_bits w m) = (d + 1) * 2 ^ m + f"
      unfolding n infinity_bits_def h(1) by simp
    moreover have "((d + 1) * 2 ^ m + f) div 2 ^ m = d + 1" "((d + 1) * 2 ^ m + f) mod 2 ^ m = f"
      using f(2) by (simp_all add: div_mult_self3 del: mult_Suc)
    moreover have "?r < 2 ^ h"
    proof -
      have "(of_nat j :: rat) < of_nat (2 ^ (m + 1))" using j(2) by (simp only: of_nat_less_iff)
      then have "?r < 2 ^ (m + 1) * 2 powi (int d + ulp_min w m)" by simp
      also have "\<dots> = 2 powi (int (m + 1) + (int d + ulp_min w m))" by (rule pow2_shift)
      also have "\<dots> \<le> 2 powi int h"
        using True by (intro power_int_increasing) (simp_all add: ulp_min_def hi del: One_nat_def)
      finally show ?thesis by simp
    qed
    ultimately show ?thesis using True f(1) unfolding magnitude_def h(1,2) by (simp add: Let_def not_le)
  next
    case False
    have "(2 * h - 1) * 2 ^ m \<le> (d + 1) * 2 ^ m" using False by (intro mult_right_mono) simp_all
    then have "min (d * 2 ^ m + j) (infinity_bits w m) = (2 * h - 1) * 2 ^ m"
      unfolding n infinity_bits_def h(1) by simp
    moreover have "2 ^ h \<le> ?r"
    proof -
      have "2 ^ h = (2 powi int h :: rat)" by simp
      also have "\<dots> \<le> 2 powi (int m + (int d + ulp_min w m))"
        using False h(3) by (intro power_int_increasing) (simp_all add: ulp_min_def hi del: One_nat_def)
      also have "\<dots> = 2 ^ m * 2 powi (int d + ulp_min w m)" by (rule pow2_shift [symmetric])
      also have "\<dots> \<le> ?r"
      proof (rule mult_right_mono)
        have "(of_nat (2 ^ m) :: rat) \<le> of_nat j" using j(1) by (simp only: of_nat_le_iff)
        then show "(2 ^ m :: rat) \<le> of_nat j" by simp
      qed simp
      finally show ?thesis .
    qed
    ultimately show ?thesis unfolding magnitude_def h(1,2) by simp
  qed
qed

lemma magnitude_subnormal:
  assumes "a_format w m" "j < 2 ^ m"
  shows "magnitude w m (min j (infinity_bits w m)) = Fin (of_nat j * 2 powi ulp_min w m)"
    "(of_nat j * 2 powi ulp_min w m :: rat) < 2 ^ (2 ^ (w - 1))"
proof -
  obtain h :: nat where h: "2 ^ w = 2 * h" "2 ^ (w - 1) = h" "2 \<le> h" using half_range [OF assms(1)] by blast
  have hi: "(2 :: int) ^ (w - 1) = int h" using h(2) by (metis of_nat_numeral of_nat_power)
  have "1 * 2 ^ m \<le> (2 * h - 1) * 2 ^ m" using h(3) by (intro mult_right_mono) simp_all
  then have "j \<le> (2 * h - 1) * 2 ^ m" using assms(2) by linarith
  then have "min j (infinity_bits w m) = j" by (simp add: infinity_bits_def h)
  then show "magnitude w m (min j (infinity_bits w m)) = Fin (of_nat j * 2 powi ulp_min w m)"
    using assms(2) h(3) unfolding magnitude_def h(1) by simp
  have "(of_nat j :: rat) < of_nat (2 ^ m)" using assms(2) by (simp only: of_nat_less_iff)
  then have "of_nat j * 2 powi ulp_min w m < (2 ^ m * 2 powi ulp_min w m :: rat)" by simp
  also have "\<dots> = 2 powi (int m + ulp_min w m)" by (rule pow2_shift)
  also have "\<dots> \<le> 2 powi int h" using h(3) by (intro power_int_increasing) (simp_all add: ulp_min_def hi del: One_nat_def)
  finally show "(of_nat j * 2 powi ulp_min w m :: rat) < 2 ^ (2 ^ (w - 1))" unfolding h(2) by simp
qed

lemma magnitude_back:
  assumes w: "a_format w m" and x: "0 \<le> x"
  shows "magnitude w m (magnitude_bits w m x) = rounded w m x"
proof (cases "x = 0")
  case True
  then show ?thesis using magnitude_subnormal(1) [OF w, of 0] by (simp add: magnitude_bits_def rounded_def)
next
  case False
  then have pos: "0 < x" using x by simp
  define d k where "d = nat (ulp_of w m x - ulp_min w m)" and "k = significand w m x"
  have u: "ulp_of w m x = int d + ulp_min w m" by (simp add: d_def ulp_of_def)
  have bits: "magnitude_bits w m x = min (d * 2 ^ m + k) (infinity_bits w m)"
    using False by (simp add: magnitude_bits_def d_def k_def)
  have r: "rounded w m x = (let r = of_nat k * 2 powi (int d + ulp_min w m) in if 2 ^ (2 ^ (w - 1)) \<le> r then PosInf else Fin r)"
    using False by (simp add: rounded_def k_def u)
  have k: "k \<le> 2 ^ (m + 1)" "0 < d \<Longrightarrow> 2 ^ m \<le> k"
    using significand_le [OF pos, of w m] by (simp_all add: k_def d_def)
  consider "k < 2 ^ m" "d = 0" | "2 ^ m \<le> k" "k < 2 ^ (m + 1)" | "k = 2 ^ (m + 1)"
    using k by fastforce
  then show ?thesis
  proof cases
    case 1
    then show ?thesis using magnitude_subnormal [OF w 1(1)] by (simp add: bits r)
  next
    case 2
    then show ?thesis unfolding bits r by (intro magnitude_normal [OF w])
  next
    case 3
    have r': "(of_nat k :: rat) * 2 powi (int d + ulp_min w m) = of_nat (2 ^ m) * 2 powi (int (d + 1) + ulp_min w m)"
      unfolding 3 by (simp add: power_int_add)
    have b': "d * 2 ^ m + k = (d + 1) * 2 ^ m + 2 ^ m" unfolding 3 by simp
    show ?thesis unfolding bits r r' b' by (intro magnitude_normal [OF w]) simp_all
  qed
qed

lemma infinity_less: "infinity_bits w m + 2 ^ m = 2 ^ (w + m)"
  by (simp add: infinity_bits_def power_add diff_mult_distrib)

lemma magnitude_bits_less: "magnitude_bits w m x < 2 ^ (w + m)"
  by (auto simp: magnitude_bits_def min_less_iff_disj simp flip: infinity_less)

lemma number_bits_less: "a_format w m \<Longrightarrow> number_bits w m n < 2 ^ (w + m + 1)"
proof -
  assume "a_format w m"
  then have p: "(2 :: nat) ^ (m - 1) < 2 ^ m" by (simp add: a_format_def)
  have i: "infinity_bits w m < 2 ^ (w + m)" by (simp flip: infinity_less)
  show ?thesis
  proof (cases n)
    case NaN
    then show ?thesis unfolding number_bits.simps NaN using p infinity_less [of w m] unfolding power_add power_one_right by linarith
  next
    case (Fin x)
    then show ?thesis
      using magnitude_bits_less [of w m "\<bar>x\<bar>"] unfolding Fin number_bits.simps by (cases "x < 0") simp_all
  qed (use i in simp_all)
qed

lemma float_bits_less: "a_format w m \<Longrightarrow> float_bits w m v < 2 ^ (w + m + 1)"
  using number_bits_less by (cases "(w, m, v)" rule: float_bits.cases) simp_all

lemma magnitude_special:
  assumes "a_format w m"
  shows "magnitude w m (infinity_bits w m) = PosInf" "magnitude w m (infinity_bits w m + 2 ^ (m - 1)) = NaN"
proof -
  have "(2 :: nat) ^ (m - 1) < 2 ^ m" using assms by (simp add: a_format_def)
  then show "magnitude w m (infinity_bits w m) = PosInf" "magnitude w m (infinity_bits w m + 2 ^ (m - 1)) = NaN"
    by (simp_all add: magnitude_def infinity_bits_def)
qed

lemma float_value_plus: "n < 2 ^ (w + m) \<Longrightarrow> float_value w m n = Value (JNumber (magnitude w m n))"
  by (simp add: float_value_def with_sign_def)

lemma float_value_minus: "n < 2 ^ (w + m) \<Longrightarrow> float_value w m (2 ^ (w + m) + n) = with_sign True (magnitude w m n)"
  by (simp add: float_value_def)

fun any_number :: "js_any \<Rightarrow> bool" where
  "any_number (Value (JNumber _)) = True"
| "any_number MinusZero = True"
| "any_number _ = False"

lemma float_back:
  assumes w: "a_format w m" and v: "any_number v"
  shows "float_value w m (float_bits w m v) = to_format w m v"
proof (cases v)
  case MinusZero
  then show ?thesis
    using float_value_minus [of 0 w m] magnitude_subnormal(1) [OF w, of 0] by (simp add: with_sign_def)
next
  case (Value a)
  with v obtain n where n: "v = Value (JNumber n)" by (cases a) simp_all
  have "(2 :: nat) ^ (m - 1) < 2 ^ m" using w by (simp add: a_format_def)
  then have i: "infinity_bits w m < 2 ^ (w + m)" "infinity_bits w m + 2 ^ (m - 1) < 2 ^ (w + m)"
    using infinity_less [of w m] by (simp_all flip: infinity_less)
  show ?thesis
  proof (cases n)
    case (Fin x)
    then show ?thesis
      using magnitude_bits_less [of w m "\<bar>x\<bar>"] magnitude_back [OF w, of "\<bar>x\<bar>"]
      by (auto simp: n float_value_minus float_value_plus with_sign_def)
  qed (use i magnitude_special [OF w] in \<open>simp_all add: n float_value_plus float_value_minus with_sign_def\<close>)
qed

section \<open>Binary64 is the number itself\<close>

lemma rounded_64: "0 \<le> x \<Longrightarrow> rounded 11 52 x = round_num x"
proof -
  assume x: "0 \<le> x"
  have u: "x \<noteq> 0 \<Longrightarrow> ulp_of 11 52 x = ulp_exp x" using x by (simp add: ulp_of_def ulp_exp_def ulp_min_def)
  have "0 \<le> \<lfloor>x / 2 powi ulp_exp x\<rfloor>" using x by (simp add: zero_le_floor)
  then have k: "0 \<le> round_even (x / 2 powi ulp_exp x)" using round_even_bounds(1) [of "x / 2 powi ulp_exp x"] by linarith
  have "x \<noteq> 0 \<Longrightarrow> of_nat (significand 11 52 x) * 2 powi ulp_of 11 52 x = fl64 x"
    using k by (simp add: significand_def fl64_def u)
  moreover have "\<not> fl64 x \<le> - (2 ^ 1024)"
    using fl64_nonneg [OF x] by (meson neg_less_0_iff_less not_le order_less_le_trans zero_less_numeral zero_less_power)
  ultimately show ?thesis by (auto simp: rounded_def round_num_def Let_def)
qed

text \<open>A value that a variable can hold: every finite number is a double.\<close>

fun proper_number :: "js_any \<Rightarrow> bool" where
  "proper_number (Value (JNumber (Fin x))) = finite_double \<bar>x\<bar>"
| "proper_number v = any_number v"

lemma to_format_64: "proper_number v \<Longrightarrow> to_format 11 52 v = v"
proof (cases "(11 :: nat, 52 :: nat, v)" rule: to_format.cases)
  case (1 w m x)
  assume v: "proper_number v"
  then have "fl64 \<bar>x\<bar> = \<bar>x\<bar>" "\<bar>x\<bar> < 2 ^ 1024" using 1 by (simp_all add: finite_double_def is_double_def)
  moreover then have "\<not> \<bar>x\<bar> \<le> - (2 ^ 1024)" by linarith
  ultimately have "round_num \<bar>x\<bar> = Fin \<bar>x\<bar>" by (simp add: round_num_def)
  then show ?thesis using 1 by (auto simp: rounded_64 with_sign_def)
qed simp_all

end
