(* ===== verification/Codec.thy ===== *)
theory Codec
  imports JS_Base
begin

text \<open>
  The contract of a wire codec, as its clients use it: on valid values the encoder produces
  bytes, and the decoder gives the value back. Codecs that carry another codec's output
  compose.
\<close>

locale wire_codec =
  fixes enc :: "'m \<Rightarrow> bytes result"
    and dcd :: "bytes \<Rightarrow> 'm option"
    and valid :: "'m \<Rightarrow> bool"
  assumes enc_total: "valid m \<Longrightarrow> \<exists>b. enc m = Inr b"
    and dcd_enc: "valid m \<Longrightarrow> enc m = Inr b \<Longrightarrow> dcd b = Some m"
begin

lemma enc_inj:
  assumes "valid m" "valid m'" "enc m = enc m'"
  shows "m = m'"
proof -
  obtain b where b: "enc m = Inr b" using enc_total [OF assms(1)] by blast
  then have "enc m' = Inr b" by (simp only: assms(3) [symmetric])
  from dcd_enc [OF assms(2) this] dcd_enc [OF assms(1) b] show ?thesis by simp
qed

lemma transmit:
  assumes "valid m"
  shows "\<exists>b. enc m = Inr b \<and> dcd b = Some m"
  using enc_total [OF assms] dcd_enc [OF assms] by blast

text \<open>A frame is the encoding of at most one valid value.\<close>

lemma unambiguous: "valid m \<Longrightarrow> valid m' \<Longrightarrow> enc m = Inr b \<Longrightarrow> enc m' = Inr b \<Longrightarrow> m = m'"
  using dcd_enc [of m b] dcd_enc [of m' b] by simp

end

text \<open>
  A transport that wraps a frame with an address of type \<open>'a\<close>: the stack of a message codec
  and an envelope is a codec for pairs.
\<close>

locale enveloped_codec = wire_codec enc dcd valid
  for enc :: "'m \<Rightarrow> bytes result" and dcd valid +
  fixes wrap :: "'a \<Rightarrow> bytes \<Rightarrow> bytes result"
    and unwrap :: "bytes \<Rightarrow> ('a \<times> bytes) option"
    and addr_ok :: "'a \<Rightarrow> bool"
  assumes wrap_total: "addr_ok a \<Longrightarrow> \<exists>e. wrap a b = Inr e"
    and unwrap_wrap: "addr_ok a \<Longrightarrow> wrap a b = Inr e \<Longrightarrow> unwrap e = Some (a, b)"
begin

definition enc_pair :: "'a \<times> 'm \<Rightarrow> bytes result" where
  "enc_pair p = bindE (enc (snd p)) (wrap (fst p))"

definition dcd_pair :: "bytes \<Rightarrow> ('a \<times> 'm) option" where
  "dcd_pair e = Option.bind (unwrap e) (\<lambda>(a, b). map_option (Pair a) (dcd b))"

lemma wrap_inner:
  assumes "addr_ok a" "valid m"
  shows "\<exists>b e. enc m = Inr b \<and> wrap a b = Inr e \<and> unwrap e = Some (a, b) \<and> dcd b = Some m"
proof -
  obtain b where b: "enc m = Inr b" "dcd b = Some m" using transmit [OF assms(2)] by blast
  obtain e where e: "wrap a b = Inr e" using wrap_total [OF assms(1)] by blast
  with b unwrap_wrap [OF assms(1) e] show ?thesis by blast
qed

end

sublocale enveloped_codec \<subseteq> pair: wire_codec enc_pair dcd_pair "\<lambda>p. addr_ok (fst p) \<and> valid (snd p)"
proof unfold_locales
  fix p :: "'a \<times> 'm"
  assume ok: "addr_ok (fst p) \<and> valid (snd p)"
  then obtain b e where *: "enc (snd p) = Inr b" "wrap (fst p) b = Inr e"
    "unwrap e = Some (fst p, b)" "dcd b = Some (snd p)"
    using wrap_inner [of "fst p" "snd p"] by blast
  show "\<exists>b. enc_pair p = Inr b"
    using * by (simp add: enc_pair_def)
  fix e'
  assume "enc_pair p = Inr e'"
  with * show "dcd_pair e' = Some p" by (simp add: enc_pair_def dcd_pair_def)
qed

end
