(* ===== verification/Message.thy ===== *)
theory Message
  imports Json_Parse Codec
begin

text \<open>
  The server's message codec, \<^verbatim>\<open>server/node/message.js\<close>: \<^verbatim>\<open>create_message\<close>, its method
  \<^verbatim>\<open>encode\<close> (which fills a buffer of uninitialised memory) and \<^verbatim>\<open>decode_message\<close>.
\<close>

section \<open>Messages\<close>

definition PROTOCOL_VERSION :: jsnum where
  "PROTOCOL_VERSION = Fin 1"

definition DEFAULT_FLAGS :: jsnum where
  "DEFAULT_FLAGS = Fin 0"

definition HEADER_OVERHEAD :: nat where
  "HEADER_OVERHEAD = 12"

record message =
  msg_room :: js_string
  msg_event :: js_string
  msg_dst :: js_string
  msg_src :: js_string
  msg_payload :: bytes
  msg_version :: jsnum
  msg_flags :: jsnum

definition is_buffer :: "jsval \<Rightarrow> bool" where
  "is_buffer v = (case v of JBuffer _ \<Rightarrow> True | _ \<Rightarrow> False)"

text \<open>A Buffer is a Uint8Array too.\<close>

definition is_uint8_array :: "jsval \<Rightarrow> bool" where
  "is_uint8_array v = (case v of JUint8Array _ \<Rightarrow> True | JBuffer _ \<Rightarrow> True | _ \<Rightarrow> False)"

definition payload_bytes :: "jsval \<Rightarrow> bytes" where
  "payload_bytes payload_data =
     (case payload_data of
        JString s \<Rightarrow> utf8_encode s
      | JBuffer b \<Rightarrow> b
      | JUint8Array b \<Rightarrow> b
      | JObject j \<Rightarrow> utf8_encode (json_stringify j)
      | JArrayBuffer _ \<Rightarrow> utf8_encode (json_stringify (JsObj []))
      | _ \<Rightarrow> [])"

definition create_message ::
  "jsval \<Rightarrow> jsval \<Rightarrow> jsval \<Rightarrow> jsval \<Rightarrow> jsval \<Rightarrow> jsval \<Rightarrow> jsval \<Rightarrow> message" where
  "create_message room_name event_name dst_id src_id payload_data version flags =
     \<lparr>msg_room = string_or room_name [],
      msg_event = string_or event_name [],
      msg_dst = string_or dst_id [],
      msg_src = string_or src_id [],
      msg_payload = payload_bytes payload_data,
      msg_version = positive_or version PROTOCOL_VERSION,
      msg_flags = number_or flags DEFAULT_FLAGS\<rparr>"

definition payloadString :: "message \<Rightarrow> js_string" where
  "payloadString m = utf8_decode (msg_payload m)"

text \<open>The text of a SyntaxError is the engine's own.\<close>

definition payloadJSON :: "message \<Rightarrow> json result" where
  "payloadJSON m =
     (if msg_payload m = [] then Inl (PlainError (jstr ''Payload is empty''))
      else case parse_json (payloadString m) of
        Some v \<Rightarrow> Inr v
      | None \<Rightarrow> Inl (SyntaxError []))"

section \<open>Encoding\<close>

definition room_too_long :: js_error where
  "room_too_long = RangeError (jstr ''Room name exceeds uint16 maximum length (65535 bytes)'')"

definition event_too_long :: js_error where
  "event_too_long = RangeError (jstr ''Event name exceeds uint16 maximum length (65535 bytes)'')"

definition dst_too_long :: js_error where
  "dst_too_long = RangeError (jstr ''Destination ID exceeds uint8 maximum length (255 bytes)'')"

definition src_too_long :: js_error where
  "src_too_long = RangeError (jstr ''Source ID exceeds uint8 maximum length (255 bytes)'')"

text \<open>
  \<^verbatim>\<open>Buffer.allocUnsafe(n)\<close> returns \<open>n\<close> bytes of uninitialised memory: the allocator is an
  argument, of which only the length of its result is known.
\<close>

definition encode :: "(nat \<Rightarrow> bytes) \<Rightarrow> message \<Rightarrow> bytes result" where
  "encode alloc m =
     (let room_buf = utf8_encode (msg_room m);
          event_buf = utf8_encode (msg_event m);
          dst_buf = utf8_encode (msg_dst m);
          src_buf = utf8_encode (msg_src m);
          payload = msg_payload m in
      if 65535 < length room_buf then Inl room_too_long
      else if 65535 < length event_buf then Inl event_too_long
      else if 255 < length dst_buf then Inl dst_too_long
      else if 255 < length src_buf then Inl src_too_long
      else
        let total_len = HEADER_OVERHEAD + length room_buf + length event_buf + length dst_buf
                        + length src_buf + length payload;
            buf = alloc total_len;
            offset = 0 in
        bindE (write_u8 (msg_version m) buf offset) (\<lambda>buf. let offset = offset + 1 in
        bindE (write_u8 (msg_flags m) buf offset) (\<lambda>buf. let offset = offset + 1 in
        bindE (write_u16 (length room_buf) buf offset) (\<lambda>buf.
          let offset = offset + 2; buf = buf_copy room_buf buf offset;
              offset = offset + length room_buf in
        bindE (write_u16 (length event_buf) buf offset) (\<lambda>buf.
          let offset = offset + 2; buf = buf_copy event_buf buf offset;
              offset = offset + length event_buf in
        bindE (write_u8 (js_nat (length dst_buf)) buf offset) (\<lambda>buf.
          let offset = offset + 1; buf = buf_copy dst_buf buf offset;
              offset = offset + length dst_buf in
        bindE (write_u8 (js_nat (length src_buf)) buf offset) (\<lambda>buf.
          let offset = offset + 1; buf = buf_copy src_buf buf offset;
              offset = offset + length src_buf in
        bindE (write_u32 (length payload) buf offset) (\<lambda>buf.
          let offset = offset + 4 in
          Inr (buf_copy payload buf offset)))))))))"

section \<open>Decoding\<close>

text \<open>\<^verbatim>\<open>typeof max === "number" && max > 0 && buf.length > max\<close>\<close>

definition exceeds_max :: "nat \<Rightarrow> jsval \<Rightarrow> bool" where
  "exceeds_max n max_message_size =
     (case max_message_size of
        JNumber k \<Rightarrow> num_less (Fin 0) k \<and> num_less k (js_nat n) | _ \<Rightarrow> False)"

definition decode_buf :: "bytes \<Rightarrow> jsval \<Rightarrow> message option result" where
  "decode_buf buf max_message_size =
     (if length buf < HEADER_OVERHEAD then Inr None
      else if exceeds_max (length buf) max_message_size then Inr None
      else
        let offset = 0 in
        bindE (read_u8 buf offset) (\<lambda>version. let offset = offset + 1 in
        bindE (read_u8 buf offset) (\<lambda>flags. let offset = offset + 1 in
        bindE (read_u16 buf offset) (\<lambda>room_len. let offset = offset + 2 in
        if length buf < offset + room_len then Inr None else
        let room = to_utf8_string buf offset (offset + room_len); offset = offset + room_len in
        if length buf < offset + 2 then Inr None else
        bindE (read_u16 buf offset) (\<lambda>event_len. let offset = offset + 2 in
        if length buf < offset + event_len then Inr None else
        let event = to_utf8_string buf offset (offset + event_len); offset = offset + event_len in
        if length buf < offset + 1 then Inr None else
        bindE (read_u8 buf offset) (\<lambda>dst_len. let offset = offset + 1 in
        if length buf < offset + dst_len then Inr None else
        let dst = to_utf8_string buf offset (offset + dst_len); offset = offset + dst_len in
        if length buf < offset + 1 then Inr None else
        bindE (read_u8 buf offset) (\<lambda>src_len. let offset = offset + 1 in
        if length buf < offset + src_len then Inr None else
        let src = to_utf8_string buf offset (offset + src_len); offset = offset + src_len in
        if length buf < offset + 4 then Inr None else
        bindE (read_u32 buf offset) (\<lambda>payload_len. let offset = offset + 4 in
        if offset + payload_len \<noteq> length buf then Inr None else
        let payload = subarray buf offset (offset + payload_len) in
        Inr (Some (create_message (JString room) (JString event) (JString dst) (JString src)
               (JBuffer payload) (JNumber (js_nat version)) (JNumber (js_nat flags))))))))))))"

definition decode_message :: "jsval \<Rightarrow> jsval \<Rightarrow> message option result" where
  "decode_message data max_message_size =
     (case data of
        JBuffer b \<Rightarrow> decode_buf b max_message_size
      | JUint8Array b \<Rightarrow> decode_buf b max_message_size
      | _ \<Rightarrow> Inr None)"

section \<open>The wire format\<close>

text \<open>The twelve bytes of header and the five variable fields, as the documentation draws them.\<close>

definition raw_frame :: "byte \<Rightarrow> byte \<Rightarrow> bytes \<Rightarrow> bytes \<Rightarrow> bytes \<Rightarrow> bytes \<Rightarrow> bytes \<Rightarrow> bytes" where
  "raw_frame v f room event dst src payload =
     [v, f] @ u16_be (length room) @ room @ u16_be (length event) @ event
     @ [of_nat (length dst)] @ dst @ [of_nat (length src)] @ src
     @ u32_be (length payload) @ payload"

definition fields_fit :: "bytes \<Rightarrow> bytes \<Rightarrow> bytes \<Rightarrow> bytes \<Rightarrow> bytes \<Rightarrow> bool" where
  "fields_fit room event dst src payload \<longleftrightarrow>
     length room \<le> 65535 \<and> length event \<le> 65535 \<and> length dst \<le> 255 \<and> length src \<le> 255 \<and>
     length payload < 4294967296"

text \<open>What a frame means to the decoder.\<close>

definition frame_message :: "byte \<Rightarrow> byte \<Rightarrow> bytes \<Rightarrow> bytes \<Rightarrow> bytes \<Rightarrow> bytes \<Rightarrow> bytes \<Rightarrow> message" where
  "frame_message v f room event dst src payload =
     \<lparr>msg_room = utf8_decode room, msg_event = utf8_decode event, msg_dst = utf8_decode dst,
      msg_src = utf8_decode src, msg_payload = payload,
      msg_version = (if v = 0 then PROTOCOL_VERSION else js_nat (unat v)),
      msg_flags = js_nat (unat f)\<rparr>"

lemma length_raw_frame:
  "length (raw_frame v f room event dst src payload) =
     HEADER_OVERHEAD + length room + length event + length dst + length src + length payload"
  by (simp add: raw_frame_def HEADER_OVERHEAD_def)

subsection \<open>The encoder writes the wire format\<close>

lemma write_u8_ok:
  "u8_of_num v = Inr b \<Longrightarrow> off = length pre \<Longrightarrow> length pre + 1 \<le> length mem \<Longrightarrow>
     write_u8 v (filled pre mem) off = Inr (filled (pre @ [b]) mem)"
  by (simp add: write_u8_def buf_put_filled)

lemma write_u16_ok:
  "n \<le> 65535 \<Longrightarrow> off = length pre \<Longrightarrow> length pre + 2 \<le> length mem \<Longrightarrow>
     write_u16 n (filled pre mem) off = Inr (filled (pre @ u16_be n) mem)"
  by (simp add: write_u16_def buf_put_filled)

lemma write_u32_ok:
  "n < 4294967296 \<Longrightarrow> off = length pre \<Longrightarrow> length pre + 4 \<le> length mem \<Longrightarrow>
     write_u32 n (filled pre mem) off = Inr (filled (pre @ u32_be n) mem)"
  by (simp add: write_u32_def buf_put_filled)

lemma u8_of_num_nat: "n \<le> 255 \<Longrightarrow> u8_of_num (js_nat n) = Inr (of_nat n)"
  by (simp add: u8_of_num_def)

lemmas encode_steps = write_u8_ok write_u16_ok write_u32_ok buf_copy_filled u8_of_num_nat

lemma encode_fits:
  assumes alloc: "\<And>n. length (alloc n) = n"
    and fit: "fields_fit (utf8_encode (msg_room m)) (utf8_encode (msg_event m))
        (utf8_encode (msg_dst m)) (utf8_encode (msg_src m)) (msg_payload m)"
    and v: "u8_of_num (msg_version m) = Inr v" and f: "u8_of_num (msg_flags m) = Inr f"
  shows "encode alloc m = Inr (raw_frame v f (utf8_encode (msg_room m)) (utf8_encode (msg_event m))
           (utf8_encode (msg_dst m)) (utf8_encode (msg_src m)) (msg_payload m))"
proof -
  define rb eb db sb p where defs: "rb = utf8_encode (msg_room m)" "eb = utf8_encode (msg_event m)"
    "db = utf8_encode (msg_dst m)" "sb = utf8_encode (msg_src m)" "p = msg_payload m"
  define mem where "mem = alloc (HEADER_OVERHEAD + length rb + length eb + length db + length sb + length p)"
  have mem: "alloc (HEADER_OVERHEAD + length rb + length eb + length db + length sb + length p) = filled [] mem"
    by (simp add: mem_def filled_def)
  have len: "length mem = 12 + length rb + length eb + length db + length sb + length p"
    by (simp add: mem_def alloc HEADER_OVERHEAD_def)
  have fits: "length rb \<le> 65535" "length eb \<le> 65535" "length db \<le> 255" "length sb \<le> 255"
    "length p < 4294967296"
    using fit by (simp_all add: fields_fit_def defs)
  show ?thesis
    unfolding encode_def Let_def defs [symmetric] mem
    using fits by (simp add: encode_steps v f len filled_all raw_frame_def)
qed

subsection \<open>The decoder reads exactly the wire format\<close>

lemma bindE_eq_Inr: "bindE r f = Inr y \<longleftrightarrow> (\<exists>x. r = Inr x \<and> f x = Inr y)"
  by (cases r) auto

lemma if_None_eq_Some: "(if c then Inr None else r) = Inr (Some m) \<longleftrightarrow> \<not> c \<and> r = Inr (Some m)"
  by simp

lemma version_of_byte:
  "positive_or (JNumber (js_nat (unat (v :: byte)))) PROTOCOL_VERSION =
     (if v = 0 then PROTOCOL_VERSION else js_nat (unat v))"
proof -
  have "(0 :: rat) < of_nat (unat v) \<longleftrightarrow> v \<noteq> 0"
    by (simp only: of_nat_0_less_iff unat_gt_0)
  then show ?thesis by (simp only: positive_or_simps num_less.simps) simp
qed

lemma unat_of_nat_byte: "n < 256 \<Longrightarrow> unat (of_nat n :: byte) = n"
  by (rule unat_of_nat_u8)

text \<open>What the reads of a decoder give on a frame, followed by anything.\<close>

lemma reads_of_frame:
  assumes fit: "fields_fit room event dst src payload"
    and b_def: "b = raw_frame v f room event dst src payload @ rest"
  shows "read_u8 b 0 = Inr (unat v)" "read_u8 b (0 + 1) = Inr (unat f)"
    and "read_u16 b (0 + 1 + 1) = Inr (length room)"
    and "subarray b (0 + 1 + 1 + 2) (0 + 1 + 1 + 2 + length room) = room"
    and "read_u16 b (0 + 1 + 1 + 2 + length room) = Inr (length event)"
    and "subarray b (0 + 1 + 1 + 2 + length room + 2) (0 + 1 + 1 + 2 + length room + 2 + length event) = event"
    and "read_u8 b (0 + 1 + 1 + 2 + length room + 2 + length event) = Inr (length dst)"
    and "subarray b (0 + 1 + 1 + 2 + length room + 2 + length event + 1)
           (0 + 1 + 1 + 2 + length room + 2 + length event + 1 + length dst) = dst"
    and "read_u8 b (0 + 1 + 1 + 2 + length room + 2 + length event + 1 + length dst) = Inr (length src)"
    and "subarray b (0 + 1 + 1 + 2 + length room + 2 + length event + 1 + length dst + 1)
           (0 + 1 + 1 + 2 + length room + 2 + length event + 1 + length dst + 1 + length src) = src"
    and "read_u32 b (0 + 1 + 1 + 2 + length room + 2 + length event + 1 + length dst + 1 + length src)
           = Inr (length payload)"
    and "subarray b (0 + 1 + 1 + 2 + length room + 2 + length event + 1 + length dst + 1 + length src + 4)
           (0 + 1 + 1 + 2 + length room + 2 + length event + 1 + length dst + 1 + length src + 4 + length payload)
           = payload"
proof -
  let ?o2 = "0 + 1 + 1 + 2 :: nat"
  let ?o3 = "?o2 + length room + 2" let ?o4 = "?o3 + length event + 1"
  let ?o5 = "?o4 + length dst + 1" let ?o6 = "?o5 + length src + 4"
  have fits: "length room < 65536" "length event < 65536" "length dst < 256" "length src < 256"
    "length payload < 4294967296"
    using fit by (simp_all add: fields_fit_def)
  have at0: "b = [] @ v # [f] @ drop 2 b"
    and at1: "b = [v] @ f # drop 2 b"
    and at2: "b = [v, f] @ u16_be (length room) @ drop ?o2 b"
    and at3: "b = ([v, f] @ u16_be (length room)) @ room @ drop (?o2 + length room) b"
    and at4: "b = ([v, f] @ u16_be (length room) @ room) @ u16_be (length event) @ drop ?o3 b"
    and at5: "b = ([v, f] @ u16_be (length room) @ room @ u16_be (length event)) @ event
                @ drop (?o3 + length event) b"
    and at6: "b = ([v, f] @ u16_be (length room) @ room @ u16_be (length event) @ event)
                @ of_nat (length dst) # drop ?o4 b"
    and at7: "b = ([v, f] @ u16_be (length room) @ room @ u16_be (length event) @ event
                @ [of_nat (length dst)]) @ dst @ drop (?o4 + length dst) b"
    and at8: "b = ([v, f] @ u16_be (length room) @ room @ u16_be (length event) @ event
                @ [of_nat (length dst)] @ dst) @ of_nat (length src) # drop ?o5 b"
    and at9: "b = ([v, f] @ u16_be (length room) @ room @ u16_be (length event) @ event
                @ [of_nat (length dst)] @ dst @ [of_nat (length src)]) @ src @ drop (?o5 + length src) b"
    and at10: "b = ([v, f] @ u16_be (length room) @ room @ u16_be (length event) @ event
                @ [of_nat (length dst)] @ dst @ [of_nat (length src)] @ src)
                @ u32_be (length payload) @ payload @ rest"
    and at11: "b = ([v, f] @ u16_be (length room) @ room @ u16_be (length event) @ event
                @ [of_nat (length dst)] @ dst @ [of_nat (length src)] @ src @ u32_be (length payload))
                @ payload @ rest"
    by (simp_all add: b_def raw_frame_def)
  show "read_u8 b 0 = Inr (unat v)"
    by (subst at0) (rule read_u8_at, simp)
  show "read_u8 b (0 + 1) = Inr (unat f)"
    by (subst at1) (rule read_u8_at, simp)
  show "read_u16 b (0 + 1 + 1) = Inr (length room)"
    by (subst at2) (rule read_u16_at, simp_all add: fits)
  show "subarray b ?o2 (?o2 + length room) = room"
    by (subst at3) (subst subarray_at, simp_all)
  show "read_u16 b (?o2 + length room) = Inr (length event)"
    by (subst at4) (rule read_u16_at, simp_all add: fits)
  show "subarray b ?o3 (?o3 + length event) = event"
    by (subst at5) (subst subarray_at, simp_all)
  show "read_u8 b (?o3 + length event) = Inr (length dst)"
    by (subst at6) (subst read_u8_at, simp_all add: fits)
  show "subarray b ?o4 (?o4 + length dst) = dst"
    by (subst at7) (subst subarray_at, simp_all)
  show "read_u8 b (?o4 + length dst) = Inr (length src)"
    by (subst at8) (subst read_u8_at, simp_all add: fits)
  show "subarray b ?o5 (?o5 + length src) = src"
    by (subst at9) (subst subarray_at, simp_all)
  show "read_u32 b (?o5 + length src) = Inr (length payload)"
    by (subst at10) (rule read_u32_at, simp_all add: fits)
  show "subarray b ?o6 (?o6 + length payload) = payload"
    by (subst at11) (subst subarray_at, simp_all)
qed

text \<open>And back: buffers on which the reads succeed begin with a frame.\<close>

lemma frame_of_reads:
  assumes r0: "read_u8 b 0 = Inr v" and r1: "read_u8 b (0 + 1) = Inr f"
    and r2: "read_u16 b (0 + 1 + 1) = Inr rl"
    and r4: "read_u16 b (0 + 1 + 1 + 2 + rl) = Inr el"
    and r6: "read_u8 b (0 + 1 + 1 + 2 + rl + 2 + el) = Inr dl"
    and r8: "read_u8 b (0 + 1 + 1 + 2 + rl + 2 + el + 1 + dl) = Inr sl"
    and r10: "read_u32 b (0 + 1 + 1 + 2 + rl + 2 + el + 1 + dl + 1 + sl) = Inr pl"
    and g10: "0 + 1 + 1 + 2 + rl + 2 + el + 1 + dl + 1 + sl + 4 + pl \<le> length b"
  shows "\<exists>room event dst src payload rest. fields_fit room event dst src payload \<and>
    b = raw_frame (of_nat v) (of_nat f) room event dst src payload @ rest \<and>
    length room = rl \<and> length event = el \<and> length dst = dl \<and> length src = sl \<and> length payload = pl"
proof -
  define o2 o3 o4 o5 o6 where os: "o2 = 0 + 1 + 1 + (2 :: nat)" "o3 = o2 + rl + 2" "o4 = o3 + el + 1"
    "o5 = o4 + dl + 1" "o6 = o5 + sl + 4"
  define room event dst src payload where fs: "room = subarray b o2 (o2 + rl)"
    "event = subarray b o3 (o3 + el)" "dst = subarray b o4 (o4 + dl)"
    "src = subarray b o5 (o5 + sl)" "payload = subarray b o6 (o6 + pl)"
  have g: "o2 + rl \<le> length b" "o3 + el \<le> length b" "o4 + dl \<le> length b" "o5 + sl \<le> length b"
    "o6 + pl \<le> length b"
    using g10 by (simp_all add: os)
  have bounds: "v < 256" "f < 256" "rl < 65536" "el < 65536" "dl < 256" "sl < 256" "pl < 4294967296"
    using r0 r1 r2 r4 r6 r8 r10 read_u8_bound read_u16_bound read_u32_bound by blast+
  have lens: "length room = rl" "length event = el" "length dst = dl" "length src = sl" "length payload = pl"
    unfolding fs by (rule length_subarray, use g in simp)+
  have "drop 0 b = [of_nat v] @ drop (0 + 1) b" using r0 by (rule drop_u8)
  also have "drop (0 + 1) b = [of_nat f] @ drop (0 + 1 + 1) b" using r1 by (rule drop_u8)
  also have "drop (0 + 1 + 1) b = u16_be rl @ drop o2 b" unfolding os using r2 by (rule drop_u16)
  also have "drop o2 b = room @ drop (o2 + rl) b" unfolding fs using g by (intro drop_subarray)
  also have "drop (o2 + rl) b = u16_be el @ drop o3 b" unfolding os using r4 by (rule drop_u16)
  also have "drop o3 b = event @ drop (o3 + el) b" unfolding fs using g by (intro drop_subarray)
  also have "drop (o3 + el) b = [of_nat dl] @ drop o4 b" unfolding os using r6 by (rule drop_u8)
  also have "drop o4 b = dst @ drop (o4 + dl) b" unfolding fs using g by (intro drop_subarray)
  also have "drop (o4 + dl) b = [of_nat sl] @ drop o5 b" unfolding os using r8 by (rule drop_u8)
  also have "drop o5 b = src @ drop (o5 + sl) b" unfolding fs using g by (intro drop_subarray)
  also have "drop (o5 + sl) b = u32_be pl @ drop o6 b" unfolding os using r10 by (rule drop_u32)
  also have "drop o6 b = payload @ drop (o6 + pl) b" unfolding fs using g by (intro drop_subarray) simp
  finally have "b = raw_frame (of_nat v) (of_nat f) room event dst src payload @ drop (o6 + pl) b"
    using lens by (simp add: raw_frame_def)
  moreover have "fields_fit room event dst src payload"
    using bounds lens by (simp add: fields_fit_def)
  ultimately show ?thesis using lens by blast
qed

lemma decode_raw_frame:
  assumes fit: "fields_fit room event dst src payload"
    and small: "\<not> exceeds_max (length (raw_frame v f room event dst src payload)) mx"
  shows "decode_buf (raw_frame v f room event dst src payload) mx =
    Inr (Some (frame_message v f room event dst src payload))"
proof -
  define b where "b = raw_frame v f room event dst src payload"
  let ?o3 = "0 + 1 + 1 + 2 + length room + 2" let ?o4 = "?o3 + length event + 1"
  let ?o5 = "?o4 + length dst + 1" let ?o6 = "?o5 + length src + 4"
  have b: "b = raw_frame v f room event dst src payload @ []" by (simp add: b_def)
  have len: "length b = ?o6 + length payload"
    by (simp add: b_def length_raw_frame HEADER_OVERHEAD_def)
  have g: "\<not> length b < HEADER_OVERHEAD" "\<not> length b < 0 + 1 + 1 + 2 + length room"
    "\<not> length b < 0 + 1 + 1 + 2 + length room + 2" "\<not> length b < ?o3 + length event"
    "\<not> length b < ?o3 + length event + 1" "\<not> length b < ?o4 + length dst"
    "\<not> length b < ?o4 + length dst + 1" "\<not> length b < ?o5 + length src"
    "\<not> length b < ?o5 + length src + 4" "\<not> (?o6 + length payload \<noteq> length b)"
    using len by (simp_all add: HEADER_OVERHEAD_def)
  have s: "\<not> exceeds_max (length b) mx" using small by (simp add: b_def)
  have "decode_buf b mx = Inr (Some (create_message (JString (utf8_decode room))
      (JString (utf8_decode event)) (JString (utf8_decode dst)) (JString (utf8_decode src))
      (JBuffer payload) (JNumber (js_nat (unat v))) (JNumber (js_nat (unat f)))))"
    unfolding decode_buf_def Let_def to_utf8_string_def
    by (simp only: reads_of_frame [OF fit b] g s if_False bindE_simps)
  then show ?thesis
    by (simp only: b_def create_message_def version_of_byte frame_message_def payload_bytes_def
        string_or_simps number_or_simps jsval.case)
qed

lemma decode_buf_only_frames:
  assumes "decode_buf b mx = Inr (Some m)"
  shows "\<exists>v f room event dst src payload.
    b = raw_frame v f room event dst src payload \<and> fields_fit room event dst src payload \<and>
    \<not> exceeds_max (length b) mx \<and> m = frame_message v f room event dst src payload"
proof -
  obtain v f rl el dl sl pl where
    r: "read_u8 b 0 = Inr v" "read_u8 b (0 + 1) = Inr f" "read_u16 b (0 + 1 + 1) = Inr rl"
      "read_u16 b (0 + 1 + 1 + 2 + rl) = Inr el" "read_u8 b (0 + 1 + 1 + 2 + rl + 2 + el) = Inr dl"
      "read_u8 b (0 + 1 + 1 + 2 + rl + 2 + el + 1 + dl) = Inr sl"
      "read_u32 b (0 + 1 + 1 + 2 + rl + 2 + el + 1 + dl + 1 + sl) = Inr pl"
    and g: "0 + 1 + 1 + 2 + rl + 2 + el + 1 + dl + 1 + sl + 4 + pl = length b"
    and s: "\<not> exceeds_max (length b) mx"
    using assms
    unfolding decode_buf_def Let_def
    by (simp only: bindE_eq_Inr if_None_eq_Some not_not) blast
  obtain room event dst src payload rest where f: "fields_fit room event dst src payload"
      "b = raw_frame (of_nat v) (of_nat f) room event dst src payload @ rest"
    and l: "length room = rl" "length event = el" "length dst = dl" "length src = sl" "length payload = pl"
    using frame_of_reads [OF r eq_refl [OF g]] by blast
  have "length (raw_frame (of_nat v) (of_nat f) room event dst src payload) = length b"
    using g l by (simp add: length_raw_frame HEADER_OVERHEAD_def)
  then have b: "b = raw_frame (of_nat v) (of_nat f) room event dst src payload" using f(2) by simp
  have "m = frame_message (of_nat v) (of_nat f) room event dst src payload"
    using decode_raw_frame [OF f(1), of "of_nat v" "of_nat f" mx] s assms by (simp flip: b)
  with b f(1) s show ?thesis by blast
qed

lemma decode_buf_never_throws: "\<exists>r. decode_buf b mx = Inr r"
  unfolding decode_buf_def Let_def
  by (auto simp: read_u8_def read_u16_def read_u32_def HEADER_OVERHEAD_def bindE_def split: if_splits)

section \<open>Correctness of the codec\<close>

text \<open>The allocator of a fresh process: all zero.\<close>

definition alloc_zero :: "nat \<Rightarrow> bytes" where
  "alloc_zero n = replicate n 0"

abbreviation msg_encode :: "message \<Rightarrow> bytes result" where
  "msg_encode \<equiv> encode alloc_zero"

lemma length_alloc_zero [simp]: "length (alloc_zero n) = n"
  by (simp add: alloc_zero_def)

text \<open>The encoder as a function of the message alone.\<close>

definition encode_ref :: "message \<Rightarrow> bytes result" where
  "encode_ref m =
     (let room = utf8_encode (msg_room m); event = utf8_encode (msg_event m);
          dst = utf8_encode (msg_dst m); src = utf8_encode (msg_src m) in
      if 65535 < length room then Inl room_too_long
      else if 65535 < length event then Inl event_too_long
      else if 255 < length dst then Inl dst_too_long
      else if 255 < length src then Inl src_too_long
      else bindE (u8_of_num (msg_version m)) (\<lambda>v. bindE (u8_of_num (msg_flags m)) (\<lambda>f.
        if length (msg_payload m) < 4294967296
        then Inr (raw_frame v f room event dst src (msg_payload m)) else Inl out_of_range)))"

lemma write_u8_bad: "u8_of_num v = Inl e \<Longrightarrow> write_u8 v buf off = Inl e"
  by (simp add: write_u8_def)

lemma write_u32_bad: "\<not> n < 4294967296 \<Longrightarrow> write_u32 n buf off = Inl out_of_range"
  by (simp add: write_u32_def)

lemma encode_payload_too_long:
  assumes alloc: "\<And>n. length (alloc n) = n"
    and names: "length (utf8_encode (msg_room m)) \<le> 65535" "length (utf8_encode (msg_event m)) \<le> 65535"
      "length (utf8_encode (msg_dst m)) \<le> 255" "length (utf8_encode (msg_src m)) \<le> 255"
    and v: "u8_of_num (msg_version m) = Inr v" and f: "u8_of_num (msg_flags m) = Inr f"
    and p: "\<not> length (msg_payload m) < 4294967296"
  shows "encode alloc m = Inl out_of_range"
proof -
  define rb eb db sb p where defs: "rb = utf8_encode (msg_room m)" "eb = utf8_encode (msg_event m)"
    "db = utf8_encode (msg_dst m)" "sb = utf8_encode (msg_src m)" "p = msg_payload m"
  define mem where "mem = alloc (HEADER_OVERHEAD + length rb + length eb + length db + length sb + length p)"
  have mem: "alloc (HEADER_OVERHEAD + length rb + length eb + length db + length sb + length p) = filled [] mem"
    by (simp add: mem_def filled_def)
  have len: "length mem = 12 + length rb + length eb + length db + length sb + length p"
    by (simp add: mem_def alloc HEADER_OVERHEAD_def)
  show ?thesis
    unfolding encode_def Let_def defs [symmetric] mem
    using names p by (simp add: encode_steps v f len write_u32_bad flip: defs)
qed

lemma encode_eq_ref:
  assumes alloc: "\<And>n. length (alloc n) = n"
  shows "encode alloc m = encode_ref m"
proof -
  show ?thesis
  proof (cases "length (utf8_encode (msg_room m)) \<le> 65535 \<and> length (utf8_encode (msg_event m)) \<le> 65535 \<and>
      length (utf8_encode (msg_dst m)) \<le> 255 \<and> length (utf8_encode (msg_src m)) \<le> 255")
    case False
    then show ?thesis unfolding encode_def encode_ref_def Let_def by auto
  next
    case names: True
    show ?thesis
    proof (cases "u8_of_num (msg_version m)")
      case (Inl e)
      with names show ?thesis unfolding encode_def encode_ref_def Let_def by (simp add: write_u8_bad)
    next
      case v: (Inr v)
      have w: "write_u8 (msg_version m) (alloc n) 0 = Inr (filled [v] (alloc n))" if "1 \<le> n" for n
        using write_u8_ok [OF v, of 0 "[]" "alloc n"] that by (simp add: alloc filled_def)
      show ?thesis
      proof (cases "u8_of_num (msg_flags m)")
        case (Inl e)
        with names v w show ?thesis unfolding encode_def encode_ref_def Let_def
          by (simp add: write_u8_bad HEADER_OVERHEAD_def)
      next
        case f: (Inr f)
        show ?thesis
        proof (cases "length (msg_payload m) < 4294967296")
          case True
          with names encode_fits [OF alloc _ v f] show ?thesis
            by (simp add: encode_ref_def v f fields_fit_def)
        next
          case False
          with names encode_payload_too_long [OF alloc _ _ _ _ v f] show ?thesis
            by (simp add: encode_ref_def v f)
        qed
      qed
    qed
  qed
qed

lemma msg_encode_ref: "msg_encode m = encode_ref m"
  by (rule encode_eq_ref) simp

text \<open>
  C9: The imperative encoder, which fills an uninitialised buffer field by field, computes
  \<open>encode_ref\<close> for every allocator: on each message it either throws the RangeError of the
  first limit exceeded, or returns the wire frame; no byte of uninitialised memory is left in
  what is sent.
\<close>

theorem encode_refines:
  assumes "\<forall>n. length (alloc n) = n"
  shows "encode alloc m = encode_ref m"
  using assms by (intro encode_eq_ref) simp

definition demo_message :: message where
  "demo_message = create_message (JString (jstr ''r'')) (JString (jstr ''e'')) JUndefined JUndefined
     (JString (jstr ''p'')) JUndefined JUndefined"

theorem encode_refines_witness:
  "(\<forall>n. length (replicate n (7 :: byte)) = n) \<and>
   encode (\<lambda>n. replicate n 7) demo_message = encode_ref demo_message"
  using encode_refines [of "\<lambda>n. replicate n 7" demo_message] by simp

text \<open>
  C8: Decoding never throws, on any bytes and any size limit, and returns a message exactly
  for the frames of the wire format within the limit: version, flags, and five
  length-prefixed fields that fill the buffer to its last byte.
\<close>

theorem decode_exactly_frames:
  "\<exists>r. decode_message (JBuffer b) mx = Inr r \<and>
     (\<forall>m. r = Some m \<longleftrightarrow>
       (\<exists>v f room event dst src payload.
          b = raw_frame v f room event dst src payload \<and> fields_fit room event dst src payload \<and>
          \<not> exceeds_max (length b) mx \<and> m = frame_message v f room event dst src payload))"
proof -
  obtain r where r: "decode_buf b mx = Inr r" using decode_buf_never_throws by blast
  have "r = Some m \<longleftrightarrow>
       (\<exists>v f room event dst src payload.
          b = raw_frame v f room event dst src payload \<and> fields_fit room event dst src payload \<and>
          \<not> exceeds_max (length b) mx \<and> m = frame_message v f room event dst src payload)" for m
    using decode_buf_only_frames [of b mx m] decode_raw_frame [where mx = mx] r by fastforce
  with r show ?thesis by (auto simp: decode_message_def)
qed

subsection \<open>Round trip\<close>

definition is_byte_num :: "jsnum \<Rightarrow> bool" where
  "is_byte_num v = (case v of Fin x \<Rightarrow> of_int \<lfloor>x\<rfloor> = x \<and> 0 \<le> x \<and> x \<le> 255 | _ \<Rightarrow> False)"

text \<open>
  The messages that survive the wire: names without lone surrogates and within the length
  limits, version 1 to 255, flags one byte.
\<close>

definition wire_ok :: "message \<Rightarrow> bool" where
  "wire_ok m \<longleftrightarrow>
     well_formed (msg_room m) \<and> well_formed (msg_event m) \<and> well_formed (msg_dst m) \<and>
     well_formed (msg_src m) \<and>
     fields_fit (utf8_encode (msg_room m)) (utf8_encode (msg_event m)) (utf8_encode (msg_dst m))
       (utf8_encode (msg_src m)) (msg_payload m) \<and>
     is_byte_num (msg_version m) \<and> msg_version m \<noteq> Fin 0 \<and> is_byte_num (msg_flags m)"

definition decode_frame :: "bytes \<Rightarrow> message option" where
  "decode_frame b = (case decode_message (JBuffer b) JUndefined of Inr r \<Rightarrow> r | Inl _ \<Rightarrow> None)"

lemma byte_num_round: "is_byte_num v \<Longrightarrow> \<exists>b. u8_of_num v = Inr b \<and> js_nat (unat b) = v"
proof (cases v)
  case (Fin x)
  assume "is_byte_num v"
  with Fin have x: "of_int \<lfloor>x\<rfloor> = x" "0 \<le> x" "x \<le> 255" by (simp_all add: is_byte_num_def)
  then have n: "0 \<le> \<lfloor>x\<rfloor>" "\<lfloor>x\<rfloor> \<le> 255" by (simp_all add: floor_le_iff)
  then have "(of_int \<lfloor>x\<rfloor> :: byte) = of_nat (nat \<lfloor>x\<rfloor>)" by simp
  moreover have "unat (of_nat (nat \<lfloor>x\<rfloor>) :: byte) = nat \<lfloor>x\<rfloor>" using n by (intro unat_of_nat_u8) linarith
  moreover have "(of_nat (nat \<lfloor>x\<rfloor>) :: rat) = x" using n x(1) by simp
  moreover have "u8_of_num v = Inr (of_int \<lfloor>x\<rfloor>)" using Fin x by (simp add: u8_of_num_def)
  ultimately have "u8_of_num v = Inr (of_nat (nat \<lfloor>x\<rfloor>))"
    "js_nat (unat (of_nat (nat \<lfloor>x\<rfloor>) :: byte)) = v"
    using Fin by (simp_all only:)
  then show ?thesis by blast
qed (simp_all add: is_byte_num_def)

lemma encode_decode:
  assumes ok: "wire_ok m" and e: "msg_encode m = Inr b"
  shows "decode_buf b mx = (if exceeds_max (length b) mx then Inr None else Inr (Some m))"
proof -
  obtain v where v: "u8_of_num (msg_version m) = Inr v" "js_nat (unat v) = msg_version m"
    using byte_num_round ok unfolding wire_ok_def by blast
  obtain f where f: "u8_of_num (msg_flags m) = Inr f" "js_nat (unat f) = msg_flags m"
    using byte_num_round ok unfolding wire_ok_def by blast
  let ?u = "\<lambda>g. utf8_encode (g m)"
  have fit: "fields_fit (?u msg_room) (?u msg_event) (?u msg_dst) (?u msg_src) (msg_payload m)"
    using ok by (simp add: wire_ok_def)
  have b: "b = raw_frame v f (?u msg_room) (?u msg_event) (?u msg_dst) (?u msg_src) (msg_payload m)"
    using e encode_fits [OF length_alloc_zero fit v(1) f(1)] by simp
  have "v \<noteq> 0" using v(2) ok by (auto simp: wire_ok_def)
  then have "frame_message v f (?u msg_room) (?u msg_event) (?u msg_dst) (?u msg_src) (msg_payload m) = m"
    using ok by (simp only: frame_message_def v f if_False utf8_roundtrip wire_ok_def) simp
  moreover obtain r where "decode_buf b mx = Inr r" using decode_buf_never_throws by blast
  ultimately show ?thesis
    using decode_raw_frame [OF fit, of v f mx] decode_buf_only_frames [of b mx]
    by (cases r) (auto simp flip: b)
qed

lemma wire_ok_encodes: "wire_ok m \<Longrightarrow> \<exists>b. msg_encode m = Inr b"
  using byte_num_round encode_fits [OF length_alloc_zero]
  unfolding wire_ok_def by blast

lemma not_exceeds_undefined [simp]: "\<not> exceeds_max n JUndefined"
  by (simp add: exceeds_max_def)

interpretation frame: wire_codec msg_encode decode_frame wire_ok
proof unfold_locales
  fix m
  assume "wire_ok m"
  then show "\<exists>b. msg_encode m = Inr b" by (rule wire_ok_encodes)
next
  fix m b
  assume "wire_ok m" "msg_encode m = Inr b"
  then show "decode_frame b = Some m"
    using encode_decode [of m b JUndefined] by (simp add: decode_frame_def decode_message_def)
qed

text \<open>
  C7: Round trip. A message with well-formed names within the limits, a version from 1 to 255
  and one-byte flags is encoded to a frame of \<open>HEADER_OVERHEAD\<close> plus its fields' bytes, and
  decoding that frame gives the same message; distinct messages get distinct frames.
\<close>

theorem encode_decode_roundtrip:
  assumes "wire_ok m"
  shows "\<exists>b. msg_encode m = Inr b \<and> decode_message (JBuffer b) JUndefined = Inr (Some m) \<and>
    length b = HEADER_OVERHEAD + length (utf8_encode (msg_room m)) + length (utf8_encode (msg_event m))
      + length (utf8_encode (msg_dst m)) + length (utf8_encode (msg_src m)) + length (msg_payload m) \<and>
    (\<forall>m'. wire_ok m' \<and> msg_encode m' = Inr b \<longrightarrow> m' = m)"
proof -
  obtain b where b: "msg_encode m = Inr b" "decode_frame b = Some m"
    using frame.transmit [OF assms] by blast
  have "decode_message (JBuffer b) JUndefined = Inr (Some m)"
    using encode_decode [OF assms b(1), of JUndefined] by (simp add: decode_message_def)
  moreover have "length b = HEADER_OVERHEAD + length (utf8_encode (msg_room m))
      + length (utf8_encode (msg_event m))
      + length (utf8_encode (msg_dst m)) + length (utf8_encode (msg_src m)) + length (msg_payload m)"
    using b(1) unfolding msg_encode_ref encode_ref_def Let_def
    by (auto simp: bindE_eq_Inr length_raw_frame split: if_splits)
  ultimately show ?thesis using b frame.unambiguous [OF _ assms] by blast
qed

theorem encode_decode_roundtrip_witness:
  "wire_ok demo_message \<and>
   (\<exists>b. msg_encode demo_message = Inr b \<and> decode_message (JBuffer b) JUndefined = Inr (Some demo_message))"
proof -
  have "wire_ok demo_message"
    by (simp add: wire_ok_def demo_message_def create_message_def payload_bytes_def jstr_def
        is_high_def is_low_def fields_fit_def utf8_encode_def enc_scalar_def is_byte_num_def
        PROTOCOL_VERSION_def DEFAULT_FLAGS_def)
  with encode_decode_roundtrip [OF this] show ?thesis by blast
qed

subsection \<open>Forwarding: a decoded message is encoded again\<close>

text \<open>
  The hub re-encodes what it received (\<^verbatim>\<open>broadcast_room\<close>, direct messages). Names
  that are not UTF-8 change in between: every ill-formed part becomes U+FFFD, three bytes.
\<close>

definition valid_utf8 :: "bytes \<Rightarrow> bool" where
  "valid_utf8 bs \<longleftrightarrow> utf8_encode (utf8_decode bs) = bs"

lemma decode_raw:
  "fields_fit room event dst src payload \<Longrightarrow>
     decode_message (JBuffer (raw_frame v f room event dst src payload)) JUndefined =
       Inr (Some (frame_message v f room event dst src payload))"
  by (simp add: decode_message_def decode_raw_frame)

lemma u8_of_byte: "u8_of_num (js_nat (unat (b :: byte))) = Inr b"
proof -
  have "unat b \<le> 255" using unat_lt_u8 [of b] by linarith
  then have "u8_of_num (js_nat (unat b)) = Inr (of_nat (unat b))" by (rule u8_of_num_nat)
  then show ?thesis by simp
qed

lemma frame_version_byte:
  "u8_of_num (msg_version (frame_message v f room event dst src payload)) = Inr (if v = 0 then 1 else v)"
proof (cases "v = 0")
  case True
  then show ?thesis by (simp add: frame_message_def PROTOCOL_VERSION_def u8_of_num_def)
next
  case False
  then show ?thesis using u8_of_byte [of v] by (simp only: frame_message_def message.simps if_False)
qed

lemma msg_fields_frame [simp]:
  "msg_room (frame_message v f room event dst src payload) = utf8_decode room"
  "msg_event (frame_message v f room event dst src payload) = utf8_decode event"
  "msg_dst (frame_message v f room event dst src payload) = utf8_decode dst"
  "msg_src (frame_message v f room event dst src payload) = utf8_decode src"
  "msg_payload (frame_message v f room event dst src payload) = payload"
  by (simp_all add: frame_message_def)

lemma reencode_frame:
  assumes fit: "fields_fit (utf8_encode (utf8_decode room)) (utf8_encode (utf8_decode event))
      (utf8_encode (utf8_decode dst)) (utf8_encode (utf8_decode src)) payload"
  shows "msg_encode (frame_message v f room event dst src payload) =
    Inr (raw_frame (if v = 0 then 1 else v) f (utf8_encode (utf8_decode room))
      (utf8_encode (utf8_decode event)) (utf8_encode (utf8_decode dst)) (utf8_encode (utf8_decode src)) payload)"
proof -
  let ?m = "frame_message v f room event dst src payload"
  have "u8_of_num (msg_flags ?m) = Inr f"
    using u8_of_byte [of f] by (simp only: frame_message_def message.simps)
  from encode_fits [OF length_alloc_zero _ frame_version_byte this] fit show ?thesis by simp
qed

text \<open>
  A frame whose four names are valid UTF-8 and whose version is not 0 is forwarded
  unchanged: encoding the decoded message gives the same bytes.
\<close>

theorem forward_identical:
  assumes "fields_fit room event dst src payload" "v \<noteq> 0"
    and "valid_utf8 room" "valid_utf8 event" "valid_utf8 dst" "valid_utf8 src"
  shows "\<exists>m. decode_message (JBuffer (raw_frame v f room event dst src payload)) JUndefined = Inr (Some m) \<and>
    msg_encode m = Inr (raw_frame v f room event dst src payload)"
  using reencode_frame [of room event dst src payload v f] decode_raw [OF assms(1)] assms
  by (auto simp: valid_utf8_def)

theorem forward_identical_witness:
  "\<exists>m. decode_message (JBuffer (raw_frame 1 0 [114] [101] [] [] [112])) JUndefined = Inr (Some m) \<and>
    msg_encode m = Inr (raw_frame 1 0 [114] [101] [] [] [112])"
  by (rule forward_identical)
    (simp_all add: fields_fit_def valid_utf8_def utf8_decode_def utf8_scalars_def dec.simps units_def
      utf8_encode_def is_high_def is_low_def enc_scalar_def)

text \<open>
  Any frame whose room and event take at most 21845 bytes and whose ids take at most 85
  can be forwarded, whatever bytes it carries, and the forwarded frame decodes to the message
  that was received.
\<close>

theorem forward_short_names:
  assumes "length room \<le> 21845" "length event \<le> 21845" "length dst \<le> 85" "length src \<le> 85"
    and "length payload < 4294967296"
  shows "\<exists>m b. decode_message (JBuffer (raw_frame v f room event dst src payload)) JUndefined = Inr (Some m) \<and>
    msg_encode m = Inr b \<and> decode_message (JBuffer b) JUndefined = Inr (Some m)"
proof -
  let ?r = "\<lambda>bs. utf8_encode (utf8_decode bs)"
  let ?m = "frame_message v f room event dst src payload"
  have fit: "fields_fit (?r room) (?r event) (?r dst) (?r src) payload"
    using assms reencode_length [of room] reencode_length [of event] reencode_length [of dst]
      reencode_length [of src]
    by (simp add: fields_fit_def)
  have e: "msg_encode ?m = Inr (raw_frame (if v = 0 then 1 else v) f (?r room) (?r event) (?r dst) (?r src) payload)"
    using fit by (rule reencode_frame)
  have d: "decode_message (JBuffer (raw_frame v f room event dst src payload)) JUndefined = Inr (Some ?m)"
    using assms by (intro decode_raw) (simp add: fields_fit_def)
  have "frame_message (if v = 0 then 1 else v) f (?r room) (?r event) (?r dst) (?r src) payload = ?m"
    by (simp add: frame_message_def utf8_decode_stable PROTOCOL_VERSION_def)
  then have "decode_message (JBuffer (raw_frame (if v = 0 then 1 else v) f (?r room) (?r event)
      (?r dst) (?r src) payload)) JUndefined = Inr (Some ?m)"
    using decode_raw [OF fit, of "if v = 0 then 1 else v" f] by (simp only:)
  with d e show ?thesis by blast
qed

theorem forward_short_names_witness:
  "\<exists>m b. decode_message (JBuffer (raw_frame 0 7 [255, 254] [101] [] [128] [])) JUndefined = Inr (Some m) \<and>
    msg_encode m = Inr b \<and> decode_message (JBuffer b) JUndefined = Inr (Some m)"
  by (rule forward_short_names) simp_all

lemma long_room_throws:
  assumes "21846 \<le> n" "msg_room m = utf8_decode (replicate n 255)"
  shows "msg_encode m = Inl room_too_long"
  unfolding msg_encode_ref encode_ref_def Let_def
  using assms by (simp add: reencode_invalid)

text \<open>
  Beyond that bound the codec is not closed under forwarding: for every room length from
  21846 to the limit of 65535 there is a frame that is accepted, whose decoded room name no
  message can be encoded with: \<open>encode\<close> throws the RangeError of a room name that is too long.
\<close>

theorem forward_long_room_throws:
  assumes "21846 \<le> n" "n \<le> 65535" "length event \<le> 65535"
  shows "\<exists>m. decode_message (JBuffer (raw_frame v f (replicate n 255) event [] [] [])) JUndefined
      = Inr (Some m) \<and>
    (\<forall>m'. msg_room m' = msg_room m \<longrightarrow> msg_encode m' = Inl room_too_long)"
proof -
  have fit: "fields_fit (replicate n 255) event [] [] []" using assms by (simp add: fields_fit_def)
  show ?thesis
    using decode_raw [OF fit, of v f] long_room_throws [OF assms(1)] by (auto simp del: length_replicate)
qed

theorem forward_long_room_throws_witness:
  "\<exists>m. decode_message (JBuffer (raw_frame 1 0 (replicate 30000 255) [106, 111, 105, 110] [] [] [])) JUndefined
      = Inr (Some m) \<and>
    (\<forall>m'. msg_room m' = msg_room m \<longrightarrow> msg_encode m' = Inl room_too_long)"
  by (rule forward_long_room_throws) simp_all

end
