(* ===== verification/Adapter.thy ===== *)
theory Adapter
  imports JS_Value
begin

text \<open>
  The cluster adapter interface of \<^verbatim>\<open>server/node/adapter.js\<close> and the in-memory adapter of a
  standalone server. The hub reaches its adapter through the calls of \<open>adapter_call\<close>; the
  contract its presence operations promise is the locale \<open>presence_store\<close>.
\<close>

section \<open>The calls of the adapter interface\<close>

datatype adapter_call =
    PublishRaw js_string bytes
  | PublishDirectRaw js_string bytes
  | Subscribe
  | AddPresence js_string js_string
  | RemovePresence js_string js_string
  | GetPresence js_string
  | RegisterNode js_string
  | UnregisterNode js_string
  | GetNodeForConn js_string
  | CloseAdapter

section \<open>What presence operations promise\<close>

locale presence_store =
  fixes add :: "js_string \<Rightarrow> js_string \<Rightarrow> 's \<Rightarrow> 's"
    and remove :: "js_string \<Rightarrow> js_string \<Rightarrow> 's \<Rightarrow> 's"
    and members :: "'s \<Rightarrow> js_string \<Rightarrow> js_string list"
    and invar :: "'s \<Rightarrow> bool"
  assumes invar_add: "invar s \<Longrightarrow> invar (add r c s)"
    and invar_remove: "invar s \<Longrightarrow> invar (remove r c s)"
    and distinct_members: "invar s \<Longrightarrow> distinct (members s r)"
    and members_add: "invar s \<Longrightarrow>
      set (members (add r c s) r') = (if r' = r then insert c (set (members s r)) else set (members s r'))"
    and members_remove: "invar s \<Longrightarrow>
      set (members (remove r c s) r') = (if r' = r then set (members s r) - {c} else set (members s r'))"
begin

text \<open>The set of pairs a store represents: the abstract state of the contract.\<close>

definition present :: "'s \<Rightarrow> (js_string \<times> js_string) set" where
  "present s = {(r, c). c \<in> set (members s r)}"

lemma present_add: "invar s \<Longrightarrow> present (add r c s) = insert (r, c) (present s)"
  by (auto simp: present_def members_add split: if_splits)

lemma present_remove: "invar s \<Longrightarrow> present (remove r c s) = present s - {(r, c)}"
  by (auto simp: present_def members_remove split: if_splits)

lemma remove_after_add:
  "invar s \<Longrightarrow> (r, c) \<notin> present s \<Longrightarrow> present (remove r c (add r c s)) = present s"
  by (simp add: present_add present_remove invar_add)

lemma add_idem: "invar s \<Longrightarrow> present (add r c (add r c s)) = present (add r c s)"
  by (simp add: present_add invar_add)

text \<open>Operations on different pairs commute: the order of two nodes' updates is immaterial.\<close>

lemma add_remove_commute:
  "invar s \<Longrightarrow> (r, c) \<noteq> (r', c') \<Longrightarrow>
     present (add r c (remove r' c' s)) = present (remove r' c' (add r c s))"
  by (auto simp: present_add present_remove invar_add invar_remove)

end

section \<open>The in-memory adapter\<close>

record local_adapter =
  node_id_val :: js_string
  presence_map :: "bool dict dict"
  node_map :: "js_string dict"

definition create_local_adapter :: "jsval \<Rightarrow> local_adapter" where
  "create_local_adapter custom_node_id =
     \<lparr>node_id_val = nonempty_string_or custom_node_id (jstr ''local-node''),
      presence_map = [], node_map = []\<rparr>"

definition add_presence :: "js_string \<Rightarrow> js_string \<Rightarrow> local_adapter \<Rightarrow> local_adapter" where
  "add_presence room conn_id a =
     (let a1 = (if prop_get (presence_map a) room = None
                then a\<lparr>presence_map := prop_set (presence_map a) room []\<rparr> else a) in
      case prop_get (presence_map a1) room of
        None \<Rightarrow> a1
      | Some d \<Rightarrow> a1\<lparr>presence_map := prop_set (presence_map a1) room (prop_set d conn_id True)\<rparr>)"

definition remove_presence :: "js_string \<Rightarrow> js_string \<Rightarrow> local_adapter \<Rightarrow> local_adapter" where
  "remove_presence room conn_id a =
     (case prop_get (presence_map a) room of
        None \<Rightarrow> a
      | Some d \<Rightarrow>
          let d' = prop_del d conn_id; pm = prop_set (presence_map a) room d' in
          if length (obj_keys d') = 0 then a\<lparr>presence_map := prop_del pm room\<rparr>
          else a\<lparr>presence_map := pm\<rparr>)"

definition get_presence :: "local_adapter \<Rightarrow> js_string \<Rightarrow> js_string list" where
  "get_presence a room =
     (case prop_get (presence_map a) room of None \<Rightarrow> [] | Some d \<Rightarrow> obj_keys d)"

definition register_node :: "js_string \<Rightarrow> local_adapter \<Rightarrow> local_adapter" where
  "register_node conn_id a = a\<lparr>node_map := prop_set (node_map a) conn_id (node_id_val a)\<rparr>"

definition unregister_node :: "js_string \<Rightarrow> local_adapter \<Rightarrow> local_adapter" where
  "unregister_node conn_id a = a\<lparr>node_map := prop_del (node_map a) conn_id\<rparr>"

definition get_node_for_conn :: "local_adapter \<Rightarrow> js_string \<Rightarrow> js_string option" where
  "get_node_for_conn a conn_id = prop_get (node_map a) conn_id"

text \<open>The adapter as the hub drives it; publishing and subscribing do nothing.\<close>

fun local_call :: "adapter_call \<Rightarrow> local_adapter \<Rightarrow> local_adapter" where
  "local_call (AddPresence room conn_id) a = add_presence room conn_id a"
| "local_call (RemovePresence room conn_id) a = remove_presence room conn_id a"
| "local_call (RegisterNode conn_id) a = register_node conn_id a"
| "local_call (UnregisterNode conn_id) a = unregister_node conn_id a"
| "local_call _ a = a"

subsection \<open>It keeps its promises\<close>

text \<open>No room is kept without members, and dictionaries have no duplicate keys.\<close>

definition local_invar :: "local_adapter \<Rightarrow> bool" where
  "local_invar a \<longleftrightarrow>
     wf_dict (presence_map a) \<and>
     (\<forall>room d. prop_get (presence_map a) room = Some d \<longrightarrow> wf_dict d \<and> d \<noteq> [])"

lemma add_presence_alt:
  "add_presence room conn_id a =
     a\<lparr>presence_map := prop_set (presence_map a) room
        (prop_set (case prop_get (presence_map a) room of None \<Rightarrow> [] | Some d \<Rightarrow> d) conn_id True)\<rparr>"
  by (cases "prop_get (presence_map a) room")
    (simp_all add: add_presence_def)

lemma local_invar_create: "local_invar (create_local_adapter v)"
  by (simp add: local_invar_def create_local_adapter_def)

lemma local_invar_add: "local_invar a \<Longrightarrow> local_invar (add_presence room conn_id a)"
  by (auto simp: local_invar_def add_presence_alt split: option.splits if_splits)

lemma local_invar_remove: "local_invar a \<Longrightarrow> local_invar (remove_presence room conn_id a)"
  by (auto simp: local_invar_def remove_presence_def Let_def split: option.splits if_splits)

lemma local_invar_node: "local_invar a \<Longrightarrow> local_invar (a\<lparr>node_map := n\<rparr>)"
  by (simp add: local_invar_def)

lemma local_invar_call: "local_invar a \<Longrightarrow> local_invar (local_call c a)"
  by (cases c)
    (simp_all add: local_invar_add local_invar_remove local_invar_node register_node_def unregister_node_def)

lemma set_get_presence:
  "c \<in> set (get_presence a room) \<longleftrightarrow> (\<exists>d. prop_get (presence_map a) room = Some d \<and> prop_has d c)"
  by (cases "prop_get (presence_map a) room") (auto simp: get_presence_def)

interpretation local_store: presence_store add_presence remove_presence get_presence local_invar
proof unfold_locales
  fix s r c
  assume "local_invar s"
  then show "local_invar (add_presence r c s)" by (rule local_invar_add)
next
  fix s r c
  assume "local_invar s"
  then show "local_invar (remove_presence r c s)" by (rule local_invar_remove)
next
  fix s r
  assume "local_invar s"
  then show "distinct (get_presence s r)"
    by (auto simp: local_invar_def get_presence_def distinct_obj_keys split: option.splits)
next
  fix s r c r'
  assume "local_invar s"
  show "set (get_presence (add_presence r c s) r') =
      (if r' = r then insert c (set (get_presence s r)) else set (get_presence s r'))"
    by (auto simp: set_get_presence add_presence_alt split: option.splits)
next
  fix s r c r'
  assume "local_invar s"
  then show "set (get_presence (remove_presence r c s) r') =
      (if r' = r then set (get_presence s r) - {c} else set (get_presence s r'))"
    by (auto simp: set_get_presence remove_presence_def local_invar_def Let_def dict_empty_iff
        split: option.splits)
qed

text \<open>A room disappears from the map with its last member.\<close>

lemma presence_room_iff:
  "local_invar a \<Longrightarrow> prop_has (presence_map a) room \<longleftrightarrow> get_presence a room \<noteq> []"
  by (auto simp: local_invar_def get_presence_def prop_has_get split: option.splits)

end
