(* ===== verification/Metrics.thy ===== *)
theory Metrics
  imports JS_Base
begin

text \<open>
  Telemetry, \<^verbatim>\<open>server/node/metrics.js\<close>: the hooks the server calls are events; the
  in-memory collector is a fold over them, the no-op collector ignores them.
\<close>

datatype metric =
    OnConnect
  | OnDisconnect
  | OnMessageSent nat
  | OnMessageReceived nat
  | OnMessageDropped
  | OnRoomCreated js_string
  | OnRoomDeleted js_string
  | OnClusterPublish nat
  | OnClusterReceived nat
  | OnClusterDropped

record stats =
  active_connections :: nat
  total_connections :: nat
  active_rooms :: nat
  total_rooms :: nat
  messages_sent :: nat
  messages_received :: nat
  messages_dropped :: nat
  bytes_sent :: nat
  bytes_received :: nat
  cluster_published :: nat
  cluster_received :: nat
  bytes_cluster_published :: nat
  bytes_cluster_received :: nat

definition create_in_memory_metrics :: stats where
  "create_in_memory_metrics =
     \<lparr>active_connections = 0, total_connections = 0, active_rooms = 0, total_rooms = 0,
      messages_sent = 0, messages_received = 0, messages_dropped = 0, bytes_sent = 0,
      bytes_received = 0, cluster_published = 0, cluster_received = 0,
      bytes_cluster_published = 0, bytes_cluster_received = 0\<rparr>"

fun in_memory :: "metric \<Rightarrow> stats \<Rightarrow> stats" where
  "in_memory OnConnect s =
     s\<lparr>active_connections := active_connections s + 1, total_connections := total_connections s + 1\<rparr>"
| "in_memory OnDisconnect s =
     (if 0 < active_connections s then s\<lparr>active_connections := active_connections s - 1\<rparr> else s)"
| "in_memory (OnMessageSent bytes) s =
     s\<lparr>messages_sent := messages_sent s + 1, bytes_sent := bytes_sent s + bytes\<rparr>"
| "in_memory (OnMessageReceived bytes) s =
     s\<lparr>messages_received := messages_received s + 1, bytes_received := bytes_received s + bytes\<rparr>"
| "in_memory OnMessageDropped s = s\<lparr>messages_dropped := messages_dropped s + 1\<rparr>"
| "in_memory (OnRoomCreated _) s =
     s\<lparr>active_rooms := active_rooms s + 1, total_rooms := total_rooms s + 1\<rparr>"
| "in_memory (OnRoomDeleted _) s =
     (if 0 < active_rooms s then s\<lparr>active_rooms := active_rooms s - 1\<rparr> else s)"
| "in_memory (OnClusterPublish bytes) s =
     s\<lparr>cluster_published := cluster_published s + 1,
       bytes_cluster_published := bytes_cluster_published s + bytes\<rparr>"
| "in_memory (OnClusterReceived bytes) s =
     s\<lparr>cluster_received := cluster_received s + 1,
       bytes_cluster_received := bytes_cluster_received s + bytes\<rparr>"
| "in_memory OnClusterDropped s = s"

definition collect :: "metric list \<Rightarrow> stats" where
  "collect ms = fold in_memory ms create_in_memory_metrics"

lemma collect_snoc [simp]: "collect (ms @ [m]) = in_memory m (collect ms)"
  by (simp add: collect_def)

lemma collect_Nil [simp]: "collect [] = create_in_memory_metrics"
  by (simp add: collect_def)

end
