(* ===== verification/Room.thy ===== *)
theory Room
  imports JS_Base
begin

text \<open>
  The room container, \<^verbatim>\<open>server/node/room.js\<close>. Members are connection objects; the model
  refers to a connection by its id, under which \<^verbatim>\<open>add_member\<close> stores it. \<open>emit_local\<close> walks
  a snapshot of the ids but reads the live dictionary: a member that left in the meantime is
  \<^verbatim>\<open>undefined\<close>, and calling its \<^verbatim>\<open>try_send\<close> throws.
\<close>

record room =
  members :: "unit dict"

definition create_room :: room where
  "create_room = \<lparr>members = []\<rparr>"

definition add_member :: "js_string \<Rightarrow> room \<Rightarrow> room" where
  "add_member conn_id r = r\<lparr>members := prop_set (members r) conn_id ()\<rparr>"

definition remove_member :: "js_string \<Rightarrow> room \<Rightarrow> bool \<times> room" where
  "remove_member conn_id r =
     (let r' = r\<lparr>members := prop_del (members r) conn_id\<rparr>
      in (length (obj_keys (members r')) = 0, r'))"

definition snapshot :: "room \<Rightarrow> js_string list" where
  "snapshot r = obj_keys (members r)"

definition is_empty :: "room \<Rightarrow> bool" where
  "is_empty r \<longleftrightarrow> length (obj_keys (members r)) = 0"

definition len :: "room \<Rightarrow> nat" where
  "len r = length (obj_keys (members r))"

definition undefined_try_send :: js_error where
  "undefined_try_send =
     TypeError (jstr ''Cannot read properties of undefined (reading 'try_send')'')"

text \<open>
  \<open>live s\<close> is the room's member dictionary in state \<open>s\<close> and \<open>try_send\<close> the members' method;
  both the ids walked and the ids looked up come from there.
\<close>

definition emit_local ::
  "('s \<Rightarrow> unit dict) \<Rightarrow> (js_string \<Rightarrow> bytes \<Rightarrow> 's act) \<Rightarrow> js_string option \<Rightarrow> bytes \<Rightarrow> 's act" where
  "emit_local live try_send exclude_id raw_msg s =
     for_each (\<lambda>id s.
       if exclude_id = None \<or> Some id \<noteq> exclude_id
       then (if prop_has (live s) id then try_send id raw_msg s else throw undefined_try_send s)
       else skip s) (obj_keys (live s)) s"

lemma keeps_emit_local [keeps_intros]:
  assumes "\<And>id. keeps P (try_send id raw)"
  shows "keeps P (emit_local live try_send ex raw)"
proof (rule keepsI)
  fix s
  assume "P s"
  have "keeps P (for_each (\<lambda>id s.
       if ex = None \<or> Some id \<noteq> ex
       then (if prop_has (live s) id then try_send id raw s else throw undefined_try_send s)
       else skip s) (obj_keys (live s)))"
    by (intro keeps_for_each keepsI) (auto simp: throw_def skip_def intro: keepsD [OF assms])
  from keepsD [OF this \<open>P s\<close>] show "P (snd (emit_local live try_send ex raw s))"
    by (simp add: emit_local_def)
qed

lemma agree_emit_local:
  assumes "\<And>id. agree P (f id raw) (g id raw)"
  shows "agree P (emit_local live f ex raw) (emit_local live g ex raw)"
proof (rule agreeI)
  fix s
  assume "P s"
  have "agree P
      (for_each (\<lambda>id s. if ex = None \<or> Some id \<noteq> ex
         then (if prop_has (live s) id then f id raw s else throw undefined_try_send s) else skip s)
         (obj_keys (live s)))
      (for_each (\<lambda>id s. if ex = None \<or> Some id \<noteq> ex
         then (if prop_has (live s) id then g id raw s else throw undefined_try_send s) else skip s)
         (obj_keys (live s)))"
    by (intro agree_for_each agreeI) (use assms in \<open>auto simp: agree_def throw_def skip_def\<close>)
  with \<open>P s\<close> show "emit_local live f ex raw s = emit_local live g ex raw s \<and>
      P (snd (emit_local live g ex raw s))"
    by (simp add: agree_def emit_local_def)
qed

lemma throws_only_emit_local:
  assumes ts: "\<And>id. throws_only E P (try_send id raw)" and E: "E undefined_try_send"
  shows "throws_only E P (emit_local live try_send ex raw)"
proof (rule throws_onlyI)
  fix s
  assume "P s"
  have "throws_only E P
      (for_each (\<lambda>id s. if ex = None \<or> Some id \<noteq> ex
         then (if prop_has (live s) id then try_send id raw s else throw undefined_try_send s) else skip s)
         (obj_keys (live s)))"
    by (rule throws_only_for_each) (use ts E in \<open>auto simp: throws_only_def throw_def skip_def\<close>)
  with \<open>P s\<close> show "P (snd (emit_local live try_send ex raw s)) \<and>
      (\<forall>e. fst (emit_local live try_send ex raw s) = Some e \<longrightarrow> E e)"
    by (simp add: throws_only_def emit_local_def)
qed

subsection \<open>The container as a set of ids\<close>

lemma add_member_has: "prop_has (members (add_member c r)) x \<longleftrightarrow> x = c \<or> prop_has (members r) x"
  by (simp add: add_member_def)

lemma remove_member_has:
  "prop_has (members (snd (remove_member c r))) x \<longleftrightarrow> x \<noteq> c \<and> prop_has (members r) x"
  by (simp add: remove_member_def Let_def)

lemma remove_member_empty: "fst (remove_member c r) \<longleftrightarrow> (\<forall>x. prop_has (members r) x \<longrightarrow> x = c)"
  by (auto simp: remove_member_def Let_def dict_empty_iff)

lemma snapshot_set: "set (snapshot r) = {x. prop_has (members r) x}"
  by (auto simp: snapshot_def)

end
