(* ===== verification/Redis_Adapter.thy ===== *)
theory Redis_Adapter
  imports Message Adapter
begin

text \<open>
  The Redis cluster adapter, \<^verbatim>\<open>server/node/adapter_redis.js\<close>: the node envelope, the Redis
  commands each operation issues, and the filter on incoming messages. The Redis server is
  outside the repository: its documented set commands are the locale \<open>redis_db\<close>.
\<close>

section \<open>Envelopes\<close>

definition encode_envelope :: "(nat \<Rightarrow> bytes) \<Rightarrow> js_string \<Rightarrow> bytes \<Rightarrow> bytes result" where
  "encode_envelope alloc node_id raw_msg =
     (let node_buf = utf8_encode node_id;
          env = alloc (4 + length node_buf + length raw_msg) in
      bindE (write_u32 (length node_buf) env 0) (\<lambda>env.
        let env = buf_copy node_buf env 4 in
        Inr (buf_copy raw_msg env (4 + length node_buf))))"

definition decode_envelope :: "bytes \<Rightarrow> (js_string \<times> bytes) option result" where
  "decode_envelope payload =
     (if length payload < 4 then Inr None
      else bindE (read_u32 payload 0) (\<lambda>node_len.
        if length payload < 4 + node_len then Inr None
        else Inr (Some (to_utf8_string payload 4 (4 + node_len), drop (4 + node_len) payload))))"

definition envelope_bytes :: "bytes \<Rightarrow> bytes \<Rightarrow> bytes" where
  "envelope_bytes node raw = u32_be (length node) @ node @ raw"

lemma encode_envelope_eq:
  assumes alloc: "\<And>n. length (alloc n) = n" and n: "length (utf8_encode node) < 4294967296"
  shows "encode_envelope alloc node raw = Inr (envelope_bytes (utf8_encode node) raw)"
proof -
  define nb where "nb = utf8_encode node"
  define mem where "mem = alloc (4 + length nb + length raw)"
  have mem: "alloc (4 + length nb + length raw) = filled [] mem"
    by (simp add: mem_def filled_def)
  have len: "length mem = 4 + length nb + length raw" by (simp add: mem_def alloc)
  show ?thesis
    unfolding encode_envelope_def Let_def nb_def [symmetric] mem
    using n by (simp add: encode_steps len filled_all envelope_bytes_def flip: nb_def)
qed

lemma decode_envelope_bytes:
  assumes "length node < 4294967296"
  shows "decode_envelope (envelope_bytes node raw) = Inr (Some (utf8_decode node, raw))"
  using assms read_u32_at [of 0 "[]" "length node" "node @ raw"]
    subarray_at [of 4 "u32_be (length node)" "length node" node raw]
  by (simp add: decode_envelope_def envelope_bytes_def to_utf8_string_def)

lemma decode_envelope_never_throws: "\<exists>r. decode_envelope p = Inr r"
  by (simp add: decode_envelope_def read_u32_def)

definition open_envelope :: "bytes \<Rightarrow> (js_string \<times> bytes) option" where
  "open_envelope e = (case decode_envelope e of Inr r \<Rightarrow> r | Inl _ \<Rightarrow> None)"

definition node_id_ok :: "js_string \<Rightarrow> bool" where
  "node_id_ok n \<longleftrightarrow> well_formed n \<and> length (utf8_encode n) < 4294967296"

interpretation cluster: enveloped_codec msg_encode decode_frame wire_ok
  "encode_envelope alloc_zero" open_envelope node_id_ok
proof unfold_locales
  fix n b
  assume "node_id_ok n"
  then show "\<exists>e. encode_envelope alloc_zero n b = Inr e"
    by (simp add: node_id_ok_def encode_envelope_eq)
next
  fix n b e
  assume "node_id_ok n" "encode_envelope alloc_zero n b = Inr e"
  then show "open_envelope e = Some (n, b)"
    by (auto simp: node_id_ok_def encode_envelope_eq open_envelope_def decode_envelope_bytes utf8_roundtrip)
qed

section \<open>The adapter's operations\<close>

datatype redis_cmd =
    Publish js_string bytes
  | SAdd js_string js_string
  | Expire js_string jsnum
  | SRem js_string js_string
  | SMembers js_string
  | SetEx js_string js_string nat
  | Del js_string
  | Get js_string
  | PSubscribe js_string
  | SubscribeTo js_string
  | Quit

record redis_adapter =
  ra_node_id :: js_string
  ra_prefix :: js_string
  ra_presence_ttl :: jsnum

fun num_floor :: "jsnum \<Rightarrow> jsnum" where
  "num_floor (Fin x) = Fin (of_int \<lfloor>x\<rfloor>)"
| "num_floor v = v"

text \<open>\<open>uuid\<close> is what \<^verbatim>\<open>randomUUID()\<close> returned.\<close>

definition create_redis_adapter :: "jsval \<Rightarrow> jsval \<Rightarrow> jsval \<Rightarrow> js_string \<Rightarrow> redis_adapter" where
  "create_redis_adapter opt_node_id opt_prefix opt_presence_ttl uuid =
     (let prefix_val = nonempty_string_or opt_prefix (jstr ''roomer:demo:'');
          prefix_val = (if prefix_val \<noteq> [] \<and> last prefix_val = 58 then prefix_val
                        else prefix_val @ jstr '':'') in
      \<lparr>ra_node_id = nonempty_string_or opt_node_id uuid,
       ra_prefix = prefix_val,
       ra_presence_ttl =
         (case opt_presence_ttl of
            JNumber n \<Rightarrow> if num_less (Fin 0) n then num_floor n else Fin 86400
          | _ \<Rightarrow> Fin 86400)\<rparr>)"

definition room_channel :: "redis_adapter \<Rightarrow> js_string \<Rightarrow> js_string" where
  "room_channel a room = ra_prefix a @ jstr ''room:'' @ room"

definition node_channel :: "redis_adapter \<Rightarrow> js_string \<Rightarrow> js_string" where
  "node_channel a target_node_id = ra_prefix a @ jstr ''node:'' @ target_node_id"

definition presence_key :: "redis_adapter \<Rightarrow> js_string \<Rightarrow> js_string" where
  "presence_key a room = ra_prefix a @ jstr ''presence:'' @ room"

definition conn_node_key :: "redis_adapter \<Rightarrow> js_string \<Rightarrow> js_string" where
  "conn_node_key a conn_id = ra_prefix a @ jstr ''conn_node:'' @ conn_id"

definition publish_raw :: "redis_adapter \<Rightarrow> js_string \<Rightarrow> bytes \<Rightarrow> redis_cmd list result" where
  "publish_raw a room raw_msg =
     bindE (encode_envelope alloc_zero (ra_node_id a) raw_msg)
       (\<lambda>envelope. Inr [Publish (room_channel a room) envelope])"

definition publish_direct_raw :: "redis_adapter \<Rightarrow> js_string \<Rightarrow> bytes \<Rightarrow> redis_cmd list result" where
  "publish_direct_raw a target_node_id raw_msg =
     bindE (encode_envelope alloc_zero (ra_node_id a) raw_msg)
       (\<lambda>envelope. Inr [Publish (node_channel a target_node_id) envelope])"

definition redis_add_presence :: "redis_adapter \<Rightarrow> js_string \<Rightarrow> js_string \<Rightarrow> redis_cmd list" where
  "redis_add_presence a room conn_id =
     [SAdd (presence_key a room) conn_id, Expire (presence_key a room) (ra_presence_ttl a)]"

definition redis_remove_presence :: "redis_adapter \<Rightarrow> js_string \<Rightarrow> js_string \<Rightarrow> redis_cmd list" where
  "redis_remove_presence a room conn_id = [SRem (presence_key a room) conn_id]"

definition redis_register_node :: "redis_adapter \<Rightarrow> js_string \<Rightarrow> redis_cmd list" where
  "redis_register_node a conn_id = [SetEx (conn_node_key a conn_id) (ra_node_id a) 86400]"

definition redis_unregister_node :: "redis_adapter \<Rightarrow> js_string \<Rightarrow> redis_cmd list" where
  "redis_unregister_node a conn_id = [Del (conn_node_key a conn_id)]"

definition publish :: "redis_adapter \<Rightarrow> js_string \<Rightarrow> message \<Rightarrow> redis_cmd list result" where
  "publish a room msg = bindE (msg_encode msg) (publish_raw a room)"

definition publish_direct :: "redis_adapter \<Rightarrow> js_string \<Rightarrow> message \<Rightarrow> redis_cmd list result" where
  "publish_direct a target_node_id msg = bindE (msg_encode msg) (publish_direct_raw a target_node_id)"

text \<open>When the first client does not quit, the second is not asked to; the exception is ignored.\<close>

definition redis_close :: "bool \<Rightarrow> redis_cmd list" where
  "redis_close sub_quits = (if sub_quits then [Quit, Quit] else [Quit])"

text \<open>One call of the adapter interface, as the commands sent to Redis, when Redis answers.\<close>

fun redis_call :: "redis_adapter \<Rightarrow> adapter_call \<Rightarrow> redis_cmd list result" where
  "redis_call a (PublishRaw room raw_msg) = publish_raw a room raw_msg"
| "redis_call a (PublishDirectRaw node raw_msg) = publish_direct_raw a node raw_msg"
| "redis_call a Subscribe =
     Inr [PSubscribe (ra_prefix a @ jstr ''room:*''), SubscribeTo (node_channel a (ra_node_id a))]"
| "redis_call a (AddPresence room conn_id) = Inr (redis_add_presence a room conn_id)"
| "redis_call a (RemovePresence room conn_id) = Inr (redis_remove_presence a room conn_id)"
| "redis_call a (GetPresence room) = Inr [SMembers (presence_key a room)]"
| "redis_call a (RegisterNode conn_id) = Inr (redis_register_node a conn_id)"
| "redis_call a (UnregisterNode conn_id) = Inr (redis_unregister_node a conn_id)"
| "redis_call a (GetNodeForConn conn_id) = Inr [Get (conn_node_key a conn_id)]"
| "redis_call a CloseAdapter = Inr (redis_close True)"

section \<open>Incoming messages\<close>

text \<open>
  The callback of the two subscriptions: an undecodable envelope and the node's own messages
  are dropped; the prefix, then \<^verbatim>\<open>room:\<close>, are cut off the channel.
\<close>

definition handle_incoming ::
  "redis_adapter \<Rightarrow> bytes \<Rightarrow> bytes \<Rightarrow> (js_string \<times> js_string \<times> bytes) option" where
  "handle_incoming a channel_buf msg_buf =
     (let channel = utf8_decode channel_buf in
      case open_envelope msg_buf of
        None \<Rightarrow> None
      | Some (sender_node_id, raw_msg) \<Rightarrow>
          if sender_node_id = ra_node_id a then None
          else
            let channel_suffix = (if starts_with channel (ra_prefix a)
                                  then drop (length (ra_prefix a)) channel else channel);
                channel_suffix = (if starts_with channel_suffix (jstr ''room:'')
                                  then drop 5 channel_suffix else channel_suffix) in
            Some (channel_suffix, sender_node_id, raw_msg))"

text \<open>
  Which published channels reach the adapter: those its two subscriptions ask for. What a
  pattern matches is for Redis to say (\<open>matches\<close>); of its documented pattern language the code
  relies on one case, a pattern that ends in a star and has no other special character.
\<close>

definition subscribed :: "(js_string \<Rightarrow> js_string \<Rightarrow> bool) \<Rightarrow> redis_adapter \<Rightarrow> js_string \<Rightarrow> bool" where
  "subscribed matches a channel \<longleftrightarrow>
     (case redis_call a Subscribe of
        Inl _ \<Rightarrow> False
      | Inr cmds \<Rightarrow> list_ex (\<lambda>c. case c of PSubscribe p \<Rightarrow> matches p channel | SubscribeTo ch \<Rightarrow> ch = channel | _ \<Rightarrow> False) cmds)"

text \<open>None of \<^verbatim>\<open>*\<close>, \<^verbatim>\<open>?\<close>, \<^verbatim>\<open>[\<close> and the backslash.\<close>

definition literal :: "js_string \<Rightarrow> bool" where
  "literal p \<longleftrightarrow> set p \<inter> {42, 63, 91, 92} = {}"

definition glob_law :: "(js_string \<Rightarrow> js_string \<Rightarrow> bool) \<Rightarrow> bool" where
  "glob_law matches \<longleftrightarrow> (\<forall>p channel. literal p \<longrightarrow> matches (p @ [42]) channel = starts_with channel p)"

definition ends_in_star :: "js_string \<Rightarrow> js_string \<Rightarrow> bool" where
  "ends_in_star p channel \<longleftrightarrow> (if p \<noteq> [] \<and> last p = 42 then starts_with channel (butlast p) else channel = p)"

lemma glob_law_star: "glob_law ends_in_star"
  by (simp add: glob_law_def ends_in_star_def)

lemma subscribed_eq:
  assumes "glob_law matches" "literal (ra_prefix a)"
  shows "subscribed matches a channel \<longleftrightarrow>
    starts_with channel (ra_prefix a @ jstr ''room:'') \<or> channel = node_channel a (ra_node_id a)"
proof -
  have "literal (ra_prefix a @ jstr ''room:'')" using assms(2) by (auto simp: literal_def) (auto simp: jstr_def)
  then have "matches ((ra_prefix a @ jstr ''room:'') @ [42]) channel = starts_with channel (ra_prefix a @ jstr ''room:'')"
    using assms(1) by (simp add: glob_law_def del: append_assoc)
  moreover have "ra_prefix a @ jstr ''room:*'' = (ra_prefix a @ jstr ''room:'') @ [42]" by (simp add: jstr_def)
  ultimately show ?thesis by (auto simp: subscribed_def)
qed

lemma starts_with_jstr:
  "starts_with (jstr s @ t) (jstr q) \<longleftrightarrow> take (length q) (jstr s @ t) = jstr q"
  by (simp add: starts_with_def jstr_def)

lemma room_not_node: "\<not> starts_with (jstr ''node:'' @ s) (jstr ''room:'')"
  by (simp add: starts_with_def jstr_def)

lemma open_own_envelope:
  "node_id_ok n \<Longrightarrow> open_envelope (envelope_bytes (utf8_encode n) raw) = Some (n, raw)"
  using cluster.unwrap_wrap [of n raw] by (simp add: node_id_ok_def encode_envelope_eq)

lemma publish_raw_eq:
  "node_id_ok (ra_node_id a) \<Longrightarrow>
     publish_raw a room raw = Inr [Publish (room_channel a room) (envelope_bytes (utf8_encode (ra_node_id a)) raw)]"
  by (simp add: publish_raw_def node_id_ok_def encode_envelope_eq)

lemma publish_direct_raw_eq:
  "node_id_ok (ra_node_id a) \<Longrightarrow>
     publish_direct_raw a t raw = Inr [Publish (node_channel a t) (envelope_bytes (utf8_encode (ra_node_id a)) raw)]"
  by (simp add: publish_direct_raw_def node_id_ok_def encode_envelope_eq)

lemma broadcast_route:
  assumes "ra_prefix b = ra_prefix a" "ra_node_id b \<noteq> ra_node_id a" "node_id_ok (ra_node_id a)"
    and "well_formed (ra_prefix a)" "well_formed room"
  shows "\<exists>channel env. publish_raw a room raw = Inr [Publish channel env] \<and>
    (glob_law matches \<and> literal (ra_prefix a) \<longrightarrow> subscribed matches b channel) \<and>
    handle_incoming b (utf8_encode channel) env = Some (room, ra_node_id a, raw) \<and>
    handle_incoming a (utf8_encode channel) env = None"
proof -
  let ?ch = "room_channel a room" and ?env = "envelope_bytes (utf8_encode (ra_node_id a)) raw"
  have pub: "publish_raw a room raw = Inr [Publish ?ch ?env]"
    by (simp add: publish_raw_eq assms)
  have "well_formed ?ch" using assms by (simp add: room_channel_def well_formed_append)
  then have ch: "utf8_decode (utf8_encode ?ch) = ?ch" by (rule utf8_roundtrip)
  have "starts_with ?ch (ra_prefix b)" "drop (length (ra_prefix b)) ?ch = jstr ''room:'' @ room"
    using assms by (simp_all add: room_channel_def)
  moreover have "drop 5 (jstr ''room:'' @ room) = room"
    by (simp add: jstr_def)
  ultimately have "handle_incoming b (utf8_encode ?ch) ?env = Some (room, ra_node_id a, raw)"
    using assms by (simp add: handle_incoming_def ch open_own_envelope Let_def del: drop_append)
  moreover have "handle_incoming a (utf8_encode ?ch) ?env = None"
    using assms by (simp add: handle_incoming_def ch open_own_envelope Let_def)
  moreover have "glob_law matches \<and> literal (ra_prefix a) \<longrightarrow> subscribed matches b ?ch"
    using assms by (simp add: subscribed_eq room_channel_def)
  ultimately show ?thesis using pub by blast
qed

text \<open>
  Cluster broadcast. Two nodes share a prefix. What node \<open>a\<close> publishes for a room is on a
  channel node \<open>b\<close> subscribes to; \<open>b\<close> hands its hub the room name, the sender and the very
  frame, which decodes to the message; \<open>a\<close> itself drops the echo.
\<close>

theorem cluster_broadcast:
  assumes "ra_prefix b = ra_prefix a" "ra_node_id b \<noteq> ra_node_id a" "node_id_ok (ra_node_id a)"
    and "well_formed (ra_prefix a)" "well_formed room" "wire_ok m"
    and "glob_law matches" "literal (ra_prefix a)"
  shows "\<exists>raw channel env.
    msg_encode m = Inr raw \<and> publish a room m = Inr [Publish channel env] \<and>
    subscribed matches b channel \<and>
    handle_incoming b (utf8_encode channel) env = Some (room, ra_node_id a, raw) \<and>
    handle_incoming a (utf8_encode channel) env = None \<and>
    decode_frame raw = Some m"
proof -
  obtain raw where raw: "msg_encode m = Inr raw" "decode_frame raw = Some m"
    using frame.transmit [OF assms(6)] by blast
  then show ?thesis
    using broadcast_route [OF assms(1-5), of raw matches] assms(7,8) by (simp add: publish_def)
qed

definition node_a :: redis_adapter where
  "node_a = create_redis_adapter (JString (jstr ''A'')) JUndefined JUndefined []"

definition node_b :: redis_adapter where
  "node_b = create_redis_adapter (JString (jstr ''B'')) JUndefined JUndefined []"

lemma node_a_facts:
  "ra_node_id node_a = jstr ''A''" "ra_prefix node_a = jstr ''roomer:demo:''"
  by (simp_all add: node_a_def create_redis_adapter_def nonempty_string_or_def jstr_def)

lemma literal_a: "literal (ra_prefix node_a)"
  unfolding node_a_facts by (simp add: literal_def) (simp add: jstr_def)

lemma node_b_facts:
  "ra_node_id node_b = jstr ''B''" "ra_prefix node_b = jstr ''roomer:demo:''"
  by (simp_all add: node_b_def create_redis_adapter_def nonempty_string_or_def jstr_def)

lemma node_id_ok_A: "node_id_ok (jstr ''A'')"
  by (simp add: node_id_ok_def) (simp add: jstr_def utf8_encode_def is_high_def is_low_def enc_scalar_def)

lemma demo_wire_ok: "wire_ok demo_message"
  by (simp add: wire_ok_def demo_message_def create_message_def payload_bytes_def jstr_def
      is_high_def is_low_def fields_fit_def utf8_encode_def enc_scalar_def is_byte_num_def
      PROTOCOL_VERSION_def DEFAULT_FLAGS_def)

theorem cluster_broadcast_witness:
  "\<exists>raw channel env.
    msg_encode demo_message = Inr raw \<and> publish node_a (jstr ''r'') demo_message = Inr [Publish channel env] \<and>
    subscribed ends_in_star node_b channel \<and>
    handle_incoming node_b (utf8_encode channel) env = Some (jstr ''r'', ra_node_id node_a, raw) \<and>
    handle_incoming node_a (utf8_encode channel) env = None \<and>
    decode_frame raw = Some demo_message"
  by (rule cluster_broadcast [OF _ _ _ _ _ _ glob_law_star literal_a])
    (simp_all add: node_a_facts node_b_facts node_id_ok_A demo_wire_ok)

lemma unicast_route:
  assumes "ra_prefix b = ra_prefix a" "node_id_ok (ra_node_id a)" "glob_law matches" "literal (ra_prefix a)"
  shows "\<exists>channel env. publish_direct_raw a t raw = Inr [Publish channel env] \<and>
    (subscribed matches b channel \<longleftrightarrow> ra_node_id b = t) \<and>
    (well_formed channel \<and> ra_node_id b = t \<and> t \<noteq> ra_node_id a \<longrightarrow>
      handle_incoming b (utf8_encode channel) env = Some (jstr ''node:'' @ t, ra_node_id a, raw))"
proof -
  let ?ch = "node_channel a t" and ?env = "envelope_bytes (utf8_encode (ra_node_id a)) raw"
  have "publish_direct_raw a t raw = Inr [Publish ?ch ?env]"
    using assms by (simp add: publish_direct_raw_eq)
  moreover have "subscribed matches b ?ch \<longleftrightarrow> ra_node_id b = t"
    using assms by (auto simp: subscribed_eq node_channel_def room_not_node)
  moreover have "handle_incoming b (utf8_encode ?ch) ?env = Some (jstr ''node:'' @ t, ra_node_id a, raw)"
    if "well_formed ?ch" "ra_node_id b = t" "t \<noteq> ra_node_id a"
  proof -
    have "starts_with ?ch (ra_prefix b)" "drop (length (ra_prefix b)) ?ch = jstr ''node:'' @ t"
      using assms by (simp_all add: node_channel_def)
    then show ?thesis
      using that assms room_not_node [of t]
      by (simp add: handle_incoming_def open_own_envelope utf8_roundtrip Let_def)
  qed
  ultimately show ?thesis by blast
qed

text \<open>
  Unicast isolation. A frame published directly to node \<open>t\<close> reaches exactly the node with
  that id: no other node of the prefix is subscribed to its channel, and the addressee sees
  the channel suffix \<^verbatim>\<open>node:\<close> with its own id.
\<close>

theorem unicast_isolation:
  assumes "ra_prefix b = ra_prefix a" "node_id_ok (ra_node_id a)" "glob_law matches" "literal (ra_prefix a)"
  shows "\<exists>channel env. publish_direct_raw a t raw = Inr [Publish channel env] \<and>
    (subscribed matches b channel \<longleftrightarrow> ra_node_id b = t) \<and>
    (well_formed channel \<and> ra_node_id b = t \<and> t \<noteq> ra_node_id a \<longrightarrow>
      handle_incoming b (utf8_encode channel) env = Some (jstr ''node:'' @ t, ra_node_id a, raw))"
  using assms by (rule unicast_route)

theorem unicast_isolation_witness:
  "\<exists>channel env. publish_direct_raw node_a (jstr ''B'') [1] = Inr [Publish channel env] \<and>
    (subscribed ends_in_star node_b channel \<longleftrightarrow> ra_node_id node_b = jstr ''B'') \<and>
    (well_formed channel \<and> ra_node_id node_b = jstr ''B'' \<and> jstr ''B'' \<noteq> ra_node_id node_a \<longrightarrow>
      handle_incoming node_b (utf8_encode channel) env = Some (jstr ''node:'' @ jstr ''B'', ra_node_id node_a, [1]))"
  by (rule unicast_isolation [OF _ _ glob_law_star literal_a]) (simp_all add: node_a_facts node_b_facts node_id_ok_A)

section \<open>Presence in Redis\<close>

text \<open>
  The documented behaviour of the set commands: \<^verbatim>\<open>SADD\<close> and \<^verbatim>\<open>SREM\<close> change the set at one
  key, \<^verbatim>\<open>SMEMBERS\<close> lists it, \<^verbatim>\<open>EXPIRE\<close> with a positive time to live leaves it in place.
\<close>

locale redis_db =
  fixes run :: "redis_cmd \<Rightarrow> 'db \<Rightarrow> 'db"
    and smembers :: "'db \<Rightarrow> js_string \<Rightarrow> js_string list"
    and db_ok :: "'db \<Rightarrow> bool"
  assumes db_ok_run: "db_ok db \<Longrightarrow> db_ok (run c db)"
    and smembers_distinct: "db_ok db \<Longrightarrow> distinct (smembers db k)"
    and sadd: "db_ok db \<Longrightarrow> set (smembers (run (SAdd k x) db) k') =
      (if k' = k then insert x (set (smembers db k)) else set (smembers db k'))"
    and srem: "db_ok db \<Longrightarrow> set (smembers (run (SRem k x) db) k') =
      (if k' = k then set (smembers db k) - {x} else set (smembers db k'))"
    and expire: "db_ok db \<Longrightarrow> num_less (Fin 0) t \<Longrightarrow> smembers (run (Expire k t) db) k' = smembers db k'"

locale redis_cluster = redis_db run smembers db_ok
  for run :: "redis_cmd \<Rightarrow> 'db \<Rightarrow> 'db" and smembers db_ok +
  fixes a :: redis_adapter
  assumes ttl_positive: "num_less (Fin 0) (ra_presence_ttl a)"

lemma presence_key_inj [simp]: "presence_key a r = presence_key a r' \<longleftrightarrow> r = r'"
  by (simp add: presence_key_def)

text \<open>Under that contract the adapter's presence operations keep the promises of an adapter.\<close>

sublocale redis_cluster \<subseteq> store: presence_store
  "\<lambda>r c. fold run (redis_add_presence a r c)" "\<lambda>r c. fold run (redis_remove_presence a r c)"
  "\<lambda>db r. smembers db (presence_key a r)" db_ok
  by unfold_locales
    (simp_all add: redis_add_presence_def redis_remove_presence_def db_ok_run smembers_distinct
      sadd srem expire ttl_positive)

text \<open>A store that behaves as documented: a dictionary of sets.\<close>

fun mem_run :: "redis_cmd \<Rightarrow> unit dict dict \<Rightarrow> unit dict dict" where
  "mem_run (SAdd k x) db =
     prop_set db k (prop_set (case prop_get db k of None \<Rightarrow> [] | Some d \<Rightarrow> d) x ())"
| "mem_run (SRem k x) db =
     (case prop_get db k of None \<Rightarrow> db | Some d \<Rightarrow> prop_set db k (prop_del d x))"
| "mem_run (Expire k t) db = (if num_less (Fin 0) t then db else prop_del db k)"
| "mem_run (Del k) db = prop_del db k"
| "mem_run _ db = db"

definition mem_smembers :: "unit dict dict \<Rightarrow> js_string \<Rightarrow> js_string list" where
  "mem_smembers db k = (case prop_get db k of None \<Rightarrow> [] | Some d \<Rightarrow> obj_keys d)"

definition mem_ok :: "unit dict dict \<Rightarrow> bool" where
  "mem_ok db \<longleftrightarrow> (\<forall>k d. prop_get db k = Some d \<longrightarrow> wf_dict d)"

interpretation demo_redis: redis_cluster mem_run mem_smembers mem_ok node_a
proof unfold_locales
  fix db c
  assume "mem_ok db"
  then show "mem_ok (mem_run c db)"
    by (cases c) (auto simp: mem_ok_def split: option.splits if_splits)
next
  fix db k
  assume "mem_ok db"
  then show "distinct (mem_smembers db k)"
    by (auto simp: mem_ok_def mem_smembers_def distinct_obj_keys split: option.splits)
next
  fix db k x k'
  show "set (mem_smembers (mem_run (SAdd k x) db) k') =
      (if k' = k then insert x (set (mem_smembers db k)) else set (mem_smembers db k'))"
    by (auto simp: mem_smembers_def split: option.splits)
next
  fix db k x k'
  show "set (mem_smembers (mem_run (SRem k x) db) k') =
      (if k' = k then set (mem_smembers db k) - {x} else set (mem_smembers db k'))"
    by (auto simp: mem_smembers_def split: option.splits)
next
  show "num_less (Fin 0) (ra_presence_ttl node_a)"
    by (simp add: node_a_def create_redis_adapter_def Let_def)
qed (simp add: mem_smembers_def)

end
