(* ===== verification/Node_State.thy ===== *)
theory Node_State
  imports Message Adapter Metrics Room
begin

text \<open>
  The state one server process keeps, spread over the closures of \<^verbatim>\<open>conn.js\<close>, \<^verbatim>\<open>hub.js\<close>
  and \<^verbatim>\<open>server.js\<close>: the connection objects, the hub's three dictionaries, the server's
  \<^verbatim>\<open>active_connections\<close>, the promises still pending and the effects performed so far, in
  order.
\<close>

section \<open>Sockets and connections\<close>

text \<open>What the server reads of a \<^verbatim>\<open>ws\<close> socket.\<close>

record socket =
  readyState :: ready_state
  bufferedAmount :: jsnum

record conn =
  conn_rooms :: "unit dict"
  is_closed :: bool
  close_sent :: bool
  is_alive :: bool
  control_tokens :: jsnum
  last_control_check :: jsnum
  max_buffer_bytes :: jsnum
  strategy :: jsnum
  control_rate :: jsnum
  control_burst_val :: jsnum
  conn_claims :: jsval
  ws :: socket

section \<open>Effects, promises and handlers\<close>

datatype effect =
    WsSend js_string bytes
  | WsClose js_string "(jsnum \<times> js_string) option"
  | WsPing js_string
  | WsReject jsnum js_string
  | Metric metric
  | Call adapter_call
  | ConsoleError js_string
  | Rejection js_error
  | Uncaught js_error

text \<open>
  A pending promise, named after what runs when it settles: the rest of \<open>join_room\<close> (for
  \<open>dispatch\<close> or not), of \<open>dispatch\<close> after \<open>join_room\<close>, of \<open>get_cluster_presence\<close>, of a
  publication and of the two stages of a direct send.
\<close>

datatype task =
    AfterAddPresence js_string js_string bool
  | AfterJoinRoom js_string js_string
  | AfterGetPresence js_string js_string "js_string list"
  | AfterPublish nat
  | AfterNodeLookup bytes
  | AfterDirectPublish nat

text \<open>How the adapter's promise settled: with an array, with a string, with anything else, or rejected.\<close>

datatype reply =
    Members "js_string list"
  | NodeIs js_string
  | Settled
  | Failed

text \<open>
  What application code may ask of the hub and of its connections: a handler is the list of
  calls it makes, in order, and the exception it ends with, if any.
\<close>

datatype api_call =
    SendToRoom js_string js_string js_string jsval
  | SendToClient js_string js_string js_string jsval
  | CloseWith js_string jsval jsval
  | TrySend js_string bytes
  | Disconnect js_string jsval jsval
  | BroadcastRoom "js_string option" message
  | JoinRoom js_string js_string
  | LeaveRoom js_string js_string
  | LeaveAllRooms js_string
  | SendDirect message

type_synonym handler = "js_string \<Rightarrow> message \<Rightarrow> api_call list \<times> js_error option"

record node =
  heap :: "conn dict"
  conns :: "unit dict"
  rooms :: "room dict"
  handlers :: "handler dict"
  active :: "unit dict"
  clock :: jsnum
  pending :: "task list"
  out :: "effect list"

definition init_node :: "jsnum \<Rightarrow> node" where
  "init_node now =
     \<lparr>heap = [], conns = [], rooms = [], handlers = [], active = [], clock = now,
      pending = [], out = []\<rparr>"

text \<open>
  The parts outside the repository: how the \<^verbatim>\<open>ws\<close> library changes a socket when it is
  written to or closed, and the application's \<^verbatim>\<open>authorize_room\<close>, when it gave one.
\<close>

record env =
  sock_send :: "bytes \<Rightarrow> socket \<Rightarrow> socket"
  sock_close :: "socket \<Rightarrow> socket"
  authorize_room :: "(js_string \<Rightarrow> conn \<Rightarrow> js_string \<Rightarrow> jsval result) option"

section \<open>Access to the state\<close>

text \<open>
  Connection objects are found by their id. Every id the program holds belongs to an object
  of the heap; of any other id the model has a closed connection.
\<close>

definition no_conn :: conn where
  "no_conn =
     \<lparr>conn_rooms = [], is_closed = True, close_sent = True, is_alive = False,
      control_tokens = Fin 0, last_control_check = Fin 0, max_buffer_bytes = Fin 0,
      strategy = Fin 0, control_rate = Fin 0, control_burst_val = Fin 0,
      conn_claims = JUndefined, ws = \<lparr>readyState = CLOSED, bufferedAmount = Fin 0\<rparr>\<rparr>"

definition conn_of :: "node \<Rightarrow> js_string \<Rightarrow> conn" where
  "conn_of s cid = (case prop_get (heap s) cid of None \<Rightarrow> no_conn | Some c \<Rightarrow> c)"

definition upd_conn :: "js_string \<Rightarrow> (conn \<Rightarrow> conn) \<Rightarrow> node \<Rightarrow> node" where
  "upd_conn cid f s =
     (case prop_get (heap s) cid of None \<Rightarrow> s | Some c \<Rightarrow> s\<lparr>heap := prop_set (heap s) cid (f c)\<rparr>)"

definition emit :: "effect \<Rightarrow> node act" where
  "emit e = modify (\<lambda>s. s\<lparr>out := out s @ [e]\<rparr>)"

definition metric :: "metric \<Rightarrow> node act" where
  "metric m = emit (Metric m)"

definition adapter_do :: "adapter_call \<Rightarrow> node act" where
  "adapter_do c = emit (Call c)"

definition await :: "task \<Rightarrow> node act" where
  "await t = modify (\<lambda>s. s\<lparr>pending := pending s @ [t]\<rparr>)"

text \<open>\<open>live s name\<close>: the member dictionary of a room, empty when there is no such room.\<close>

definition live :: "js_string \<Rightarrow> node \<Rightarrow> unit dict" where
  "live name s = (case prop_get (rooms s) name of None \<Rightarrow> [] | Some r \<Rightarrow> members r)"

definition member :: "node \<Rightarrow> js_string \<Rightarrow> js_string \<Rightarrow> bool" where
  "member s name cid \<longleftrightarrow> prop_has (live name s) cid"

definition tracks :: "node \<Rightarrow> js_string \<Rightarrow> js_string \<Rightarrow> bool" where
  "tracks s cid name \<longleftrightarrow> prop_has (conn_rooms (conn_of s cid)) name"

text \<open>The number of connections not yet closed: each close makes it smaller.\<close>

definition open_count :: "node \<Rightarrow> nat" where
  "open_count s = length (filter (\<lambda>p. \<not> is_closed (snd p)) (heap s))"

definition calls_of :: "effect list \<Rightarrow> adapter_call list" where
  "calls_of es = concat (map (\<lambda>e. case e of Call c \<Rightarrow> [c] | _ \<Rightarrow> []) es)"

definition metrics_of :: "effect list \<Rightarrow> metric list" where
  "metrics_of es = concat (map (\<lambda>e. case e of Metric m \<Rightarrow> [m] | _ \<Rightarrow> []) es)"

subsection \<open>Facts about access\<close>

lemma calls_of_simps [simp]:
  "calls_of [] = []" "calls_of (es @ fs) = calls_of es @ calls_of fs"
  "calls_of (e # es) = (case e of Call c \<Rightarrow> [c] | _ \<Rightarrow> []) @ calls_of es"
  by (simp_all add: calls_of_def)

lemma metrics_of_simps [simp]:
  "metrics_of [] = []" "metrics_of (es @ fs) = metrics_of es @ metrics_of fs"
  "metrics_of (e # es) = (case e of Metric m \<Rightarrow> [m] | _ \<Rightarrow> []) @ metrics_of es"
  by (simp_all add: metrics_of_def)

lemma conn_of_upd [simp]:
  "conn_of (upd_conn cid f s) x = (if x = cid \<and> prop_has (heap s) cid then f (conn_of s x) else conn_of s x)"
  by (auto simp: conn_of_def upd_conn_def prop_has_get split: option.splits)

lemma has_heap_upd [simp]: "prop_has (heap (upd_conn cid f s)) x \<longleftrightarrow> prop_has (heap s) x"
  by (auto simp: upd_conn_def prop_has_get split: option.splits)

lemma upd_conn_fields [simp]:
  "conns (upd_conn cid f s) = conns s" "rooms (upd_conn cid f s) = rooms s"
  "handlers (upd_conn cid f s) = handlers s" "active (upd_conn cid f s) = active s"
  "clock (upd_conn cid f s) = clock s" "pending (upd_conn cid f s) = pending s"
  "out (upd_conn cid f s) = out s" "live r (upd_conn cid f s) = live r s"
  "member (upd_conn cid f s) r x = member s r x"
  by (simp_all add: upd_conn_def live_def member_def split: option.splits)

lemma conn_of_other [simp]:
  "conn_of (s\<lparr>conns := a\<rparr>) = conn_of s" "conn_of (s\<lparr>rooms := b\<rparr>) = conn_of s"
  "conn_of (s\<lparr>handlers := c\<rparr>) = conn_of s" "conn_of (s\<lparr>active := d\<rparr>) = conn_of s"
  "conn_of (s\<lparr>clock := e\<rparr>) = conn_of s" "conn_of (s\<lparr>pending := f\<rparr>) = conn_of s"
  "conn_of (s\<lparr>out := g\<rparr>) = conn_of s"
  by (rule ext, simp add: conn_of_def)+

lemma live_other [simp]:
  "live r (s\<lparr>conns := a\<rparr>) = live r s" "live r (s\<lparr>heap := b\<rparr>) = live r s"
  "live r (s\<lparr>handlers := c\<rparr>) = live r s" "live r (s\<lparr>active := d\<rparr>) = live r s"
  "live r (s\<lparr>clock := e\<rparr>) = live r s" "live r (s\<lparr>pending := f\<rparr>) = live r s"
  "live r (s\<lparr>out := g\<rparr>) = live r s"
  by (simp_all add: live_def)

lemma member_other [simp]:
  "member (s\<lparr>conns := a\<rparr>) = member s" "member (s\<lparr>heap := b\<rparr>) = member s"
  "member (s\<lparr>handlers := c\<rparr>) = member s" "member (s\<lparr>active := d\<rparr>) = member s"
  "member (s\<lparr>clock := e\<rparr>) = member s" "member (s\<lparr>pending := f\<rparr>) = member s"
  "member (s\<lparr>out := g\<rparr>) = member s"
  by (rule ext, rule ext, simp add: member_def)+

lemma no_conn_fields [simp]:
  "conn_rooms no_conn = []" "is_closed no_conn" "close_sent no_conn"
  "readyState (ws no_conn) = CLOSED"
  by (simp_all add: no_conn_def)

lemma conn_of_absent: "\<not> prop_has (heap s) cid \<Longrightarrow> conn_of s cid = no_conn"
  by (simp add: conn_of_def prop_has_get)

lemma open_in_heap: "\<not> is_closed (conn_of s cid) \<Longrightarrow> prop_has (heap s) cid"
  by (rule ccontr) (simp add: conn_of_absent)

lemma tracks_in_heap: "tracks s cid r \<Longrightarrow> prop_has (heap s) cid"
  by (rule ccontr) (simp add: tracks_def conn_of_absent)

lemma tracks_upd:
  "tracks (upd_conn cid f s) x r \<longleftrightarrow>
     (if x = cid \<and> prop_has (heap s) cid then prop_has (conn_rooms (f (conn_of s x))) r else tracks s x r)"
  by (simp add: tracks_def)

lemma tracks_upd_same [simp]:
  "(\<And>c. conn_rooms (f c) = conn_rooms c) \<Longrightarrow> tracks (upd_conn cid f s) x r = tracks s x r"
  by (auto simp: tracks_def)

lemma tracks_other [simp]:
  "tracks (s\<lparr>conns := a\<rparr>) = tracks s" "tracks (s\<lparr>rooms := b\<rparr>) = tracks s"
  "tracks (s\<lparr>handlers := c\<rparr>) = tracks s" "tracks (s\<lparr>active := d\<rparr>) = tracks s"
  "tracks (s\<lparr>clock := e\<rparr>) = tracks s" "tracks (s\<lparr>pending := f\<rparr>) = tracks s"
  "tracks (s\<lparr>out := g\<rparr>) = tracks s"
  by (rule ext, rule ext, simp add: tracks_def)+

lemma filter_update:
  "map_of d k = Some v \<Longrightarrow>
     length (filter (\<lambda>p. Q (snd p)) (AList.update k w d)) + (if Q v then 1 else 0)
       = length (filter (\<lambda>p. Q (snd p)) d) + (if Q w then 1 else 0)"
  by (induction d) (auto split: if_splits)

lemma open_count_upd:
  "open_count (upd_conn cid f s) + (if is_closed (conn_of s cid) then 0 else 1) =
     open_count s + (if prop_has (heap s) cid \<and> \<not> is_closed (f (conn_of s cid)) then 1 else 0)"
  using filter_update [of "heap s" cid _ "\<lambda>c. \<not> is_closed c" "f (conn_of s cid)"]
  by (auto simp: open_count_def upd_conn_def conn_of_def prop_has_get prop_get_def prop_set_def
      split: option.splits)

lemma open_count_upd_same [simp]:
  "(\<And>c. is_closed (f c) = is_closed c) \<Longrightarrow> open_count (upd_conn cid f s) = open_count s"
  using open_count_upd [of cid f s] open_in_heap [of s cid] by (auto split: if_splits)

lemma open_count_close:
  "\<not> is_closed (conn_of s cid) \<Longrightarrow> (\<And>c. is_closed (f c)) \<Longrightarrow>
     open_count s = Suc (open_count (upd_conn cid f s))"
  using open_count_upd [of cid f s] by simp

lemma open_count_other [simp]:
  "open_count (s\<lparr>conns := a\<rparr>) = open_count s" "open_count (s\<lparr>rooms := b\<rparr>) = open_count s"
  "open_count (s\<lparr>handlers := c\<rparr>) = open_count s" "open_count (s\<lparr>active := d\<rparr>) = open_count s"
  "open_count (s\<lparr>clock := e\<rparr>) = open_count s" "open_count (s\<lparr>pending := f\<rparr>) = open_count s"
  "open_count (s\<lparr>out := g\<rparr>) = open_count s"
  by (simp_all add: open_count_def)

lemma emit_apply [act_simps]: "emit e s = (None, s\<lparr>out := out s @ [e]\<rparr>)"
  by (simp add: emit_def modify_def)

lemma metric_apply [act_simps]: "metric m s = (None, s\<lparr>out := out s @ [Metric m]\<rparr>)"
  by (simp add: metric_def emit_apply)

lemma adapter_do_apply [act_simps]: "adapter_do c s = (None, s\<lparr>out := out s @ [Call c]\<rparr>)"
  by (simp add: adapter_do_def emit_apply)

lemma await_apply [act_simps]: "await t s = (None, s\<lparr>pending := pending s @ [t]\<rparr>)"
  by (simp add: await_def modify_def)

end
