(* ===== verification/Conn.thy ===== *)
theory Conn
  imports Node_State
begin

text \<open>
  Connections, \<^verbatim>\<open>server/node/conn.js\<close>: construction with its defaults, the token bucket,
  closing, sending and heartbeats. The hub's operations a connection calls are arguments,
  as \<^verbatim>\<open>create_conn\<close> receives the hub.
\<close>

section \<open>Construction\<close>

definition DROP_SLOW_CLIENT :: jsnum where "DROP_SLOW_CLIENT = Fin 0"
definition DROP_OLDEST :: jsnum where "DROP_OLDEST = Fin 1"
definition DROP_NEWEST :: jsnum where "DROP_NEWEST = Fin 2"

definition create_conn ::
  "socket \<Rightarrow> jsval \<Rightarrow> jsval \<Rightarrow> jsval \<Rightarrow> jsval \<Rightarrow> jsval \<Rightarrow> jsnum \<Rightarrow> conn" where
  "create_conn sock claims capacity backpressure control_rate_limit control_burst now =
     (let burst = positive_or control_burst (Fin 20) in
      \<lparr>conn_rooms = [], is_closed = False, close_sent = False, is_alive = True,
       control_tokens = burst, last_control_check = now,
       max_buffer_bytes =
         (case capacity of
            JNumber n \<Rightarrow> if num_less (Fin 0) n then num_mul n (Fin 4096) else Fin (32 * 1024 * 1024)
          | _ \<Rightarrow> Fin (32 * 1024 * 1024)),
       strategy = number_or backpressure DROP_SLOW_CLIENT,
       control_rate = positive_or control_rate_limit (Fin 10),
       control_burst_val = burst,
       conn_claims = (case claims of
          JObject _ \<Rightarrow> claims | JBuffer _ \<Rightarrow> claims | JUint8Array _ \<Rightarrow> claims | JArrayBuffer _ \<Rightarrow> claims
        | _ \<Rightarrow> JObject (JsObj [])),
       ws = sock\<rparr>)"

text \<open>
  \<^verbatim>\<open>Object.freeze(conn_claims)\<close>, the last step of \<^verbatim>\<open>create_conn\<close> that can fail: views of buffers
  with elements cannot be frozen.
\<close>

definition freezable :: "jsval \<Rightarrow> bool" where
  "freezable v = (case v of JBuffer b \<Rightarrow> b = [] | JUint8Array b \<Rightarrow> b = [] | _ \<Rightarrow> True)"

lemma freezable_object [simp]: "freezable (JObject j)"
  by (simp add: freezable_def)

definition unfreezable :: js_error where
  "unfreezable = TypeError (jstr ''Cannot freeze array buffer views with elements'')"

section \<open>Rooms and the token bucket\<close>

definition track_room :: "js_string \<Rightarrow> conn \<Rightarrow> conn" where
  "track_room room c = c\<lparr>conn_rooms := prop_set (conn_rooms c) room ()\<rparr>"

definition untrack_room :: "js_string \<Rightarrow> conn \<Rightarrow> conn" where
  "untrack_room room c = c\<lparr>conn_rooms := prop_del (conn_rooms c) room\<rparr>"

definition is_in_room :: "conn \<Rightarrow> js_string \<Rightarrow> bool" where
  "is_in_room c room \<longleftrightarrow> prop_has (conn_rooms c) room"

definition joined_rooms :: "conn \<Rightarrow> js_string list" where
  "joined_rooms c = obj_keys (conn_rooms c)"

definition allow_control_event :: "jsnum \<Rightarrow> conn \<Rightarrow> bool \<times> conn" where
  "allow_control_event now c =
     (let elapsed_sec = num_div_lit (num_sub now (last_control_check c)) 1000;
          c = c\<lparr>last_control_check := now\<rparr>;
          tokens = num_add (control_tokens c) (num_mul elapsed_sec (control_rate c));
          tokens = (if num_less (control_burst_val c) tokens then control_burst_val c else tokens) in
      if num_leq (Fin 1) tokens then (True, c\<lparr>control_tokens := num_sub tokens (Fin 1)\<rparr>)
      else (False, c\<lparr>control_tokens := tokens\<rparr>))"

section \<open>Closing\<close>

definition ws_closable :: "conn \<Rightarrow> bool" where
  "ws_closable c \<longleftrightarrow> readyState (ws c) = OPEN \<or> readyState (ws c) = CONNECTING"

definition ws_close :: "env \<Rightarrow> js_string \<Rightarrow> (jsnum \<times> js_string) option \<Rightarrow> node act" where
  "ws_close env cid args = andthen (emit (WsClose cid args))
     (modify (upd_conn cid (\<lambda>c. c\<lparr>ws := sock_close env (ws c)\<rparr>)))"

definition cleanup ::
  "(js_string \<Rightarrow> node act) \<Rightarrow> (js_string \<Rightarrow> node act) \<Rightarrow> env \<Rightarrow> js_string \<Rightarrow> node act" where
  "cleanup leave_all_rooms remove_conn env cid s =
     (if is_closed (conn_of s cid) then (None, s)
      else perform
        [modify (upd_conn cid (\<lambda>c. c\<lparr>is_closed := True\<rparr>)),
         leave_all_rooms cid,
         remove_conn cid,
         \<lambda>s. if \<not> close_sent (conn_of s cid) \<and> ws_closable (conn_of s cid)
             then andthen (modify (upd_conn cid (\<lambda>c. c\<lparr>close_sent := True\<rparr>))) (ws_close env cid None) s
             else skip s] s)"

definition status_code :: "jsval \<Rightarrow> jsnum" where
  "status_code code = (case code of JNumber n \<Rightarrow> if num_leq (Fin 1000) n then n else Fin 1000 | _ \<Rightarrow> Fin 1000)"

definition close_with_body ::
  "(js_string \<Rightarrow> node act) \<Rightarrow> (js_string \<Rightarrow> node act) \<Rightarrow> env \<Rightarrow> js_string \<Rightarrow> jsval \<Rightarrow> jsval \<Rightarrow> node act" where
  "close_with_body leave_all_rooms remove_conn env cid code reason s =
     (if is_closed (conn_of s cid) \<or> close_sent (conn_of s cid) then (None, s)
      else perform
        [modify (upd_conn cid (\<lambda>c. c\<lparr>close_sent := True, is_closed := True\<rparr>)),
         leave_all_rooms cid,
         remove_conn cid,
         \<lambda>s. if ws_closable (conn_of s cid)
             then ws_close env cid (Some (status_code code, string_or reason [])) s
             else skip s] s)"

section \<open>Sending\<close>

text \<open>
  \<open>close\<close> is the connections' own \<^verbatim>\<open>close_with\<close>. What \<^verbatim>\<open>try_send\<close> returns, no caller looks at.
\<close>

definition try_send_body ::
  "(js_string \<Rightarrow> jsval \<Rightarrow> jsval \<Rightarrow> node act) \<Rightarrow> env \<Rightarrow> js_string \<Rightarrow> bytes \<Rightarrow> node act" where
  "try_send_body close env cid msg s =
     (let c = conn_of s cid in
      if is_closed c \<or> readyState (ws c) \<noteq> OPEN then (None, s)
      else if num_less (max_buffer_bytes c) (bufferedAmount (ws c)) then
        andthen (metric OnMessageDropped)
          (when_act (\<not> (num_eq (strategy c) DROP_NEWEST \<or> num_eq (strategy c) DROP_OLDEST))
             (close cid (JNumber (Fin 1008)) (JString (jstr ''Slow client buffer overflow'')))) s
      else perform
        [modify (upd_conn cid (\<lambda>c. c\<lparr>ws := sock_send env msg (ws c)\<rparr>)),
         emit (WsSend cid msg),
         metric (OnMessageSent (length msg))] s)"

definition send_to_room ::
  "(js_string option \<Rightarrow> message \<Rightarrow> node act) \<Rightarrow> js_string \<Rightarrow> js_string \<Rightarrow> js_string \<Rightarrow> jsval \<Rightarrow> node act" where
  "send_to_room broadcast_room cid room event payload =
     broadcast_room (Some cid)
       (create_message (JString room) (JString event) (JString []) (JString cid) payload JUndefined JUndefined)"

definition send_to_client ::
  "(js_string \<Rightarrow> bytes \<Rightarrow> node act) \<Rightarrow> (message \<Rightarrow> node act) \<Rightarrow> js_string \<Rightarrow> js_string \<Rightarrow> js_string \<Rightarrow> jsval \<Rightarrow> node act" where
  "send_to_client try_send send_direct_to_cluster cid dst_id event payload s =
     (let msg = create_message (JString (jstr ''root'')) (JString event) (JString dst_id) (JString cid)
                  payload JUndefined JUndefined in
      if prop_has (conns s) dst_id
      then (case msg_encode msg of Inl e \<Rightarrow> (Some e, s) | Inr raw \<Rightarrow> try_send dst_id raw s)
      else send_direct_to_cluster msg s)"

section \<open>Heartbeats\<close>

definition check_heartbeat ::
  "(js_string \<Rightarrow> jsval \<Rightarrow> jsval \<Rightarrow> node act) \<Rightarrow> js_string \<Rightarrow> node act" where
  "check_heartbeat close cid s =
     (if \<not> is_alive (conn_of s cid)
      then close cid (JNumber (Fin 1000)) (JString (jstr ''Heartbeat timeout'')) s
      else andthen (modify (upd_conn cid (\<lambda>c. c\<lparr>is_alive := False\<rparr>)))
        (\<lambda>s. if readyState (ws (conn_of s cid)) = OPEN then emit (WsPing cid) s else skip s) s)"

definition on_pong :: "js_string \<Rightarrow> node act" where
  "on_pong cid = modify (upd_conn cid (\<lambda>c. c\<lparr>is_alive := True\<rparr>))"

section \<open>Facts\<close>

lemma conn_rooms_track [simp]:
  "prop_has (conn_rooms (track_room r c)) x \<longleftrightarrow> x = r \<or> prop_has (conn_rooms c) x"
  by (simp add: track_room_def)

lemma conn_rooms_untrack [simp]:
  "prop_has (conn_rooms (untrack_room r c)) x \<longleftrightarrow> x \<noteq> r \<and> prop_has (conn_rooms c) x"
  by (simp add: untrack_room_def)

lemma track_fields [simp]:
  "is_closed (track_room r c) = is_closed c" "close_sent (track_room r c) = close_sent c"
  "is_closed (untrack_room r c) = is_closed c" "close_sent (untrack_room r c) = close_sent c"
  by (simp_all add: track_room_def untrack_room_def)

lemma allow_fields [simp]:
  "is_closed (snd (allow_control_event now c)) = is_closed c"
  "close_sent (snd (allow_control_event now c)) = close_sent c"
  "conn_rooms (snd (allow_control_event now c)) = conn_rooms c"
  "strategy (snd (allow_control_event now c)) = strategy c"
  "max_buffer_bytes (snd (allow_control_event now c)) = max_buffer_bytes c"
  "ws (snd (allow_control_event now c)) = ws c"
  by (simp_all add: allow_control_event_def Let_def)


end
