(* ===== verification/Token_Bucket.thy ===== *)
theory Token_Bucket
  imports Conn
begin

text \<open>
  The token bucket of \<^verbatim>\<open>conn.js\<close> in IEEE arithmetic: its bounds, how many control events an
  instant admits, and the configuration that locks every client out.
\<close>

section \<open>One call\<close>

text \<open>Taking one from a double below \<open>2 ^ 53\<close> is exact.\<close>

lemma double_multiple: "is_double x \<Longrightarrow> \<exists>m :: int. x = of_int m * 2 powi ulp_exp x"
proof (cases "x = 0")
  case False
  assume "is_double x"
  with False have "x = of_int (round_even (x / 2 powi ulp_exp x)) * 2 powi ulp_exp x"
    by (simp add: is_double_def fl64_def)
  then show ?thesis by blast
qed (rule exI [of _ 0], simp)

lemma ulp_small: "1 \<le> x \<Longrightarrow> x < 2 ^ 53 \<Longrightarrow> ulp_exp x \<le> 0"
proof -
  assume x: "1 \<le> x" "x < 2 ^ 53"
  have "2 powi exponent_of x \<le> x" using exponent_of_bounds(1) [of x] x by simp
  also have "\<dots> < 2 powi 53" using x by (simp add: power_int_def)
  finally have "exponent_of x < 53" by (simp only: pow2_less_iff)
  with x show ?thesis by (simp add: ulp_exp_def)
qed

lemma pred_double: "is_double x \<Longrightarrow> 1 \<le> x \<Longrightarrow> x < 2 ^ 53 \<Longrightarrow> is_double (x - 1)"
proof (cases "x = 1")
  case False
  assume x: "is_double x" "1 \<le> x" "x < 2 ^ 53"
  let ?e = "ulp_exp x" and ?f = "ulp_exp (x - 1)"
  have pos: "0 < x - 1" using False x by simp
  have le: "?f \<le> ?e"
    using exponent_of_mono [OF pos, of x] pos x by (simp add: ulp_exp_def)
  obtain m :: int where m: "x = of_int m * 2 powi ?e" using double_multiple [OF x(1)] by blast
  obtain k :: int where k: "(2 :: rat) powi ?e = of_int k * 2 powi ?f" using pow2_multiple [OF le] by blast
  have "?f \<le> 0" using le ulp_small [OF x(2,3)] by linarith
  then obtain j :: int where j: "(2 :: rat) powi 0 = of_int j * 2 powi ?f" using pow2_multiple by blast
  have "x - 1 = of_int m * (of_int k * 2 powi ?f) - of_int j * 2 powi ?f"
    using m j by (simp add: k [symmetric])
  then have "x - 1 = of_int (m * k - j) * 2 powi ?f" by (simp add: algebra_simps)
  then show ?thesis unfolding is_double_def by (rule fl64_multiple)
qed (simp add: is_double_def)

lemma round_double: "is_double k \<Longrightarrow> 0 \<le> k \<Longrightarrow> k < 2 ^ 1024 \<Longrightarrow> round_num k = Fin k"
proof -
  assume k: "is_double k" "0 \<le> k" "k < 2 ^ 1024"
  have "- (2 ^ 1024) < (0 :: rat)" by simp
  then have "\<not> k \<le> - (2 ^ 1024)" using k(2) by (metis less_le_trans not_less)
  moreover have "\<not> 2 ^ 1024 \<le> k" using k(3) by (simp only: not_le)
  ultimately show ?thesis using k(1) unfolding round_num_def is_double_def Let_def by presburger
qed

lemma round_small: "is_double k \<Longrightarrow> 0 \<le> k \<Longrightarrow> k < 2 ^ 53 \<Longrightarrow> round_num k = Fin k"
  by (rule round_double, assumption, assumption, rule less_trans [of _ "2 ^ 53"], assumption) simp

text \<open>
  A bucket whose parameters are as the options admit, but for an infinite rate or burst.
\<close>

definition bucket_ok :: "conn \<Rightarrow> bool" where
  "bucket_ok c \<longleftrightarrow>
     (\<exists>k b. control_tokens c = Fin k \<and> control_burst_val c = Fin b \<and> 0 \<le> k \<and> k \<le> b \<and> is_double k \<and> finite_double b) \<and>
     num_less (Fin 0) (control_rate c) \<and> control_rate c \<noteq> PosInf"

text \<open>What the time since the last call adds, in IEEE arithmetic, not yet limited by the burst.\<close>

definition refill :: "jsnum \<Rightarrow> conn \<Rightarrow> jsnum" where
  "refill now c = num_add (control_tokens c) (num_mul (num_div_lit (num_sub now (last_control_check c)) 1000) (control_rate c))"

lemma refill_grows:
  assumes "bucket_ok c" "last_control_check c = Fin l" "now = Fin n" "l \<le> n" "control_tokens c = Fin k"
  shows "refill now c = PosInf \<or> (\<exists>t. refill now c = Fin t \<and> k \<le> t \<and> is_double t)"
proof -
  let ?e = "num_div_lit (num_sub now (last_control_check c)) 1000"
  have k: "0 \<le> k" "is_double k" and r: "num_less (Fin 0) (control_rate c)" "control_rate c \<noteq> PosInf"
    using assms(1,5) by (auto simp: bucket_ok_def)
  have "nonneg (num_sub now (last_control_check c))"
    using assms(2-4) by (simp add: num_sub_def nonneg_round)
  then have "nonneg ?e"
    by (cases "num_sub now (last_control_check c)") (simp_all add: num_div_lit_def nonneg_round inf_of_sign_def)
  then have "nonneg (num_mul ?e (control_rate c))" using r by (intro nonneg_mul)
  then show ?thesis
  proof (cases "num_mul ?e (control_rate c)")
    case (Fin x)
    with \<open>nonneg (num_mul ?e (control_rate c))\<close> have x: "0 \<le> x" by simp
    have T: "refill now c = round_num (k + x)" using Fin assms(5) by (simp add: refill_def)
    have "k \<le> fl64 (k + x)" using fl64_mono [of k "k + x"] x k(2) by (simp add: is_double_def)
    moreover have "nonneg (refill now c)" unfolding T using x k(1) by (intro nonneg_round) simp
    moreover have "is_double (fl64 (k + x))" using x k(1) by (intro is_double_fl64) simp
    ultimately show ?thesis unfolding T by (auto simp: round_num_def Let_def split: if_splits)
  qed (use assms(5) in \<open>simp_all add: refill_def\<close>)
qed

lemma refill_now:
  assumes "control_tokens c = Fin k" "0 \<le> k" "is_double k" "k < 2 ^ 1024" "last_control_check c = Fin n"
    and "num_less (Fin 0) (control_rate c)" "control_rate c \<noteq> PosInf"
  shows "refill (Fin n) c = Fin k"
proof -
  obtain r where r: "control_rate c = Fin r" using assms(6,7) by (cases "control_rate c") simp_all
  have "refill (Fin n) c = round_num k"
    unfolding refill_def assms(1,5) r by (simp add: num_sub_def num_div_lit_def round_small is_double_def)
  then show ?thesis by (simp only: round_double [OF assms(3,2,4)])
qed

lemma limited:
  assumes "T = PosInf \<or> (\<exists>t. T = Fin t \<and> k \<le> t \<and> is_double t)" "k \<le> b" "is_double b"
  shows "\<exists>t. (if num_less (Fin b) T then Fin b else T) = Fin t \<and> k \<le> t \<and> t \<le> b \<and> is_double t"
  using assms by (cases T) auto

text \<open>
  C33: The bucket keeps its account. Take a finite rate and burst, and a clock that has not gone
  back. The call first has \<open>t\<close> tokens: those there were and the refill of the elapsed time, in
  IEEE arithmetic, at most \<open>control_burst\<close>; never fewer than before, and exactly as many when no
  time has passed. It is allowed if and only if \<open>t\<close> is at least one. An allowed call takes one
  token (exactly, below \<open>2 ^ 53\<close>; rounded above), a denied one takes none. The tokens stay
  between 0 and the burst, rate and burst do not change.
\<close>

theorem bucket_bounds:
  assumes "bucket_ok c" "last_control_check c = Fin l" "now = Fin n" "l \<le> n"
    and "control_tokens c = Fin k" "control_burst_val c = Fin b"
  shows "let (ok, c') = allow_control_event now c in
    bucket_ok c' \<and> last_control_check c' = now \<and> control_rate c' = control_rate c \<and> control_burst_val c' = Fin b \<and>
    (\<exists>t k'. Fin t = (if num_less (Fin b) (refill now c) then Fin b else refill now c) \<and>
      k \<le> t \<and> t \<le> b \<and> (l = n \<longrightarrow> t = k) \<and> (ok \<longleftrightarrow> 1 \<le> t) \<and>
      control_tokens c' = Fin k' \<and> 0 \<le> k' \<and> k' \<le> b \<and>
      (\<not> ok \<longrightarrow> k' = t) \<and> (ok \<longrightarrow> k' = fl64 (t - 1)) \<and> (ok \<and> t < 2 ^ 53 \<longrightarrow> k' = t - 1))"
proof -
  have kb: "0 \<le> k" "k \<le> b" "is_double k" "finite_double b"
    and r: "num_less (Fin 0) (control_rate c)" "control_rate c \<noteq> PosInf"
    using assms(1,5,6) by (auto simp: bucket_ok_def)
  have b: "is_double b" "b < 2 ^ 1024" using kb(4) unfolding finite_double_def by blast+
  have "k < 2 ^ 1024" using kb(2) b(2) by (rule le_less_trans)
  from refill_now [OF assms(5) kb(1,3) this _ r, of n] have now: "l = n \<Longrightarrow> refill now c = Fin k"
    using assms(2,3) by simp
  obtain t where t: "(if num_less (Fin b) (refill now c) then Fin b else refill now c) = Fin t" "k \<le> t" "t \<le> b" "is_double t"
    using limited [OF refill_grows [OF assms(1-5)] kb(2) b(1)] by blast
  have same: "l = n \<Longrightarrow> t = k" using now t(1) kb(2) by simp
  have al: "allow_control_event now c =
      (if 1 \<le> t then (True, c\<lparr>last_control_check := now, control_tokens := num_sub (Fin t) (Fin 1)\<rparr>)
       else (False, c\<lparr>last_control_check := now, control_tokens := Fin t\<rparr>))"
    using t(1) assms(6) by (auto simp: allow_control_event_def Let_def num_leq_def refill_def)
  show ?thesis
  proof (cases "1 \<le> t")
    case True
    obtain y where y: "round_num (t - 1) = Fin y" "0 \<le> y" "y \<le> b"
      using round_between [of "t - 1" b] True t(3) kb(4) by auto
    then have fl: "y = fl64 (t - 1)" by (auto simp: round_num_def Let_def split: if_splits)
    then have "is_double y" using is_double_fl64 [of "t - 1"] True by simp
    moreover have "t < 2 ^ 53 \<Longrightarrow> y = t - 1"
      using pred_double [OF t(4) True] fl by (simp add: is_double_def)
    ultimately show ?thesis
      using True kb r t y fl same assms(6) by (simp add: al num_sub_def bucket_ok_def)
  next
    case False
    then show ?thesis using t kb r same assms(6) by (simp add: al bucket_ok_def)
  qed
qed

lemma fl64_20 [simp]: "fl64 20 = 20" "fl64 19 = 19" "round_num 0 = Fin 0" "round_num 20 = Fin 20" "round_num 19 = Fin 19"
  using fl64_of_int [of 20] fl64_of_int [of 19] by (simp_all add: round_num_def)

text \<open>A connection with the default options, made at time 0.\<close>

definition default_conn :: conn where
  "default_conn = create_conn \<lparr>readyState = OPEN, bufferedAmount = Fin 0\<rparr> JUndefined JUndefined JUndefined
     JUndefined JUndefined (Fin 0)"

lemma default_bucket:
  "control_tokens default_conn = Fin 20" "control_burst_val default_conn = Fin 20"
  "control_rate default_conn = Fin 10" "last_control_check default_conn = Fin 0"
  by (simp_all add: default_conn_def create_conn_def Let_def)

theorem bucket_bounds_witness:
  "let (ok, c') = allow_control_event (Fin 1000) default_conn in
    ok \<and> bucket_ok c' \<and> last_control_check c' = Fin 1000 \<and> control_tokens c' = Fin 19"
proof -
  have ok: "bucket_ok default_conn"
    by (simp add: bucket_ok_def default_bucket finite_double_def is_double_def)
  from bucket_bounds [OF ok default_bucket(4) refl _ default_bucket(1,2), of 1000] show ?thesis
    by (auto simp: Let_def split: prod.splits)
qed

section \<open>A burst\<close>

text \<open>The outcomes of successive control events at the given times.\<close>

fun run_bucket :: "conn \<Rightarrow> jsnum list \<Rightarrow> bool list" where
  "run_bucket c [] = []"
| "run_bucket c (now # nows) =
     (let (ok, c') = allow_control_event now c in ok # run_bucket c' nows)"

text \<open>A bucket at one instant: \<open>n\<close> is the time, \<open>k\<close> the tokens.\<close>

definition bucket_at :: "rat \<Rightarrow> rat \<Rightarrow> conn \<Rightarrow> bool" where
  "bucket_at n k c \<longleftrightarrow> last_control_check c = Fin n \<and> control_tokens c = Fin k \<and> is_double k \<and> 0 \<le> k \<and> k < 2 ^ 53 \<and>
     (\<exists>b r. control_burst_val c = Fin b \<and> k \<le> b \<and> control_rate c = Fin r)"

lemma bucket_step:
  assumes "bucket_at n k c"
  shows "fst (allow_control_event (Fin n) c) \<longleftrightarrow> 1 \<le> k"
    and "bucket_at n (if 1 \<le> k then k - 1 else k) (snd (allow_control_event (Fin n) c))"
proof -
  obtain b r where c: "last_control_check c = Fin n" "control_tokens c = Fin k" "is_double k" "0 \<le> k" "k < 2 ^ 53"
      "control_burst_val c = Fin b" "k \<le> b" "control_rate c = Fin r"
    using assms by (auto simp: bucket_at_def)
  have "num_add (Fin k) (num_mul (num_div_lit (num_sub (Fin n) (Fin n)) 1000) (Fin r)) = Fin k"
    using c by (simp add: num_sub_def num_div_lit_def round_small)
  then have al: "allow_control_event (Fin n) c =
      (if 1 \<le> k then (True, c\<lparr>last_control_check := Fin n, control_tokens := num_sub (Fin k) (Fin 1)\<rparr>)
       else (False, c\<lparr>last_control_check := Fin n, control_tokens := Fin k\<rparr>))"
    using c by (simp add: allow_control_event_def Let_def num_leq_def)
  have pred: "1 \<le> k \<Longrightarrow> num_sub (Fin k) (Fin 1) = Fin (k - 1)"
    using c pred_double [of k] by (simp add: num_sub_def round_small)
  show "fst (allow_control_event (Fin n) c) \<longleftrightarrow> 1 \<le> k" by (simp add: al)
  show "bucket_at n (if 1 \<le> k then k - 1 else k) (snd (allow_control_event (Fin n) c))"
    using c pred pred_double [of k] by (simp add: al bucket_at_def)
qed

lemma run_instant:
  "bucket_at n k c \<Longrightarrow>
     run_bucket c (replicate m (Fin n)) = map (\<lambda>i. of_nat i + 1 \<le> k) [0..<m]"
proof (induction m arbitrary: k c)
  case (Suc m)
  obtain ok c' where al: "allow_control_event (Fin n) c = (ok, c')" by fastforce
  have ok: "ok \<longleftrightarrow> 1 \<le> k" "bucket_at n (if 1 \<le> k then k - 1 else k) c'"
    using bucket_step [OF Suc.prems] by (simp_all add: al)
  have "map (\<lambda>i. of_nat i + 1 \<le> (if 1 \<le> k then k - 1 else k)) [0..<m] = map (\<lambda>i. of_nat (Suc i) + 1 \<le> k) [0..<m]"
    by (auto intro!: map_cong)
  moreover have "map (\<lambda>i. of_nat i + 1 \<le> k) [0..<Suc m] = (1 \<le> k) # map (\<lambda>i. of_nat (Suc i) + 1 \<le> k) [0..<m]"
    by (simp only: upt_conv_Cons [OF zero_less_Suc] map_Suc_upt [symmetric] list.map map_map o_def) simp
  ultimately show ?case using Suc.IH [OF ok(2)] ok(1) by (simp add: al)
qed simp

text \<open>
  The burst is exact. Of any number of control events at the instant a connection was
  made, exactly the first \<open>\<lfloor>control_burst\<rfloor>\<close> are allowed, for every finite rate and every burst
  below \<open>2 ^ 53\<close>, fractions included; the subtractions are exact in IEEE arithmetic.
\<close>

theorem burst_exact:
  assumes "0 < b" "b < 2 ^ 53" "is_double b" "0 < r"
  shows "run_bucket (create_conn sock claims cap bp (JNumber (Fin r)) (JNumber (Fin b)) (Fin n)) (replicate m (Fin n))
    = map (\<lambda>i. of_nat i + 1 \<le> b) [0..<m]"
  by (rule run_instant)
    (use assms in \<open>simp add: bucket_at_def create_conn_def Let_def\<close>)

theorem burst_exact_witness:
  "run_bucket (create_conn \<lparr>readyState = OPEN, bufferedAmount = Fin 0\<rparr> JUndefined JUndefined JUndefined
      (JNumber (Fin 10)) (JNumber (Fin 20)) (Fin 0)) (replicate 25 (Fin 0))
    = map (\<lambda>i. of_nat i + 1 \<le> (20 :: rat)) [0..<25]"
  by (rule burst_exact) (simp_all add: is_double_def)

section \<open>An infinite rate\<close>

text \<open>
  An infinite rate is no rate. The options accept \<open>control_rate_limit: Infinity\<close> as a
  positive number. A client whose first control event comes in the millisecond it connected
  is denied, because 0 * Infinity is not a number, and so are all its control events at any
  later time: the bucket never recovers.
\<close>

theorem infinite_rate_locks_out:
  "run_bucket (create_conn sock claims cap bp (JNumber PosInf) burst (Fin n)) (Fin n # nows)
    = replicate (Suc (length nows)) False"
proof -
  have nan: "num_add NaN v = NaN" "num_add v NaN = NaN" "\<not> num_less v NaN" for v
    by (cases v; simp)+
  have stuck: "control_tokens c = NaN \<Longrightarrow> run_bucket c ts = replicate (length ts) False" for c ts
    by (induction ts arbitrary: c) (simp_all add: allow_control_event_def Let_def nan num_leq_def)
  let ?c = "create_conn sock claims cap bp (JNumber PosInf) burst (Fin n)"
  have "control_rate ?c = PosInf" "last_control_check ?c = Fin n" by (simp_all add: create_conn_def Let_def)
  then have "\<not> fst (allow_control_event (Fin n) ?c)" "control_tokens (snd (allow_control_event (Fin n) ?c)) = NaN"
    by (simp_all add: allow_control_event_def Let_def num_sub_def num_div_lit_def inf_of_sign_def nan num_leq_def)
  then show ?thesis
    by (cases "allow_control_event (Fin n) ?c") (simp add: stuck)
qed

end
