(* ===== verification/Hub.thy ===== *)
theory Hub
  imports Conn
begin

text \<open>
  The hub coordinator, \<^verbatim>\<open>server/node/hub.js\<close>, and the knot it ties with \<^verbatim>\<open>conn.js\<close>: closing
  a connection leaves its rooms, leaving broadcasts to the members, sending to a slow member
  closes it. The recursion is by fuel; more fuel than there are open connections is enough.
\<close>

section \<open>The connection registry\<close>

definition RESERVED_EVENTS :: "js_string list" where
  "RESERVED_EVENTS =
     map jstr [''close'', ''join'', ''join_ack'', ''leave'', ''leave_ack'', ''member_left'', ''new_member'', ''open'']"

definition reserved_error :: "js_string \<Rightarrow> js_error" where
  "reserved_error event =
     PlainError (jstr ''Cannot register handler for reserved event: '' @ [39] @ event @ [39])"

definition duplicate_error :: "js_string \<Rightarrow> js_error" where
  "duplicate_error event =
     PlainError (jstr ''Handler already registered for event: '' @ [39] @ event @ [39])"

definition register_handler :: "js_string \<Rightarrow> handler \<Rightarrow> node act" where
  "register_handler event handler s =
     (if event \<in> set RESERVED_EVENTS then (Some (reserved_error event), s)
      else if prop_has (handlers s) event then (Some (duplicate_error event), s)
      else (None, s\<lparr>handlers := prop_set (handlers s) event handler\<rparr>))"

definition get_conn :: "node \<Rightarrow> js_string \<Rightarrow> js_string option" where
  "get_conn s cid = (if prop_has (conns s) cid then Some cid else None)"

definition get_room :: "node \<Rightarrow> js_string \<Rightarrow> room option" where
  "get_room s name = prop_get (rooms s) name"

definition add_conn :: "js_string \<Rightarrow> node act" where
  "add_conn cid = perform
     [modify (\<lambda>s. s\<lparr>conns := prop_set (conns s) cid ()\<rparr>),
      adapter_do (RegisterNode cid),
      metric OnConnect]"

definition remove_conn :: "js_string \<Rightarrow> node act" where
  "remove_conn cid s =
     (if prop_has (conns s) cid
      then perform
        [modify (\<lambda>s. s\<lparr>conns := prop_del (conns s) cid\<rparr>),
         adapter_do (UnregisterNode cid),
         metric OnDisconnect] s
      else (None, s))"

section \<open>Rooms\<close>

definition broadcast_room_with ::
  "(js_string \<Rightarrow> bytes \<Rightarrow> node act) \<Rightarrow> js_string option \<Rightarrow> message \<Rightarrow> node act" where
  "broadcast_room_with try_send exclude_id msg s =
     (case msg_encode msg of
        Inl e \<Rightarrow> (Some e, s)
      | Inr raw \<Rightarrow> perform
          [\<lambda>s. if prop_has (rooms s) (msg_room msg)
               then emit_local (live (msg_room msg)) try_send exclude_id raw s else skip s,
           adapter_do (PublishRaw (msg_room msg) raw),
           await (AfterPublish (length raw))] s)"

definition new_member_msg :: "js_string \<Rightarrow> js_string \<Rightarrow> message" where
  "new_member_msg name cid =
     create_message (JString name) (JString (jstr ''new_member'')) (JString []) (JString [])
       (JString cid) JUndefined JUndefined"

definition left_msg :: "js_string \<Rightarrow> js_string \<Rightarrow> message" where
  "left_msg name cid =
     create_message (JString name) (JString (jstr ''member_left'')) (JString []) (JString [])
       (JString cid) JUndefined JUndefined"

text \<open>The part of \<open>join_room\<close> up to its \<^verbatim>\<open>await\<close>; \<open>from_dispatch\<close> tells who called.\<close>

definition open_room :: "js_string \<Rightarrow> node act" where
  "open_room name s =
     (if prop_has (rooms s) name then (None, s)
      else andthen (modify (\<lambda>s. s\<lparr>rooms := prop_set (rooms s) name create_room\<rparr>))
             (metric (OnRoomCreated name)) s)"

definition enter_room :: "js_string \<Rightarrow> js_string \<Rightarrow> node \<Rightarrow> node" where
  "enter_room name cid s =
     (case prop_get (rooms s) name of None \<Rightarrow> s
      | Some r \<Rightarrow> s\<lparr>rooms := prop_set (rooms s) name (add_member cid r)\<rparr>)"

definition join_room :: "js_string \<Rightarrow> js_string \<Rightarrow> bool \<Rightarrow> node act" where
  "join_room name cid from_dispatch = perform
     [open_room name,
      modify (upd_conn cid (track_room name)),
      modify (enter_room name cid),
      adapter_do (AddPresence name cid),
      await (AfterAddPresence name cid from_dispatch)]"

text \<open>\<open>leave_room\<close>: what it does to the room, when the room exists.\<close>

definition drop_member :: "js_string \<Rightarrow> js_string \<Rightarrow> node act" where
  "drop_member name cid s =
     (case prop_get (rooms s) name of None \<Rightarrow> (None, s)
      | Some r \<Rightarrow>
          let (is_empty, r') = remove_member cid r; s = s\<lparr>rooms := prop_set (rooms s) name r'\<rparr> in
          if is_empty
          then andthen (modify (\<lambda>s. s\<lparr>rooms := prop_del (rooms s) name\<rparr>)) (metric (OnRoomDeleted name)) s
          else (None, s))"

definition leave_room_with ::
  "(js_string \<Rightarrow> bytes \<Rightarrow> node act) \<Rightarrow> js_string \<Rightarrow> js_string \<Rightarrow> node act" where
  "leave_room_with try_send name cid = andthen
     (modify (upd_conn cid (untrack_room name)))
     (\<lambda>s. if prop_has (rooms s) name
          then perform
            [drop_member name cid,
             adapter_do (RemovePresence name cid),
             broadcast_room_with try_send (Some cid) (left_msg name cid)] s
          else skip s)"

definition leave_all_rooms_with :: "(js_string \<Rightarrow> bytes \<Rightarrow> node act) \<Rightarrow> js_string \<Rightarrow> node act" where
  "leave_all_rooms_with try_send cid s =
     for_each (\<lambda>room_name. leave_room_with try_send room_name cid) (joined_rooms (conn_of s cid)) s"

section \<open>Tying the knot\<close>

primrec close_with_fuel :: "nat \<Rightarrow> env \<Rightarrow> js_string \<Rightarrow> jsval \<Rightarrow> jsval \<Rightarrow> node act" where
  "close_with_fuel 0 env cid code reason = throw StackOverflow"
| "close_with_fuel (Suc n) env cid code reason =
     close_with_body (leave_all_rooms_with (try_send_body (close_with_fuel n env) env)) remove_conn
       env cid code reason"

definition close_with :: "env \<Rightarrow> js_string \<Rightarrow> jsval \<Rightarrow> jsval \<Rightarrow> node act" where
  "close_with env cid code reason s =
     close_with_fuel (Suc (open_count s)) env cid code reason s"

definition try_send :: "env \<Rightarrow> js_string \<Rightarrow> bytes \<Rightarrow> node act" where
  "try_send env = try_send_body (close_with env) env"

definition broadcast_room :: "env \<Rightarrow> js_string option \<Rightarrow> message \<Rightarrow> node act" where
  "broadcast_room env = broadcast_room_with (try_send env)"

definition leave_room :: "env \<Rightarrow> js_string \<Rightarrow> js_string \<Rightarrow> node act" where
  "leave_room env = leave_room_with (try_send env)"

definition leave_all_rooms :: "env \<Rightarrow> js_string \<Rightarrow> node act" where
  "leave_all_rooms env = leave_all_rooms_with (try_send env)"

definition disconnect :: "env \<Rightarrow> js_string \<Rightarrow> jsval \<Rightarrow> jsval \<Rightarrow> node act" where
  "disconnect env cid code reason s =
     (if prop_has (conns s) cid then close_with env cid code reason s else (None, s))"

section \<open>Presence and direct sends\<close>

text \<open>
  The two halves of \<open>get_cluster_presence\<close>: the local snapshot with the question to the
  adapter, and the union once it answered (or failed), in the order of \<^verbatim>\<open>Object.keys\<close>.
\<close>

definition local_snapshot :: "node \<Rightarrow> js_string \<Rightarrow> js_string list" where
  "local_snapshot s room_name =
     (case prop_get (rooms s) room_name of None \<Rightarrow> [] | Some r \<Rightarrow> snapshot r)"

definition get_cluster_presence :: "js_string \<Rightarrow> js_string \<Rightarrow> node act" where
  "get_cluster_presence room_name cid s = perform
     [adapter_do (GetPresence room_name),
      await (AfterGetPresence room_name cid (local_snapshot s room_name))] s"

definition presence_union :: "js_string list \<Rightarrow> reply \<Rightarrow> js_string list" where
  "presence_union snap reply =
     obj_keys (foldl (\<lambda>d cid. prop_set d cid ())
       (foldl (\<lambda>d cid. prop_set d cid ()) [] snap)
       (case reply of Members ms \<Rightarrow> ms | _ \<Rightarrow> []))"

definition join_ack_msg :: "js_string \<Rightarrow> js_string \<Rightarrow> js_string list \<Rightarrow> message" where
  "join_ack_msg room cid presence =
     create_message (JString room) (JString (jstr ''join_ack'')) (JString []) (JString cid)
       (JString (json_stringify (JsArr (map JsStr presence)))) JUndefined JUndefined"

definition leave_ack_msg :: "js_string \<Rightarrow> js_string \<Rightarrow> message" where
  "leave_ack_msg room cid =
     create_message (JString room) (JString (jstr ''leave_ack'')) (JString []) (JString cid)
       (JString cid) JUndefined JUndefined"

definition send_message :: "env \<Rightarrow> js_string \<Rightarrow> message \<Rightarrow> node act" where
  "send_message env cid msg s =
     (case msg_encode msg of Inl e \<Rightarrow> (Some e, s) | Inr raw \<Rightarrow> try_send env cid raw s)"

definition send_direct_to_cluster :: "message \<Rightarrow> node act" where
  "send_direct_to_cluster msg s =
     (case msg_encode msg of
        Inl e \<Rightarrow> (Some e, s)
      | Inr raw \<Rightarrow> perform [adapter_do (GetNodeForConn (msg_dst msg)), await (AfterNodeLookup raw)] s)"

section \<open>Pending promises\<close>

text \<open>
  What runs when the adapter answers. An exception there rejects the promise the code is
  part of: the server reports it nowhere, except for the \<open>join_room\<close> it started itself, whose
  promise nobody awaits: that rejection is unhandled.
\<close>

definition swallow :: "node act \<Rightarrow> node act" where
  "swallow a = try_ignore a"

definition unhandled :: "node act \<Rightarrow> node act" where
  "unhandled a s = (case a s of (None, s') \<Rightarrow> (None, s') | (Some e, s') \<Rightarrow> emit (Rejection e) s')"

fun settle :: "env \<Rightarrow> task \<Rightarrow> reply \<Rightarrow> node act" where
  "settle env (AfterAddPresence name cid from_dispatch) reply =
     (if from_dispatch
      then swallow (andthen (broadcast_room env (Some cid) (new_member_msg name cid))
                     (await (AfterJoinRoom name cid)))
      else unhandled (broadcast_room env (Some cid) (new_member_msg name cid)))"
| "settle env (AfterJoinRoom name cid) reply = get_cluster_presence name cid"
| "settle env (AfterGetPresence room cid snap) reply =
     swallow (send_message env cid (join_ack_msg room cid (presence_union snap reply)))"
| "settle env (AfterPublish n) reply =
     (if reply = Failed then emit (ConsoleError (jstr ''Failed to publish to cluster adapter:''))
      else metric (OnClusterPublish n))"
| "settle env (AfterNodeLookup raw) reply =
     (case reply of
        Failed \<Rightarrow> skip
      | NodeIs target \<Rightarrow>
          if target \<noteq> [] then perform [adapter_do (PublishDirectRaw target raw), await (AfterDirectPublish (length raw))]
          else perform [adapter_do (PublishRaw (jstr ''root'') raw), await (AfterDirectPublish (length raw))]
      | _ \<Rightarrow> perform [adapter_do (PublishRaw (jstr ''root'') raw), await (AfterDirectPublish (length raw))])"
| "settle env (AfterDirectPublish n) reply = (if reply = Failed then skip else metric (OnClusterPublish n))"

section \<open>Application code\<close>

fun do_call :: "env \<Rightarrow> api_call \<Rightarrow> node act" where
  "do_call env (SendToRoom cid room event payload) = send_to_room (broadcast_room env) cid room event payload"
| "do_call env (SendToClient cid dst event payload) =
     send_to_client (try_send env) send_direct_to_cluster cid dst event payload"
| "do_call env (CloseWith cid code reason) = close_with env cid code reason"
| "do_call env (TrySend cid raw) = try_send env cid raw"
| "do_call env (Disconnect cid code reason) = disconnect env cid code reason"
| "do_call env (BroadcastRoom exclude_id msg) = broadcast_room env exclude_id msg"
| "do_call env (JoinRoom name cid) =
     (\<lambda>s. if prop_has (heap s) cid then join_room name cid False s else skip s)"
| "do_call env (LeaveRoom name cid) = leave_room env name cid"
| "do_call env (LeaveAllRooms cid) = leave_all_rooms env cid"
| "do_call env (SendDirect msg) = send_direct_to_cluster msg"

definition run_handler :: "env \<Rightarrow> handler \<Rightarrow> js_string \<Rightarrow> message \<Rightarrow> node act" where
  "run_handler env handler cid msg =
     andthen (for_each (do_call env) (fst (handler cid msg)))
       (case snd (handler cid msg) of None \<Rightarrow> skip | Some e \<Rightarrow> throw e)"

section \<open>Dispatch\<close>

text \<open>\<open>allow\<close> runs the token bucket and goes on if it allows the event.\<close>

definition allow :: "js_string \<Rightarrow> node act \<Rightarrow> node act" where
  "allow cid a s =
     (let (ok, c) = allow_control_event (clock s) (conn_of s cid); s = upd_conn cid (\<lambda>_. c) s in
      if ok then a s else (None, s))"

definition dispatch_join :: "env \<Rightarrow> js_string \<Rightarrow> message \<Rightarrow> node act" where
  "dispatch_join env cid msg = allow cid (\<lambda>s.
     case authorize_room env of
       Some auth \<Rightarrow>
         (case auth cid (conn_of s cid) (msg_room msg) of
            Inl e \<Rightarrow> (Some e, s)
          | Inr allowed \<Rightarrow> if allowed = JBool False then (None, s) else join_room (msg_room msg) cid True s)
     | None \<Rightarrow> join_room (msg_room msg) cid True s)"

definition dispatch_leave :: "env \<Rightarrow> js_string \<Rightarrow> message \<Rightarrow> node act" where
  "dispatch_leave env cid msg = allow cid (andthen
     (leave_room env (msg_room msg) cid)
     (send_message env cid (leave_ack_msg (msg_room msg) cid)))"

definition dispatch_other :: "env \<Rightarrow> js_string \<Rightarrow> message \<Rightarrow> node act" where
  "dispatch_other env cid msg s =
     (if msg_dst msg \<noteq> [] then
        if prop_has (conns s) (msg_dst msg) then send_message env (msg_dst msg) msg s
        else send_direct_to_cluster msg s
      else
        case prop_get (handlers s) (msg_event msg) of
          Some handler \<Rightarrow>
            (case run_handler env handler cid msg s of
               (None, s') \<Rightarrow> (None, s')
             | (Some e, s') \<Rightarrow>
                 emit (ConsoleError (jstr ''Handler error for event '' @ [39] @ msg_event msg @ [39, 58])) s')
        | None \<Rightarrow> broadcast_room env (Some cid) msg s)"

definition dispatch :: "env \<Rightarrow> js_string \<Rightarrow> message \<Rightarrow> node act" where
  "dispatch env cid msg =
     (if msg_event msg = jstr ''join'' then dispatch_join env cid msg
      else if msg_event msg = jstr ''leave'' then dispatch_leave env cid msg
      else dispatch_other env cid msg)"

section \<open>The cluster subscription and shutdown\<close>

text \<open>
  \<open>new_adapter\<close>: whether \<^verbatim>\<open>configure\<close> is given an object. The adapter's calls are effects, so which
  adapter the hub holds from then on is not part of its state.
\<close>

definition configure :: "bool \<Rightarrow> node act" where
  "configure new_adapter = when_act new_adapter (adapter_do Subscribe)"

text \<open>
  \<^verbatim>\<open>create_hub(options)\<close>: a given adapter (an object) is subscribed to at once, and what becomes of
  that is ignored. The hub has no connections, rooms or handlers.
\<close>

definition create_hub :: "bool \<Rightarrow> jsnum \<Rightarrow> node" where
  "create_hub adapter_given now = snd (swallow (configure adapter_given) (init_node now))"

definition on_cluster_frame :: "env \<Rightarrow> js_string \<Rightarrow> bytes \<Rightarrow> node act" where
  "on_cluster_frame env channel_suffix raw_msg =
     andthen (metric (OnClusterReceived (length raw_msg)))
       (\<lambda>s. let packet = (if starts_with channel_suffix (jstr ''node:'') \<or> channel_suffix = jstr ''root''
                          then decode_frame raw_msg else None);
               room_name = (if starts_with channel_suffix (jstr ''room:'') then drop 5 channel_suffix
                            else channel_suffix) in
            case packet of
              Some p \<Rightarrow>
                if msg_dst p \<noteq> []
                then (if prop_has (conns s) (msg_dst p) then try_send env (msg_dst p) raw_msg s else skip s)
                else if prop_has (rooms s) room_name
                then emit_local (live room_name) (try_send env) None raw_msg s else skip s
            | None \<Rightarrow>
                if prop_has (rooms s) room_name
                then emit_local (live room_name) (try_send env) None raw_msg s else skip s)"

definition undefined_close_with :: js_error where
  "undefined_close_with = TypeError (jstr ''Cannot read properties of undefined (reading 'close_with')'')"

definition shutdown :: "env \<Rightarrow> node act" where
  "shutdown env s = perform
     [for_each (\<lambda>cid. try_ignore (\<lambda>s.
        if prop_has (conns s) cid
        then close_with env cid (JNumber (Fin 1001)) (JString (jstr ''Server shutting down'')) s
        else throw undefined_close_with s)) (obj_keys (conns s)),
      modify (\<lambda>s. s\<lparr>conns := []\<rparr>),
      modify (\<lambda>s. s\<lparr>rooms := []\<rparr>),
      adapter_do CloseAdapter] s"

end
