(* ===== verification/Server.thy ===== *)
theory Server
  imports Hub
begin

text \<open>
  The server, \<^verbatim>\<open>server/node/server.js\<close>: its options, the listeners it attaches to the
  WebSocket server and to each socket, and the heartbeat timer. An event is one turn of the
  event loop; the step relation interleaves events in any order the outside world allows.
\<close>

section \<open>Options\<close>

record server_options =
  opt_max_message_size :: jsval
  opt_channel_capacity :: jsval
  opt_backpressure :: jsval
  opt_ping_interval :: jsval
  opt_control_rate_limit :: jsval
  opt_control_burst :: jsval

record config =
  max_payload :: jsnum
  capacity :: jsnum
  backpressure :: jsnum
  ping_interval_ms :: jsnum
  cfg_control_rate :: jsnum
  cfg_control_burst :: jsnum

definition server_config :: "server_options \<Rightarrow> config" where
  "server_config opts =
     \<lparr>max_payload = positive_or (opt_max_message_size opts) (Fin (16 * 1024 * 1024)),
      capacity = positive_or (opt_channel_capacity opts) (Fin 8192),
      backpressure = number_or (opt_backpressure opts) DROP_SLOW_CLIENT,
      ping_interval_ms = positive_or (opt_ping_interval opts) (Fin 54000),
      cfg_control_rate = positive_or (opt_control_rate_limit opts) (Fin 10),
      cfg_control_burst = positive_or (opt_control_burst opts) (Fin 20)\<rparr>"

text \<open>
  The hub: the one of the options, with its own \<^verbatim>\<open>authorize_room\<close> (the options' is then not looked
  at), or a new one made of the options.
\<close>

definition mounted_hub :: "(node \<times> 'auth option) option \<Rightarrow> bool \<Rightarrow> 'auth option \<Rightarrow> jsnum \<Rightarrow> node \<times> 'auth option" where
  "mounted_hub opt_hub adapter_given opt_authorize_room now =
     (case opt_hub of Some hub \<Rightarrow> hub | None \<Rightarrow> (create_hub adapter_given now, opt_authorize_room))"

section \<open>Connections\<close>

text \<open>The outcome of \<^verbatim>\<open>opts.authorize(req)\<close>, when there is such a function.\<close>

datatype authorization = NoAuthorizer | Authorized jsval | AuthThrew

definition conn_claims_of :: "authorization \<Rightarrow> jsval" where
  "conn_claims_of a =
     (case a of
        Authorized (JObject j) \<Rightarrow> JObject j
      | Authorized (JBuffer b) \<Rightarrow> JBuffer b
      | Authorized (JUint8Array b) \<Rightarrow> JUint8Array b
      | Authorized (JArrayBuffer b) \<Rightarrow> JArrayBuffer b
      | _ \<Rightarrow> JObject (JsObj []))"

text \<open>\<open>conn_id\<close> is what \<^verbatim>\<open>randomUUID()\<close> returned.\<close>

definition on_connection :: "config \<Rightarrow> authorization \<Rightarrow> js_string \<Rightarrow> socket \<Rightarrow> node act" where
  "on_connection cfg auth conn_id sock =
     (case auth of
        AuthThrew \<Rightarrow> emit (WsReject (Fin 1008) (jstr ''Unauthorized''))
      | _ \<Rightarrow> if \<not> freezable (conn_claims_of auth) then throw unfreezable else perform
          [modify (\<lambda>s. s\<lparr>heap := prop_set (heap s) conn_id
             (create_conn sock (conn_claims_of auth) (JNumber (capacity cfg)) (JNumber (backpressure cfg))
               (JNumber (cfg_control_rate cfg)) (JNumber (cfg_control_burst cfg)) (clock s))\<rparr>),
           modify (\<lambda>s. s\<lparr>active := prop_set (active s) conn_id ()\<rparr>),
           add_conn conn_id,
           join_room (jstr ''root'') conn_id False,
           get_cluster_presence (jstr ''root'') conn_id])"

lemma no_claims_freezable [simp]: "freezable (conn_claims_of NoAuthorizer)"
  by (simp add: conn_claims_of_def freezable_def)

section \<open>Messages\<close>

text \<open>What a socket delivers: a Buffer, an array of Buffers, or an ArrayBuffer.\<close>

datatype ws_data = Whole bytes | Fragments "bytes list" | Raw_array bytes

fun message_bytes :: "ws_data \<Rightarrow> bytes" where
  "message_bytes (Whole b) = b"
| "message_bytes (Fragments bs) = concat bs"
| "message_bytes (Raw_array b) = b"

definition on_message :: "env \<Rightarrow> config \<Rightarrow> js_string \<Rightarrow> ws_data \<Rightarrow> node act" where
  "on_message env cfg conn_id data =
     (let buf = message_bytes data in
      if num_less (max_payload cfg) (js_nat (length buf))
      then close_with env conn_id (JNumber (Fin 1009)) (JString (jstr ''Message too big''))
      else andthen (metric (OnMessageReceived (length buf)))
        (case decode_message (JBuffer buf) (JNumber (max_payload cfg)) of
           Inl e \<Rightarrow> throw e
         | Inr (Some msg) \<Rightarrow> swallow (dispatch env conn_id msg)
         | Inr None \<Rightarrow> close_with env conn_id (JNumber (Fin 1002)) (JString (jstr ''Malformed packet''))))"

definition on_close :: "env \<Rightarrow> js_string \<Rightarrow> node act" where
  "on_close env conn_id =
     andthen (modify (\<lambda>s. s\<lparr>active := prop_del (active s) conn_id\<rparr>))
       (cleanup (leave_all_rooms env) remove_conn env conn_id)"

section \<open>Heartbeats\<close>

definition undefined_heartbeat :: js_error where
  "undefined_heartbeat = TypeError (jstr ''Cannot read properties of undefined (reading 'check_heartbeat')'')"

definition on_ping_timer :: "env \<Rightarrow> node act" where
  "on_ping_timer env s =
     for_each (\<lambda>cid s. if prop_has (active s) cid then check_heartbeat (close_with env) cid s
                        else throw undefined_heartbeat s) (obj_keys (active s)) s"

section \<open>Events and steps\<close>

text \<open>
  One turn of the event loop: a listener, the timer, a settled promise, a cluster frame, a
  call of the application, or a change outside the program (the clock, a socket).
\<close>

datatype event =
    Connection authorization js_string socket
  | Data js_string ws_data
  | Close js_string
  | Error js_string
  | Pong js_string
  | PingTimer
  | Settle nat reply
  | ClusterFrame js_string bytes
  | Configure
  | App api_call
  | Register js_string handler
  | Tick jsnum
  | Socket js_string socket

definition take_task :: "nat \<Rightarrow> node \<Rightarrow> node" where
  "take_task i s = s\<lparr>pending := take i (pending s) @ drop (Suc i) (pending s)\<rparr>"

fun handle :: "env \<Rightarrow> config \<Rightarrow> event \<Rightarrow> node act" where
  "handle env cfg (Connection auth cid sock) = on_connection cfg auth cid sock"
| "handle env cfg (Data cid data) = on_message env cfg cid data"
| "handle env cfg (Close cid) = on_close env cid"
| "handle env cfg (Error cid) = on_close env cid"
| "handle env cfg (Pong cid) = on_pong cid"
| "handle env cfg PingTimer = on_ping_timer env"
| "handle env cfg (Settle i reply) =
     (\<lambda>s. if i < length (pending s) then settle env (pending s ! i) reply (take_task i s) else (None, s))"
| "handle env cfg (ClusterFrame suffix raw) = on_cluster_frame env suffix raw"
| "handle env cfg Configure = configure True"
| "handle env cfg (App c) = do_call env c"
| "handle env cfg (Register ev h) = register_handler ev h"
| "handle env cfg (Tick now) = modify (\<lambda>s. s\<lparr>clock := now\<rparr>)"
| "handle env cfg (Socket cid sock) = modify (upd_conn cid (\<lambda>c. c\<lparr>ws := sock\<rparr>))"

text \<open>
  An exception that leaves its turn of the event loop is recorded. By default the process
  ends there; under an \<^verbatim>\<open>uncaughtException\<close> handler it goes on, and so does the model.
\<close>

definition turn :: "env \<Rightarrow> config \<Rightarrow> event \<Rightarrow> node \<Rightarrow> node" where
  "turn env cfg ev s =
     (case handle env cfg ev s of
        (None, s') \<Rightarrow> s'
      | (Some e, s') \<Rightarrow> s'\<lparr>out := out s' @ [Uncaught e]\<rparr>)"

text \<open>Identifiers are fresh; the listeners of a socket exist once its connection does.\<close>

definition enabled :: "event \<Rightarrow> node \<Rightarrow> bool" where
  "enabled ev s =
     (case ev of
        Connection _ cid _ \<Rightarrow> \<not> prop_has (heap s) cid
      | Data cid _ \<Rightarrow> prop_has (heap s) cid
      | Close cid \<Rightarrow> prop_has (heap s) cid
      | Error cid \<Rightarrow> prop_has (heap s) cid
      | Pong cid \<Rightarrow> prop_has (heap s) cid
      | Settle i _ \<Rightarrow> i < length (pending s)
      | Socket cid _ \<Rightarrow> prop_has (heap s) cid
      | _ \<Rightarrow> True)"

inductive step :: "env \<Rightarrow> config \<Rightarrow> node \<Rightarrow> node \<Rightarrow> bool" for env cfg where
  turn: "enabled ev s \<Longrightarrow> step env cfg s (turn env cfg ev s)"

inductive reachable :: "env \<Rightarrow> config \<Rightarrow> node \<Rightarrow> bool" for env cfg where
  init: "reachable env cfg (init_node now)"
| step: "reachable env cfg s \<Longrightarrow> step env cfg s s' \<Longrightarrow> reachable env cfg s'"

inductive_cases stepE: "step env cfg s s'"

lemma reachable_turn: "reachable env cfg s \<Longrightarrow> enabled ev s \<Longrightarrow> reachable env cfg (turn env cfg ev s)"
  by (rule reachable.step, assumption, rule step.turn)

lemma create_hub_reachable: "reachable env cfg (create_hub adapter_given now)"
proof (cases adapter_given)
  case True
  have "reachable env cfg (turn env cfg Configure (init_node now))"
    by (rule reachable_turn [OF reachable.init]) (simp add: enabled_def)
  then show ?thesis
    using True by (simp add: create_hub_def turn_def when_act_def swallow_def try_ignore_def configure_def adapter_do_def emit_def modify_def)
qed (simp add: create_hub_def swallow_def try_ignore_def configure_def when_act_def skip_def reachable.init)

end
