(* ===== verification/Closing.thy ===== *)
theory Closing
  imports Hub
begin

text \<open>
  The recursion between \<^verbatim>\<open>close_with\<close>, \<^verbatim>\<open>leave_all_rooms\<close>, \<^verbatim>\<open>broadcast_room\<close> and
  \<^verbatim>\<open>try_send\<close>: it has enough fuel, and what its elementary steps keep, it keeps. The
  locales \<open>leave_kept\<close> and \<open>close_kept\<close> state the latter; every invariant of the server is
  one of their interpretations.
\<close>

section \<open>Leaving a room, without the broadcast\<close>

definition leave_state :: "js_string \<Rightarrow> js_string \<Rightarrow> node \<Rightarrow> node" where
  "leave_state name cid s =
     (let s = upd_conn cid (untrack_room name) s in
      if prop_has (rooms s) name
      then let s = snd (drop_member name cid s) in s\<lparr>out := out s @ [Call (RemovePresence name cid)]\<rparr>
      else s)"

lemma drop_member_total: "drop_member name cid s = (None, snd (drop_member name cid s))"
  by (auto simp: drop_member_def Let_def metric_apply andthen_modify split: option.splits prod.splits)

lemma leave_room_alt:
  "leave_room_with ts name cid s =
     (if prop_has (rooms s) name
      then broadcast_room_with ts (Some cid) (left_msg name cid) (leave_state name cid s)
      else (None, leave_state name cid s))"
proof (cases "prop_has (rooms s) name")
  case True
  let ?s = "upd_conn cid (untrack_room name) s"
  obtain s' where d: "drop_member name cid ?s = (None, s')"
    using drop_member_total by blast
  show ?thesis
    using True
    by (simp add: leave_room_with_def leave_state_def andthen_modify d andthen_None adapter_do_apply)
qed (simp add: leave_room_with_def leave_state_def andthen_modify skip_apply)

lemma open_count_leave [simp]: "open_count (leave_state name cid s) = open_count s"
  by (auto simp: leave_state_def drop_member_def Let_def andthen_modify metric_apply
      split: option.splits prod.splits)

section \<open>Predicates kept by leaving\<close>

locale leave_kept =
  fixes P :: "node \<Rightarrow> bool"
  assumes leave: "P s \<Longrightarrow> P (leave_state name cid s)"
    and published: "P s \<Longrightarrow>
      P (s\<lparr>out := out s @ [Call (PublishRaw r raw)], pending := pending s @ [AfterPublish n]\<rparr>)"
begin

lemma keeps_broadcast_with:
  assumes ts: "\<And>c m. keeps P (ts c m)"
  shows "keeps P (broadcast_room_with ts ex msg)"
proof (cases "msg_encode msg")
  case (Inr raw)
  let ?walk = "\<lambda>s. if prop_has (rooms s) (msg_room msg)
    then emit_local (live (msg_room msg)) ts ex raw s else skip s"
  let ?tail = "perform [adapter_do (PublishRaw (msg_room msg) raw), await (AfterPublish (length raw))]"
  have "keeps P ?walk"
    by (intro keeps_if keeps_emit_local keeps_skip ts)
  moreover have "keeps P ?tail"
    by (rule keepsI) (simp add: act_simps published)
  ultimately have "keeps P (andthen ?walk ?tail)" by (rule keeps_andthen)
  then show ?thesis by (simp add: keeps_def broadcast_room_with_def Inr)
qed (simp add: keeps_def broadcast_room_with_def)

lemma keeps_leave_room_with:
  "(\<And>c m. keeps P (ts c m)) \<Longrightarrow> keeps P (leave_room_with ts name cid)"
  by (rule keepsI) (simp add: leave_room_alt leave keepsD [OF keeps_broadcast_with])

lemma keeps_leave_all_with:
  assumes ts: "\<And>c m. keeps P (ts c m)"
  shows "keeps P (leave_all_rooms_with ts cid)"
proof (rule keepsI)
  fix s
  assume "P s"
  have "keeps P (for_each (\<lambda>r. leave_room_with ts r cid) (joined_rooms (conn_of s cid)))"
    by (intro keeps_for_each keeps_leave_room_with ts)
  from keepsD [OF this \<open>P s\<close>] show "P (snd (leave_all_rooms_with ts cid s))"
    by (simp add: leave_all_rooms_with_def)
qed

lemma throws_broadcast_with:
  assumes ts: "\<And>c m. throws_only E P (ts c m)" and E: "E undefined_try_send"
    and enc: "\<And>e. msg_encode msg = Inl e \<Longrightarrow> E e"
  shows "throws_only E P (broadcast_room_with ts ex msg)"
proof (cases "msg_encode msg")
  case (Inr raw)
  let ?walk = "\<lambda>s. if prop_has (rooms s) (msg_room msg)
    then emit_local (live (msg_room msg)) ts ex raw s else skip s"
  let ?tail = "perform [adapter_do (PublishRaw (msg_room msg) raw), await (AfterPublish (length raw))]"
  have "throws_only E P skip"
    by (simp add: throws_only_def skip_def)
  then have "throws_only E P ?walk"
    by (intro throws_only_if throws_only_emit_local ts E)
  moreover have "throws_only E P ?tail"
    by (rule throws_onlyI) (simp add: act_simps published)
  ultimately have "throws_only E P (andthen ?walk ?tail)" by (rule throws_only_andthen)
  then show ?thesis by (simp add: throws_only_def broadcast_room_with_def Inr)
qed (simp add: throws_only_def broadcast_room_with_def enc)

lemma throws_leave_all_with:
  assumes ts: "\<And>c m. throws_only E P (ts c m)" and E: "E undefined_try_send"
    and enc: "\<And>e r. msg_encode (left_msg r cid) = Inl e \<Longrightarrow> E e"
  shows "throws_only E P (leave_all_rooms_with ts cid)"
proof -
  have "throws_only E P (broadcast_room_with ts ex (left_msg r cid))" for ex r
    by (rule throws_broadcast_with) (simp_all add: ts E enc)
  then have "throws_only E P (leave_room_with ts r cid)" for r
    unfolding throws_only_def leave_room_alt by (simp add: leave) (meson leave)
  then have "throws_only E P (for_each (\<lambda>r. leave_room_with ts r cid) rs)" for rs
    by (intro throws_only_for_each)
  then show ?thesis by (simp add: throws_only_def leave_all_rooms_with_def)
qed

lemma agree_broadcast_with:
  assumes fg: "\<And>c m. agree P (f c m) (g c m)"
  shows "agree P (broadcast_room_with f ex msg) (broadcast_room_with g ex msg)"
proof (cases "msg_encode msg")
  case (Inr raw)
  let ?walk = "\<lambda>h s. if prop_has (rooms s) (msg_room msg)
    then emit_local (live (msg_room msg)) h ex raw s else skip s"
  let ?tail = "perform [adapter_do (PublishRaw (msg_room msg) raw), await (AfterPublish (length raw))]"
  have "agree P (?walk f) (?walk g)"
    by (intro agree_if agree_emit_local fg agree_refl keeps_skip)
  moreover have "agree P ?tail ?tail"
    by (rule agree_refl, rule keepsI) (simp add: act_simps published)
  ultimately have "agree P (andthen (?walk f) ?tail) (andthen (?walk g) ?tail)"
    by (rule agree_andthen)
  then show ?thesis by (simp add: agree_def broadcast_room_with_def Inr)
qed (simp add: agree_def broadcast_room_with_def)

lemma agree_leave_room_with:
  "(\<And>c m. agree P (f c m) (g c m)) \<Longrightarrow>
     agree P (leave_room_with f name cid) (leave_room_with g name cid)"
  using agree_broadcast_with [of f g] leave by (simp add: agree_def leave_room_alt)

lemma agree_leave_all_with:
  assumes fg: "\<And>c m. agree P (f c m) (g c m)"
  shows "agree P (leave_all_rooms_with f cid) (leave_all_rooms_with g cid)"
proof -
  have "agree P (for_each (\<lambda>r. leave_room_with f r cid) rs) (for_each (\<lambda>r. leave_room_with g r cid) rs)" for rs
    by (intro agree_for_each agree_leave_room_with fg)
  then show ?thesis by (simp add: agree_def leave_all_rooms_with_def)
qed

end

section \<open>The fuel is enough\<close>

definition few_open :: "nat \<Rightarrow> node \<Rightarrow> bool" where
  "few_open n s \<longleftrightarrow> open_count s < n"

interpretation few: leave_kept "few_open n" for n
  by unfold_locales (simp_all add: few_open_def)

lemma few_remove: "few_open n (snd (remove_conn cid s)) \<longleftrightarrow> few_open n s"
  by (simp add: few_open_def remove_conn_def act_simps)

lemma few_ws_close: "few_open n (snd (ws_close env cid a s)) \<longleftrightarrow> few_open n s"
  by (simp add: few_open_def ws_close_def act_simps emit_def)

lemma agree_try_send:
  assumes fg: "\<And>c r. agree (few_open n) (f cid c r) (g cid c r)"
  shows "agree (few_open n) (try_send_body f env cid m) (try_send_body g env cid m)"
proof (rule agreeI)
  fix s
  assume "few_open n s"
  then have s': "few_open n (s\<lparr>out := out s @ es\<rparr>)" for es by (simp add: few_open_def)
  have eq: "f cid c r (s\<lparr>out := out s @ es\<rparr>) = g cid c r (s\<lparr>out := out s @ es\<rparr>)"
    "few_open n (snd (g cid c r (s\<lparr>out := out s @ es\<rparr>)))" for c r es
    using fg s' unfolding agree_def by blast+
  show "try_send_body f env cid m s = try_send_body g env cid m s \<and>
      few_open n (snd (try_send_body g env cid m s))"
    using s' \<open>few_open n s\<close>
    by (simp add: try_send_body_def Let_def metric_def emit_def when_act_def act_simps eq)
      (simp add: few_open_def)
qed

lemma agree_close_body:
  assumes ts: "\<And>c m. agree (few_open n) (f c m) (g c m)"
  shows "agree (few_open (Suc n)) (close_with_body (leave_all_rooms_with f) remove_conn env cid code r)
    (close_with_body (leave_all_rooms_with g) remove_conn env cid code r)"
proof (rule agreeI)
  fix s
  assume s: "few_open (Suc n) s"
  let ?mark = "upd_conn cid (\<lambda>c. c\<lparr>close_sent := True, is_closed := True\<rparr>)"
  let ?tail = "perform [remove_conn cid,
         \<lambda>s. if ws_closable (conn_of s cid)
             then ws_close env cid (Some (status_code code, string_or r [])) s
             else skip s]"
  have "keeps (few_open n) ?tail"
    by (intro keeps_perform) (auto intro!: keepsI simp: few_remove few_ws_close skip_apply)
  then have *: "agree (few_open n) (andthen (leave_all_rooms_with f cid) ?tail)
      (andthen (leave_all_rooms_with g cid) ?tail)"
    by (intro agree_andthen few.agree_leave_all_with ts agree_refl)
  show "close_with_body (leave_all_rooms_with f) remove_conn env cid code r s =
      close_with_body (leave_all_rooms_with g) remove_conn env cid code r s \<and>
      few_open (Suc n) (snd (close_with_body (leave_all_rooms_with g) remove_conn env cid code r s))"
  proof (cases "is_closed (conn_of s cid) \<or> close_sent (conn_of s cid)")
    case False
    then have "few_open n (?mark s)"
      using s open_count_close [of s cid "\<lambda>c. c\<lparr>close_sent := True, is_closed := True\<rparr>"]
      by (simp add: few_open_def)
    moreover have "few_open n s' \<Longrightarrow> few_open (Suc n) s'" for s' by (simp add: few_open_def)
    ultimately show ?thesis
      using False * by (simp add: close_with_body_def agree_def andthen_modify)
  qed (use s in \<open>simp add: close_with_body_def\<close>)
qed

lemma fuel_enough:
  "n \<le> m \<Longrightarrow> agree (few_open n) (close_with_fuel n env cid code r) (close_with_fuel m env cid code r)"
proof (induction n arbitrary: m cid code r)
  case 0
  show ?case by (simp add: agree_def few_open_def)
next
  case (Suc n)
  then obtain k where m: "m = Suc k" "n \<le> k" by (cases m) auto
  show ?case unfolding m close_with_fuel.simps
    by (intro agree_close_body agree_try_send Suc.IH m)
qed

lemma close_with_fuel_eq:
  "few_open n s \<Longrightarrow> close_with_fuel n env cid code r s = close_with env cid code r s"
  using agreeD [OF fuel_enough [of "Suc (open_count s)" n env cid code r], of s]
  by (simp add: close_with_def few_open_def)

lemma agree_close: "agree (few_open n) (close_with_fuel n env cid code r) (close_with env cid code r)"
  using fuel_enough [of n n env cid code r] by (simp add: agree_def close_with_fuel_eq)

subsection \<open>What may be thrown\<close>

definition range_error :: "js_error \<Rightarrow> bool" where
  "range_error e \<longleftrightarrow> (\<exists>m. e = RangeError m)"

lemma encode_range_error: "msg_encode m = Inl e \<Longrightarrow> range_error e"
  by (auto simp: msg_encode_ref encode_ref_def range_error_def room_too_long_def event_too_long_def
      dst_too_long_def src_too_long_def u8_of_num_def bindE_def Let_def
      split: if_splits sum.splits jsnum.splits)

definition close_error :: "js_error \<Rightarrow> bool" where
  "close_error e \<longleftrightarrow> range_error e \<or> e = undefined_try_send"

lemma throws_try_send:
  assumes "\<And>c r. throws_only E (few_open n) (close cid c r)"
  shows "throws_only E (few_open n) (try_send_body close env cid m)"
proof (rule throws_onlyI)
  fix s
  assume s: "few_open n s"
  then have s': "few_open n (s\<lparr>out := out s @ es\<rparr>)" for es by (simp add: few_open_def)
  have "few_open n (snd (close cid c r (s\<lparr>out := out s @ es\<rparr>)))"
    "\<And>e. fst (close cid c r (s\<lparr>out := out s @ es\<rparr>)) = Some e \<Longrightarrow> E e" for c r es
    using assms s' unfolding throws_only_def by blast+
  then show "few_open n (snd (try_send_body close env cid m s)) \<and>
      (\<forall>e. fst (try_send_body close env cid m s) = Some e \<longrightarrow> E e)"
    using s s' by (simp add: try_send_body_def Let_def metric_def emit_def when_act_def act_simps few_open_def)
qed

lemma throws_close_fuel:
  "throws_only close_error (few_open n) (close_with_fuel n env cid code r)"
proof (induction n arbitrary: cid code r)
  case 0
  show ?case by (simp add: throws_only_def few_open_def)
next
  case (Suc n)
  let ?ts = "try_send_body (close_with_fuel n env) env"
  let ?mark = "upd_conn cid (\<lambda>c. c\<lparr>close_sent := True, is_closed := True\<rparr>)"
  let ?tail = "perform [remove_conn cid,
         \<lambda>s. if ws_closable (conn_of s cid)
             then ws_close env cid (Some (status_code code, string_or r [])) s
             else skip s]"
  have "throws_only close_error (few_open n) (leave_all_rooms_with ?ts cid)"
    by (rule few.throws_leave_all_with)
      (auto intro!: throws_try_send Suc.IH simp: close_error_def intro: encode_range_error)
  moreover have "throws_only close_error (few_open n) ?tail"
  proof (rule throws_only_total)
    show "keeps (few_open n) ?tail"
      by (intro keeps_perform) (auto intro!: keepsI simp: few_remove few_ws_close skip_apply)
    show "total_act ?tail"
      by (simp add: total_act_def remove_conn_def act_simps andthen_def ws_close_def emit_def)
  qed
  ultimately have *: "throws_only close_error (few_open n) (andthen (leave_all_rooms_with ?ts cid) ?tail)"
    by (rule throws_only_andthen)
  show ?case
  proof (rule throws_onlyI)
    fix s
    assume s: "few_open (Suc n) s"
    show "few_open (Suc n) (snd (close_with_fuel (Suc n) env cid code r s)) \<and>
      (\<forall>e. fst (close_with_fuel (Suc n) env cid code r s) = Some e \<longrightarrow> close_error e)"
    proof (cases "is_closed (conn_of s cid) \<or> close_sent (conn_of s cid)")
      case False
      then have "few_open n (?mark s)"
        using s open_count_close [of s cid "\<lambda>c. c\<lparr>close_sent := True, is_closed := True\<rparr>"]
        by (simp add: few_open_def)
      moreover have "few_open n s' \<Longrightarrow> few_open (Suc n) s'" for s' by (simp add: few_open_def)
      ultimately show ?thesis
        using False * by (simp add: close_with_body_def throws_only_def andthen_modify)
    qed (use s in \<open>simp add: close_with_body_def\<close>)
  qed
qed

lemma throws_close: "fst (close_with env cid code r s) = Some e \<Longrightarrow> close_error e"
  using throws_onlyD [OF throws_close_fuel [of "Suc (open_count s)" env cid code r], of s]
  by (simp add: close_with_def few_open_def)

lemma close_with_eq:
  "close_with env cid code r s = close_with_body (leave_all_rooms env) remove_conn env cid code r s"
proof -
  let ?n = "open_count s"
  have "agree (few_open (Suc ?n))
      (close_with_body (leave_all_rooms_with (try_send_body (close_with_fuel ?n env) env)) remove_conn env cid code r)
      (close_with_body (leave_all_rooms_with (try_send_body (close_with env) env)) remove_conn env cid code r)"
    by (intro agree_close_body agree_try_send agree_close)
  then have "close_with_body (leave_all_rooms_with (try_send_body (close_with_fuel ?n env) env)) remove_conn env cid code r s
      = close_with_body (leave_all_rooms_with (try_send_body (close_with env) env)) remove_conn env cid code r s"
    by (simp add: agree_def few_open_def)
  then show ?thesis
    by (simp add: close_with_def leave_all_rooms_def try_send_def)
qed

text \<open>
  C1: Closing terminates. The mutual recursion of \<^verbatim>\<open>close_with\<close>, \<^verbatim>\<open>leave_all_rooms\<close>,
  \<^verbatim>\<open>leave_room\<close>, \<^verbatim>\<open>broadcast_room\<close>, \<^verbatim>\<open>emit_local\<close> and \<^verbatim>\<open>try_send\<close> is a fixed point of the
  source's equation in every state, whatever the members' sockets do: the fuel, one more than
  the open connections, never runs out, and all that can be thrown is a RangeError of
  \<^verbatim>\<open>encode\<close> or the TypeError of a member that left during the walk.
\<close>

theorem close_terminates:
  "close_with env cid code reason s = close_with_body (leave_all_rooms env) remove_conn env cid code reason s
   \<and> fst (close_with env cid code reason s) \<noteq> Some StackOverflow
   \<and> fst (close_with env cid code reason s) \<in> {None, Some undefined_try_send} \<union> range (\<lambda>m. Some (RangeError m))"
  using throws_close [of env cid code reason s]
  by (cases "fst (close_with env cid code reason s)")
    (auto simp: close_with_eq [symmetric] close_error_def range_error_def undefined_try_send_def)

end
