(* ===== verification/Kept.thy ===== *)
theory Kept
  imports Closing Server
begin

text \<open>
  What every step of the server keeps. The locale \<open>node_kept\<close> lists the elementary changes
  of the state, each with the facts the code has established where it makes them; a predicate
  they keep is an invariant of the hub's and the connections' operations, and, with
  \<open>server_kept\<close>, of the whole server.
\<close>

section \<open>Elementary changes\<close>

text \<open>
  Changes of a connection that touch neither its rooms, its closing flags, its limits nor its
  token bucket.
\<close>

definition bucket_of :: "conn \<Rightarrow> jsnum \<times> jsnum \<times> jsnum \<times> jsnum" where
  "bucket_of c = (control_tokens c, last_control_check c, control_rate c, control_burst_val c)"

definition inert :: "(conn \<Rightarrow> conn) \<Rightarrow> bool" where
  "inert f \<longleftrightarrow> (\<forall>c. conn_rooms (f c) = conn_rooms c \<and> is_closed (f c) = is_closed c
                     \<and> close_sent (f c) = close_sent c \<and> strategy (f c) = strategy c
                     \<and> max_buffer_bytes (f c) = max_buffer_bytes c
                     \<and> bucket_of (f c) = bucket_of c)"

text \<open>Effects that neither write to or close a socket nor announce a change of the registry.\<close>

definition neutral :: "effect \<Rightarrow> bool" where
  "neutral e =
     (case e of
        WsSend _ _ \<Rightarrow> False
      | WsClose _ _ \<Rightarrow> False
      | Metric m \<Rightarrow> (case m of OnConnect \<Rightarrow> False | OnDisconnect \<Rightarrow> False | OnRoomCreated _ \<Rightarrow> False
                     | OnRoomDeleted _ \<Rightarrow> False | _ \<Rightarrow> True)
      | Call c \<Rightarrow> (case c of AddPresence _ _ \<Rightarrow> False | RemovePresence _ _ \<Rightarrow> False
                    | RegisterNode _ \<Rightarrow> False | UnregisterNode _ \<Rightarrow> False | _ \<Rightarrow> True)
      | _ \<Rightarrow> True)"

lemma neutral_simps [simp]:
  "neutral (WsPing i)" "neutral (WsReject k m)" "neutral (ConsoleError m)" "neutral (Rejection e)"
  "neutral (Uncaught e)" "neutral (Metric (OnMessageSent n))" "neutral (Metric (OnMessageReceived n))"
  "neutral (Metric OnMessageDropped)" "neutral (Metric (OnClusterPublish n))"
  "neutral (Metric (OnClusterReceived n))" "neutral (Call (PublishRaw r raw))"
  "neutral (Call (PublishDirectRaw r raw))" "neutral (Call Subscribe)" "neutral (Call (GetPresence r))"
  "neutral (Call (GetNodeForConn i))" "neutral (Call CloseAdapter)"
  by (simp_all add: neutral_def)

lemma inert_simps [simp]:
  "inert (\<lambda>c. c\<lparr>ws := w c\<rparr>)" "inert (\<lambda>c. c\<lparr>is_alive := b\<rparr>)"
  by (simp_all add: inert_def bucket_of_def)

lemma metered_fields [simp]:
  "conn_rooms (snd (allow_control_event now c)) = conn_rooms c"
  "is_closed (snd (allow_control_event now c)) = is_closed c"
  "close_sent (snd (allow_control_event now c)) = close_sent c"
  "strategy (snd (allow_control_event now c)) = strategy c"
  "max_buffer_bytes (snd (allow_control_event now c)) = max_buffer_bytes c"
  by (simp_all add: allow_control_event_def Let_def)

locale quiet_kept =
  fixes P :: "node \<Rightarrow> bool"
  assumes kept_neutral: "P s \<Longrightarrow> neutral e \<Longrightarrow> P (s\<lparr>out := out s @ [e]\<rparr>)"
    and kept_pending: "P s \<Longrightarrow> P (s\<lparr>pending := p\<rparr>)"
    and kept_inert: "P s \<Longrightarrow> inert f \<Longrightarrow> P (upd_conn cid f s)"
    and kept_leave: "P s \<Longrightarrow> P (leave_state name cid s)"
    and kept_ws_send: "P s \<Longrightarrow> \<not> is_closed (conn_of s cid) \<Longrightarrow> P (s\<lparr>out := out s @ [WsSend cid raw]\<rparr>)"

sublocale quiet_kept \<subseteq> leave_kept
proof unfold_locales
  fix s r raw n
  assume "P s"
  then have "P (s\<lparr>out := out s @ [Call (PublishRaw r raw)]\<rparr>)" by (simp add: kept_neutral)
  then show "P (s\<lparr>out := out s @ [Call (PublishRaw r raw)], pending := pending s @ [AfterPublish n]\<rparr>)"
    by (rule kept_pending)
qed (rule kept_leave)

text \<open>Predicates that closing keeps as a whole.\<close>

locale closing_kept = quiet_kept +
  assumes keeps_close: "keeps P (close_with env cid code r)"
    and keeps_cleanup: "keeps P (cleanup (leave_all_rooms env) remove_conn env cid)"

text \<open>
  Predicates that the single changes made by closing keep; \<open>closable\<close> holds of the
  connections that may still be closed.
\<close>

locale node_kept = quiet_kept +
  fixes closable :: "js_string \<Rightarrow> bool"
  assumes kept_shut: "P s \<Longrightarrow> \<not> is_closed (conn_of s cid) \<Longrightarrow> P (upd_conn cid (\<lambda>c. c\<lparr>is_closed := True\<rparr>) s)"
    and kept_flag: "P s \<Longrightarrow> is_closed (conn_of s cid) \<Longrightarrow> P (upd_conn cid (\<lambda>c. c\<lparr>close_sent := True\<rparr>) s)"
    and kept_closable: "P s \<Longrightarrow> \<not> close_sent (conn_of s cid) \<Longrightarrow> closable cid"
    and kept_remove: "P s \<Longrightarrow> prop_has (conns s) cid \<Longrightarrow> is_closed (conn_of s cid) \<Longrightarrow>
      P (s\<lparr>conns := prop_del (conns s) cid, out := out s @ [Call (UnregisterNode cid), Metric OnDisconnect]\<rparr>)"
    and kept_ws_close: "P s \<Longrightarrow> closable cid \<Longrightarrow> prop_has (heap s) cid \<Longrightarrow> is_closed (conn_of s cid) \<Longrightarrow> close_sent (conn_of s cid) \<Longrightarrow>
      P (s\<lparr>out := out s @ [WsClose cid a]\<rparr>)"

section \<open>A closed connection stays closed\<close>

definition shut :: "js_string \<Rightarrow> bool \<Rightarrow> node \<Rightarrow> bool" where
  "shut x sent s \<longleftrightarrow> is_closed (conn_of s x) \<and> (sent \<longrightarrow> close_sent (conn_of s x))"

lemma conn_of_leave [simp]:
  "is_closed (conn_of (leave_state name cid s) x) = is_closed (conn_of s x)"
  "close_sent (conn_of (leave_state name cid s) x) = close_sent (conn_of s x)"
  by (auto simp: leave_state_def drop_member_def Let_def andthen_modify metric_apply
      split: option.splits prod.splits)

interpretation shut: leave_kept "shut x b" for x b
  by unfold_locales (simp_all add: shut_def)

lemma conn_of_remove [simp]: "conn_of (snd (remove_conn cid s)) = conn_of s"
  by (simp add: remove_conn_def act_simps)

lemma shut_try_send:
  "(\<And>c r. keeps (shut x b) (close cid c r)) \<Longrightarrow> keeps (shut x b) (try_send_body close env cid m)"
proof (rule keepsI)
  fix s
  assume *: "\<And>c r. keeps (shut x b) (close cid c r)" and s: "shut x b s"
  then have "shut x b (snd (close cid c r (s\<lparr>out := out s @ es\<rparr>)))" for c r es
    by (intro keepsD [OF *]) (simp add: shut_def)
  then show "shut x b (snd (try_send_body close env cid m s))"
    using s by (auto simp: try_send_body_def Let_def metric_def emit_def when_act_def act_simps shut_def)
qed

lemma remove_total: "remove_conn cid s = (None, snd (remove_conn cid s))"
  by (simp add: remove_conn_def act_simps)

lemma ws_close_total: "ws_close env cid a s = (None, snd (ws_close env cid a s))"
  by (simp add: ws_close_def act_simps emit_def)

text \<open>The two ways to close, with the steps that cannot throw as state transformers.\<close>

definition finish_close :: "env \<Rightarrow> js_string \<Rightarrow> (jsnum \<times> js_string) option \<Rightarrow> node \<Rightarrow> node" where
  "finish_close env cid a s =
     (let s = snd (remove_conn cid s) in
      if ws_closable (conn_of s cid) then snd (ws_close env cid a s) else s)"

definition finish_cleanup :: "env \<Rightarrow> js_string \<Rightarrow> node \<Rightarrow> node" where
  "finish_cleanup env cid s =
     (let s = snd (remove_conn cid s) in
      if \<not> close_sent (conn_of s cid) \<and> ws_closable (conn_of s cid)
      then snd (ws_close env cid None (upd_conn cid (\<lambda>c. c\<lparr>close_sent := True\<rparr>) s)) else s)"

lemma close_body_alt:
  "close_with_body leave_all remove_conn env cid code r s =
     (if is_closed (conn_of s cid) \<or> close_sent (conn_of s cid) then (None, s)
      else case leave_all cid (upd_conn cid (\<lambda>c. c\<lparr>close_sent := True, is_closed := True\<rparr>) s) of
        (Some e, s1) \<Rightarrow> (Some e, s1)
      | (None, s1) \<Rightarrow> (None, finish_close env cid (Some (status_code code, string_or r [])) s1))"
proof -
  have "perform [remove_conn cid, \<lambda>s. if ws_closable (conn_of s cid) then ws_close env cid a s else skip s] s1
      = (None, finish_close env cid a s1)" for a s1
    using remove_total [of cid s1] ws_close_total [of env cid a "snd (remove_conn cid s1)"]
    by (simp add: finish_close_def andthen_None skip_apply)
  then show ?thesis
    by (simp add: close_with_body_def act_simps) (simp add: andthen_def split: prod.split option.split)
qed

lemma cleanup_alt:
  "cleanup leave_all remove_conn env cid s =
     (if is_closed (conn_of s cid) then (None, s)
      else case leave_all cid (upd_conn cid (\<lambda>c. c\<lparr>is_closed := True\<rparr>) s) of
        (Some e, s1) \<Rightarrow> (Some e, s1)
      | (None, s1) \<Rightarrow> (None, finish_cleanup env cid s1))"
proof -
  have "perform [remove_conn cid,
         \<lambda>s. if \<not> close_sent (conn_of s cid) \<and> ws_closable (conn_of s cid)
             then andthen (modify (upd_conn cid (\<lambda>c. c\<lparr>close_sent := True\<rparr>))) (ws_close env cid None) s
             else skip s] s1
      = (None, finish_cleanup env cid s1)" for s1
    using remove_total [of cid s1] ws_close_total
    by (simp add: finish_cleanup_def andthen_None act_simps)
  then show ?thesis
    by (simp add: cleanup_def act_simps) (simp add: andthen_def split: prod.split option.split)
qed

lemma conn_of_ws_close [simp]:
  "is_closed (conn_of (snd (ws_close env cid a s)) x) = is_closed (conn_of s x)"
  "close_sent (conn_of (snd (ws_close env cid a s)) x) = close_sent (conn_of s x)"
  by (simp_all add: ws_close_def act_simps)

lemma shut_finish: "shut x b s \<Longrightarrow> shut x b (finish_close env cid a s)"
  by (auto simp: shut_def finish_close_def Let_def)

lemma shut_close_fuel: "keeps (shut x b) (close_with_fuel n env cid code r)"
proof (induction n arbitrary: cid code r)
  case 0
  show ?case by (simp add: keeps_throw)
next
  case (Suc n)
  show ?case
  proof (rule keepsI)
    fix s
    assume s: "shut x b s"
    let ?leave = "leave_all_rooms_with (try_send_body (close_with_fuel n env) env) cid"
    let ?m = "upd_conn cid (\<lambda>c. c\<lparr>close_sent := True, is_closed := True\<rparr>) s"
    have "shut x b ?m" using s by (simp add: shut_def)
    then have "shut x b (snd (?leave ?m))"
      by (rule keepsD [OF shut.keeps_leave_all_with [OF shut_try_send [OF Suc.IH]]])
    then show "shut x b (snd (close_with_fuel (Suc n) env cid code r s))"
      using s by (auto simp: close_body_alt shut_finish split: prod.splits option.splits)
  qed
qed

lemma shut_leave_all:
  "keeps (shut x b) (leave_all_rooms_with (try_send_body (close_with_fuel n env) env) cid)"
  by (intro shut.keeps_leave_all_with shut_try_send shut_close_fuel)

lemma shut_close: "keeps (shut x b) (close_with env cid code r)"
  using shut_close_fuel unfolding keeps_def close_with_def by blast

lemma shut_leave_all_rooms: "keeps (shut x b) (leave_all_rooms env cid)"
  unfolding leave_all_rooms_def try_send_def
  by (intro shut.keeps_leave_all_with shut_try_send shut_close)

section \<open>The operations keep what the elementary changes keep\<close>

lemma closable_in_heap: "ws_closable (conn_of s cid) \<Longrightarrow> prop_has (heap s) cid"
  by (rule ccontr) (simp add: conn_of_absent ws_closable_def)

lemma flag_after_shut:
  "upd_conn cid (\<lambda>c. c\<lparr>close_sent := True, is_closed := True\<rparr>) s =
     upd_conn cid (\<lambda>c. c\<lparr>close_sent := True\<rparr>) (upd_conn cid (\<lambda>c. c\<lparr>is_closed := True\<rparr>) s)"
proof -
  have eq: "(\<lambda>c :: conn. c\<lparr>close_sent := True, is_closed := True\<rparr>) =
      (\<lambda>c. c\<lparr>is_closed := True, close_sent := True\<rparr>)"
    by (rule ext) simp
  show ?thesis unfolding eq by (simp add: upd_conn_def split: option.splits)
qed

context quiet_kept
begin

lemma keeps_emit: "neutral e \<Longrightarrow> keeps P (emit e)"
  by (rule keepsI) (simp add: emit_def modify_def kept_neutral)

lemma keeps_metric: "neutral (Metric m) \<Longrightarrow> keeps P (metric m)"
  by (simp add: metric_def keeps_emit)

lemma keeps_adapter: "neutral (Call c) \<Longrightarrow> keeps P (adapter_do c)"
  by (simp add: adapter_do_def keeps_emit)

lemma keeps_await: "keeps P (await t)"
  by (rule keepsI) (simp add: await_def modify_def kept_pending)

lemma keeps_inert: "inert f \<Longrightarrow> keeps P (modify (upd_conn cid f))"
  by (rule keepsI) (simp add: modify_def kept_inert)

lemma keeps_try_send_body:
  assumes "\<And>c r. keeps P (close cid c r)"
  shows "keeps P (try_send_body close env cid m)"
proof (rule keepsI)
  fix s
  assume s: "P s"
  let ?c = "conn_of s cid"
  show "P (snd (try_send_body close env cid m s))"
  proof (cases "is_closed ?c \<or> readyState (ws ?c) \<noteq> OPEN")
    case False
    show ?thesis
    proof (cases "num_less (max_buffer_bytes ?c) (bufferedAmount (ws ?c))")
      case True
      have "keeps P (andthen (metric OnMessageDropped)
          (when_act (\<not> (num_eq (strategy ?c) DROP_NEWEST \<or> num_eq (strategy ?c) DROP_OLDEST))
             (close cid (JNumber (Fin 1008)) (JString (jstr ''Slow client buffer overflow'')))))"
        by (intro keeps_andthen keeps_when keeps_metric assms) simp
      with True False s show ?thesis by (simp add: try_send_body_def Let_def keeps_def)
    next
      case small: False
      let ?s = "upd_conn cid (\<lambda>c. c\<lparr>ws := sock_send env m (ws c)\<rparr>) s"
      have "P ?s" using s by (simp add: kept_inert)
      moreover have "\<not> is_closed (conn_of ?s cid)" using False by simp
      ultimately have "P (?s\<lparr>out := out ?s @ [WsSend cid m]\<rparr>)" by (rule kept_ws_send)
      from kept_neutral [OF this, of "Metric (OnMessageSent (length m))"] show ?thesis
        using False small by (simp add: try_send_body_def Let_def act_simps metric_def emit_def)
    qed
  qed (use s in \<open>simp add: try_send_body_def\<close>)
qed

end

context closing_kept
begin

lemma keeps_try_send: "keeps P (try_send env cid m)"
  unfolding try_send_def by (intro keeps_try_send_body keeps_close)

lemma keeps_broadcast: "keeps P (broadcast_room env ex msg)"
  unfolding broadcast_room_def by (intro keeps_broadcast_with keeps_try_send)

lemma keeps_leave_room: "keeps P (leave_room env name cid)"
  unfolding leave_room_def by (intro keeps_leave_room_with keeps_try_send)

lemma keeps_leave_all: "keeps P (leave_all_rooms env cid)"
  unfolding leave_all_rooms_def by (intro keeps_leave_all_with keeps_try_send)

end

context node_kept
begin

lemma keeps_remove: "P s \<Longrightarrow> is_closed (conn_of s cid) \<Longrightarrow> P (snd (remove_conn cid s))"
  using kept_remove [of s cid] by (simp add: remove_conn_def act_simps)

lemma keeps_ws_close:
  "P s \<Longrightarrow> closable cid \<Longrightarrow> prop_has (heap s) cid \<Longrightarrow> is_closed (conn_of s cid) \<Longrightarrow>
     close_sent (conn_of s cid) \<Longrightarrow> P (snd (ws_close env cid a s))"
  using kept_ws_close [of s cid a] by (simp add: ws_close_def act_simps emit_def kept_inert)

lemma keeps_finish_close:
  assumes s: "P s" "closable cid" "is_closed (conn_of s cid)" "close_sent (conn_of s cid)"
  shows "P (finish_close env cid a s)"
  using keeps_remove [OF s(1,3)] keeps_ws_close [of "snd (remove_conn cid s)" cid] s
    closable_in_heap [of "snd (remove_conn cid s)" cid]
  by (simp add: finish_close_def Let_def)

lemma keeps_finish_cleanup:
  assumes s: "P s" "is_closed (conn_of s cid)"
  shows "P (finish_cleanup env cid s)"
proof -
  let ?r = "snd (remove_conn cid s)"
  let ?f = "upd_conn cid (\<lambda>c. c\<lparr>close_sent := True\<rparr>) ?r"
  have r: "P ?r" using s by (rule keeps_remove)
  have "P (snd (ws_close env cid None ?f))" if c: "\<not> close_sent (conn_of ?r cid)"
  proof (rule keeps_ws_close)
    show "P ?f" using r s by (intro kept_flag) simp_all
    show "closable cid" using r c by (rule kept_closable)
    have heap: "prop_has (heap ?r) cid" by (rule ccontr) (use c conn_of_absent [of ?r cid] in simp)
    then show "prop_has (heap ?f) cid" by simp
    from heap show "close_sent (conn_of ?f cid)" "is_closed (conn_of ?f cid)" using s by simp_all
  qed
  with r show ?thesis by (simp add: finish_cleanup_def Let_def)
qed

lemma keeps_close_fuel: "keeps P (close_with_fuel n env cid code r)"
proof (induction n arbitrary: cid code r)
  case 0
  show ?case by (simp add: keeps_throw)
next
  case (Suc n)
  let ?leave = "leave_all_rooms_with (try_send_body (close_with_fuel n env) env) cid"
  show ?case
  proof (rule keepsI)
    fix s
    assume s: "P s"
    show "P (snd (close_with_fuel (Suc n) env cid code r s))"
    proof (cases "is_closed (conn_of s cid) \<or> close_sent (conn_of s cid)")
      case False
      let ?m = "upd_conn cid (\<lambda>c. c\<lparr>close_sent := True, is_closed := True\<rparr>) s"
      have cl: "closable cid" using s False kept_closable by blast
      have heap: "prop_has (heap s) cid" using False open_in_heap by blast
      have "P ?m" unfolding flag_after_shut
        using s False heap by (intro kept_flag kept_shut) auto
      then have "P (snd (?leave ?m))"
        by (rule keepsD [OF keeps_leave_all_with [OF keeps_try_send_body [OF Suc.IH]]])
      moreover have "shut cid True (snd (?leave ?m))"
        using heap by (intro keepsD [OF shut_leave_all]) (simp add: shut_def)
      ultimately have "P (finish_close env cid (Some (status_code code, string_or r [])) (snd (?leave ?m)))"
        using cl by (simp add: keeps_finish_close shut_def)
      then show ?thesis
        using False \<open>P (snd (?leave ?m))\<close>
        by (auto simp: close_body_alt split: prod.splits option.splits)
    qed (use s in \<open>simp add: close_with_body_def\<close>)
  qed
qed

lemma keeps_closing: "keeps P (close_with env cid code r)"
  using keeps_close_fuel unfolding keeps_def close_with_def by blast

lemma keeps_leave_all_closing: "keeps P (leave_all_rooms env cid)"
  unfolding leave_all_rooms_def try_send_def
  by (intro keeps_leave_all_with keeps_try_send_body keeps_closing)

lemma keeps_cleaning: "keeps P (cleanup (leave_all_rooms env) remove_conn env cid)"
proof (rule keepsI)
  fix s
  assume s: "P s"
  show "P (snd (cleanup (leave_all_rooms env) remove_conn env cid s))"
  proof (cases "is_closed (conn_of s cid)")
    case False
    let ?m = "upd_conn cid (\<lambda>c. c\<lparr>is_closed := True\<rparr>) s"
    have heap: "prop_has (heap s) cid" using False open_in_heap by blast
    have "P ?m" using s False by (rule kept_shut)
    then have "P (snd (leave_all_rooms env cid ?m))" by (rule keepsD [OF keeps_leave_all_closing])
    moreover have "shut cid False (snd (leave_all_rooms env cid ?m))"
      using heap by (intro keepsD [OF shut_leave_all_rooms]) (simp add: shut_def)
    moreover obtain e s1 where l: "leave_all_rooms env cid ?m = (e, s1)" by fastforce
    ultimately have "P s1" "P (finish_cleanup env cid s1)"
      by (simp_all add: shut_def keeps_finish_cleanup)
    then show ?thesis
      using False l by (cases e) (simp_all add: cleanup_alt)
  qed (use s in \<open>simp add: cleanup_def\<close>)
qed

end

sublocale node_kept \<subseteq> closing_kept
  by unfold_locales (rule keeps_closing, rule keeps_cleaning)

section \<open>Every turn of the event loop\<close>

definition joined_state :: "js_string \<Rightarrow> js_string \<Rightarrow> node \<Rightarrow> node" where
  "joined_state name cid s =
     (let s = enter_room name cid (upd_conn cid (track_room name) (snd (open_room name s)))
      in s\<lparr>out := out s @ [Call (AddPresence name cid)]\<rparr>)"

lemma join_room_eq:
  "join_room name cid d s =
     (None, (joined_state name cid s)\<lparr>pending := pending (joined_state name cid s) @ [AfterAddPresence name cid d]\<rparr>)"
proof -
  have "open_room name s = (None, snd (open_room name s))"
    by (simp add: open_room_def act_simps)
  then show ?thesis
    by (simp add: join_room_def andthen_None andthen_modify joined_state_def Let_def act_simps)
qed

definition connected_state :: "js_string \<Rightarrow> conn \<Rightarrow> node \<Rightarrow> node" where
  "connected_state cid c s =
     s\<lparr>heap := prop_set (heap s) cid c, active := prop_set (active s) cid (), conns := prop_set (conns s) cid (),
       out := out s @ [Call (RegisterNode cid), Metric OnConnect]\<rparr>"

lemma on_connection_eq:
  assumes "auth \<noteq> AuthThrew" "freezable (conn_claims_of auth)"
  shows "on_connection cfg auth cid sock s =
    andthen (join_room (jstr ''root'') cid False) (get_cluster_presence (jstr ''root'') cid)
      (connected_state cid
        (create_conn sock (conn_claims_of auth) (JNumber (capacity cfg)) (JNumber (backpressure cfg))
           (JNumber (cfg_control_rate cfg)) (JNumber (cfg_control_burst cfg)) (clock s)) s)"
  using assms
  by (cases auth) (simp_all add: on_connection_def connected_state_def add_conn_def act_simps andthen_None)

locale server_kept = closing_kept +
  assumes kept_init: "P (init_node now)"
    and kept_join: "P s \<Longrightarrow> prop_has (heap s) cid \<Longrightarrow> P (joined_state name cid s)"
    and kept_connect: "P s \<Longrightarrow> \<not> prop_has (heap s) cid \<Longrightarrow> conn_rooms c = [] \<Longrightarrow> \<not> is_closed c \<Longrightarrow>
      \<not> close_sent c \<Longrightarrow> P (connected_state cid c s)"
    and kept_active: "P s \<Longrightarrow> P (s\<lparr>active := a\<rparr>)"
    and kept_handlers: "P s \<Longrightarrow> P (s\<lparr>handlers := h\<rparr>)"
    and kept_clock: "P s \<Longrightarrow> P (s\<lparr>clock := t\<rparr>)"
    and kept_meter: "P s \<Longrightarrow> prop_has (heap s) cid \<Longrightarrow> P (upd_conn cid (\<lambda>c. snd (allow_control_event now c)) s)"
begin

lemma keeps_join: "P s \<Longrightarrow> prop_has (heap s) cid \<Longrightarrow> P (snd (join_room name cid d s))"
  by (simp add: join_room_eq kept_pending kept_join)

lemma keeps_presence: "keeps P (get_cluster_presence name cid)"
proof -
  have "keeps P (perform [adapter_do (GetPresence name), await (AfterGetPresence name cid snap)])" for snap
    by (intro keeps_perform) (auto intro: keeps_adapter keeps_await)
  then show ?thesis by (simp add: keeps_def get_cluster_presence_def)
qed

lemma keeps_send_message: "keeps P (send_message env cid msg)"
  by (cases "msg_encode msg") (simp_all add: keeps_def send_message_def keepsD [OF keeps_try_send])

lemma keeps_send_direct: "keeps P (send_direct_to_cluster msg)"
proof -
  have "keeps P (perform [adapter_do (GetNodeForConn d), await t])" for d t
    by (intro keeps_perform) (auto intro: keeps_adapter keeps_await)
  then show ?thesis
    by (cases "msg_encode msg") (simp_all add: keeps_def send_direct_to_cluster_def)
qed

lemma keeps_publish_direct:
  "neutral (Call c) \<Longrightarrow> keeps P (perform [adapter_do c, await t])"
  by (intro keeps_perform) (auto intro: keeps_adapter keeps_await)

lemma keeps_unhandled: "keeps P a \<Longrightarrow> keeps P (unhandled a)"
  by (auto simp: keeps_def unhandled_def emit_apply kept_neutral split: prod.splits option.splits)

lemma keeps_swallow: "keeps P a \<Longrightarrow> keeps P (swallow a)"
  by (simp add: swallow_def keeps_try)

lemma keeps_settle: "keeps P (settle env t reply)"
  by (cases t; cases reply)
    (auto intro!: keeps_swallow keeps_unhandled keeps_andthen keeps_broadcast keeps_await keeps_presence
      keeps_send_message keeps_emit keeps_metric keeps_skip keeps_publish_direct)

lemma keeps_do_call: "keeps P (do_call env c)"
proof (cases c)
  case (SendToClient i d ev pl)
  have "keeps P (send_to_client (try_send env) send_direct_to_cluster i d ev pl)"
    using keeps_send_direct keeps_try_send
    by (auto simp: keeps_def send_to_client_def Let_def split: sum.splits)
  then show ?thesis using SendToClient by simp
next
  case (Disconnect i k r)
  then show ?thesis using keeps_close by (simp add: keeps_def disconnect_def)
next
  case (JoinRoom n i)
  then show ?thesis by (simp add: keeps_def keeps_join skip_apply)
qed (simp_all add: send_to_room_def keeps_broadcast keeps_close keeps_try_send keeps_leave_room
      keeps_leave_all keeps_send_direct)

lemma keeps_run_handler: "keeps P (run_handler env h cid msg)"
  unfolding run_handler_def
  by (intro keeps_andthen keeps_for_each keeps_do_call)
    (simp add: keeps_skip keeps_throw split: option.split)

lemma keeps_allow:
  assumes a: "\<And>s. P s \<Longrightarrow> prop_has (heap s) cid \<Longrightarrow> P (snd (a s))"
    and s: "P s" "prop_has (heap s) cid"
  shows "P (snd (allow cid a s))"
proof -
  obtain ok c where al: "allow_control_event (clock s) (conn_of s cid) = (ok, c)" by fastforce
  have "upd_conn cid (\<lambda>_. c) s = upd_conn cid (\<lambda>c. snd (allow_control_event (clock s) c)) s"
    using al by (simp add: upd_conn_def conn_of_def split: option.splits)
  then have "allow cid a s =
      (let s' = upd_conn cid (\<lambda>c. snd (allow_control_event (clock s) c)) s in
       if ok then a s' else (None, s'))"
    by (simp add: allow_def al)
  moreover have "P (upd_conn cid (\<lambda>c. snd (allow_control_event (clock s) c)) s)"
    using s by (rule kept_meter)
  ultimately show ?thesis using a s by (simp add: Let_def)
qed

lemma keeps_dispatch:
  assumes s: "P s" "prop_has (heap s) cid"
  shows "P (snd (dispatch env cid msg s))"
proof -
  have "P (snd (dispatch_join env cid msg s))"
    unfolding dispatch_join_def
    by (rule keeps_allow) (auto simp: s keeps_join split: option.split sum.split)
  moreover have "P (snd (dispatch_leave env cid msg s))"
    unfolding dispatch_leave_def
    by (rule keeps_allow) (auto simp: s intro!: keepsD [OF keeps_andthen] keeps_leave_room keeps_send_message)
  moreover have "P (snd (dispatch_other env cid msg s))"
    using s(1) keepsD [OF keeps_run_handler s(1)]
    by (auto simp: dispatch_other_def emit_apply keepsD [OF keeps_send_message] keepsD [OF keeps_send_direct]
        keepsD [OF keeps_broadcast] split: option.splits prod.splits intro!: kept_neutral) (metis snd_conv)+
  ultimately show ?thesis by (simp add: dispatch_def)
qed

lemma keeps_emit_live: "keeps P (\<lambda>s. if prop_has (rooms s) r then emit_local (live r) (try_send env) ex raw s else skip s)"
  by (intro keeps_if keeps_emit_local keeps_skip keeps_try_send)

lemma keeps_cluster_frame: "keeps P (on_cluster_frame env suffix raw)"
  unfolding on_cluster_frame_def Let_def
  by (intro keeps_andthen keeps_metric keeps_case_option keeps_emit_live keeps_if keeps_try_send keeps_skip) simp_all

lemma keeps_message: "P s \<Longrightarrow> prop_has (heap s) cid \<Longrightarrow> P (snd (on_message env cfg cid data s))"
proof -
  assume s: "P s" "prop_has (heap s) cid"
  let ?b = "message_bytes data" and ?s = "s\<lparr>out := out s @ [Metric (OnMessageReceived (length (message_bytes data)))]\<rparr>"
  have s': "P ?s" "prop_has (heap ?s) cid" using s by (simp_all add: kept_neutral)
  show ?thesis
    using s keepsD [OF keeps_close] s' keeps_dispatch [OF s']
    by (cases "decode_message (JBuffer ?b) (JNumber (max_payload cfg))")
      (auto simp: on_message_def Let_def andthen_None [OF metric_apply] throw_def swallow_def try_ignore_def split: option.split)
qed

lemma keeps_on_close: "keeps P (on_close env cid)"
  unfolding on_close_def
  by (intro keeps_andthen keeps_cleanup) (simp add: keeps_def modify_def kept_active)

lemma keeps_heartbeat: "keeps P (check_heartbeat (close_with env) cid)"
proof -
  have "keeps P (andthen (modify (upd_conn cid (\<lambda>c. c\<lparr>is_alive := False\<rparr>)))
        (\<lambda>s. if readyState (ws (conn_of s cid)) = OPEN then emit (WsPing cid) s else skip s))"
    by (intro keeps_andthen keeps_inert keeps_if keeps_emit keeps_skip) simp_all
  then show ?thesis using keeps_close by (simp add: keeps_def check_heartbeat_def)
qed

lemma keeps_ping_timer: "keeps P (on_ping_timer env)"
proof -
  have "keeps P (for_each (\<lambda>cid s. if prop_has (active s) cid then check_heartbeat (close_with env) cid s
                        else throw undefined_heartbeat s) ks)" for ks
    by (intro keeps_for_each keeps_if keeps_heartbeat keeps_throw)
  then show ?thesis by (simp add: keeps_def on_ping_timer_def)
qed

lemma keeps_connection: "P s \<Longrightarrow> \<not> prop_has (heap s) cid \<Longrightarrow> P (snd (on_connection cfg auth cid sock s))"
proof (cases "auth = AuthThrew \<or> \<not> freezable (conn_claims_of auth)")
  case True
  assume "P s"
  with True show ?thesis
    by (cases auth) (auto simp: on_connection_def emit_apply kept_neutral throw_def)
next
  case False
  assume s: "P s" "\<not> prop_has (heap s) cid"
  let ?c = "create_conn sock (conn_claims_of auth) (JNumber (capacity cfg)) (JNumber (backpressure cfg))
           (JNumber (cfg_control_rate cfg)) (JNumber (cfg_control_burst cfg)) (clock s)"
  have "P (connected_state cid ?c s)"
    using s by (intro kept_connect) (simp_all add: create_conn_def Let_def)
  then have "P (snd (join_room (jstr ''root'') cid False (connected_state cid ?c s)))"
    by (rule keeps_join) (simp add: connected_state_def)
  then show ?thesis
    using False keepsD [OF keeps_presence] by (simp add: on_connection_eq andthen_None [OF join_room_eq] join_room_eq)
qed

lemma keeps_handle: "P s \<Longrightarrow> enabled ev s \<Longrightarrow> P (snd (handle env cfg ev s))"
  by (cases ev)
    (simp_all add: enabled_def keeps_connection keeps_message keepsD [OF keeps_on_close] on_pong_def
      keepsD [OF keeps_inert] keepsD [OF keeps_ping_timer] keepsD [OF keeps_settle] take_task_def
      kept_pending keepsD [OF keeps_cluster_frame] configure_def when_act_def keepsD [OF keeps_adapter]
      keepsD [OF keeps_do_call] register_handler_def kept_handlers modify_apply kept_clock kept_inert)

lemma keeps_turn: "P s \<Longrightarrow> enabled ev s \<Longrightarrow> P (turn env cfg ev s)"
  using keeps_handle [of s ev env cfg]
  by (auto simp: turn_def kept_neutral split: prod.split option.split)

lemma reachable_invariant: "reachable env cfg s \<Longrightarrow> P s"
  by (induction rule: reachable.induct) (auto simp: kept_init elim!: stepE intro: keeps_turn)

end

end
