(* ===== verification/Membership.thy ===== *)
theory Membership
  imports Kept
begin

text \<open>
  The invariants of the server over all interleavings: rooms and connections agree on who is
  where, the adapter's presence and the metrics mirror the hub, open connections are
  registered. Each is an interpretation of \<open>server_kept\<close>.
\<close>

section \<open>Rooms as sets of pairs\<close>

lemma live_drop [simp]:
  "live r (snd (drop_member name cid s)) = (if r = name then prop_del (live r s) cid else live r s)"
  by (auto simp: live_def drop_member_def Let_def andthen_modify metric_apply remove_member_def
      split: option.splits)

lemma drop_fields [simp]:
  "heap (snd (drop_member name cid s)) = heap s" "conns (snd (drop_member name cid s)) = conns s"
  "conn_of (snd (drop_member name cid s)) = conn_of s"
  by (auto simp: drop_member_def Let_def andthen_modify metric_apply conn_of_def fun_eq_iff
      split: option.splits prod.splits)

lemma live_leave [simp]:
  "live r (leave_state name cid s) = (if r = name then prop_del (live r s) cid else live r s)"
proof (cases "prop_has (rooms s) name")
  case False
  then have "live name s = []" by (simp add: live_def prop_has_get)
  then show ?thesis using False by (simp add: leave_state_def)
qed (simp add: leave_state_def Let_def)

lemma member_leave [simp]:
  "member (leave_state name cid s) r x \<longleftrightarrow> member s r x \<and> \<not> (r = name \<and> x = cid)"
  by (auto simp: member_def)

lemma tracks_leave [simp]:
  "tracks (leave_state name cid s) x r \<longleftrightarrow> tracks s x r \<and> \<not> (r = name \<and> x = cid)"
  using tracks_in_heap [of s x r]
  by (auto simp: leave_state_def Let_def tracks_def)

lemma heap_leave [simp]:
  "prop_has (heap (leave_state name cid s)) x \<longleftrightarrow> prop_has (heap s) x"
  "conns (leave_state name cid s) = conns s"
  by (simp_all add: leave_state_def Let_def)

lemma live_open [simp]: "live r (snd (open_room name s)) = live r s"
  by (auto simp: open_room_def act_simps live_def prop_has_get create_room_def split: option.splits)

lemma open_fields [simp]:
  "heap (snd (open_room name s)) = heap s" "conns (snd (open_room name s)) = conns s"
  "conn_of (snd (open_room name s)) = conn_of s" "prop_has (rooms (snd (open_room name s))) name"
  by (simp_all add: open_room_def act_simps)

lemma live_enter [simp]:
  "prop_has (rooms s) name \<Longrightarrow>
     live r (enter_room name cid s) = (if r = name then prop_set (live r s) cid () else live r s)"
  by (auto simp: enter_room_def live_def prop_has_get add_member_def split: option.splits)

lemma enter_fields [simp]:
  "heap (enter_room name cid s) = heap s" "conns (enter_room name cid s) = conns s"
  "conn_of (enter_room name cid s) = conn_of s" "out (enter_room name cid s) = out s"
  by (auto simp: enter_room_def split: option.splits)

lemma live_joined [simp]:
  "live r (joined_state name cid s) = (if r = name then prop_set (live r s) cid () else live r s)"
  by (simp add: joined_state_def Let_def)

lemma member_joined [simp]:
  "member (joined_state name cid s) r x \<longleftrightarrow> member s r x \<or> r = name \<and> x = cid"
  by (auto simp: member_def)

lemma tracks_joined [simp]:
  "prop_has (heap s) cid \<Longrightarrow> tracks (joined_state name cid s) x r \<longleftrightarrow> tracks s x r \<or> r = name \<and> x = cid"
  by (auto simp: joined_state_def Let_def tracks_def)

lemma joined_fields [simp]:
  "prop_has (heap (joined_state name cid s)) x \<longleftrightarrow> prop_has (heap s) x"
  "conns (joined_state name cid s) = conns s"
  "is_closed (conn_of (joined_state name cid s) x) = is_closed (conn_of s x)"
  "close_sent (conn_of (joined_state name cid s) x) = close_sent (conn_of s x)"
  by (simp_all add: joined_state_def Let_def)

lemma live_connected [simp]: "live r (connected_state cid c s) = live r s"
  by (simp add: connected_state_def live_def)

lemma member_connected [simp]: "member (connected_state cid c s) r x = member s r x"
  by (simp add: member_def)

lemma conn_of_connected [simp]:
  "conn_of (connected_state cid c s) x = (if x = cid then c else conn_of s x)"
  by (simp add: connected_state_def conn_of_def)

lemma connected_fields [simp]:
  "prop_has (heap (connected_state cid c s)) x \<longleftrightarrow> x = cid \<or> prop_has (heap s) x"
  "conns (connected_state cid c s) = prop_set (conns s) cid ()" "rooms (connected_state cid c s) = rooms s"
  "out (connected_state cid c s) = out s @ [Call (RegisterNode cid), Metric OnConnect]"
  by (simp_all add: connected_state_def)

lemma tracks_inert [simp]: "inert f \<Longrightarrow> tracks (upd_conn cid f s) x r = tracks s x r"
  by (auto simp: tracks_def inert_def)

lemma inert_fields [simp]:
  "inert f \<Longrightarrow> is_closed (f c) = is_closed c" "inert f \<Longrightarrow> close_sent (f c) = close_sent c"
  "inert f \<Longrightarrow> conn_rooms (f c) = conn_rooms c" "inert f \<Longrightarrow> strategy (f c) = strategy c"
  "inert f \<Longrightarrow> max_buffer_bytes (f c) = max_buffer_bytes c"
  by (simp_all add: inert_def)

lemma rooms_leave:
  "rooms (leave_state name cid s) =
     (case prop_get (rooms s) name of None \<Rightarrow> rooms s
      | Some r \<Rightarrow> let rs = prop_set (rooms s) name (snd (remove_member cid r)) in
                 if fst (remove_member cid r) then prop_del rs name else rs)"
  by (auto simp: leave_state_def Let_def drop_member_def prop_has_get andthen_modify metric_apply
      split: option.splits prod.splits)

lemma rooms_joined:
  "rooms (joined_state name cid s) =
     prop_set (rooms s) name
       (add_member cid (case prop_get (rooms s) name of None \<Rightarrow> create_room | Some r \<Rightarrow> r))"
  by (auto simp: joined_state_def Let_def enter_room_def open_room_def prop_has_get act_simps
      split: option.splits)

lemma tracks_connected [simp]:
  "conn_rooms c = [] \<Longrightarrow> \<not> prop_has (heap s) cid \<Longrightarrow> tracks (connected_state cid c s) x r = tracks s x r"
  by (simp add: tracks_def conn_of_absent)

lemma init_simps [simp]:
  "\<not> tracks (init_node now) x r" "\<not> member (init_node now) r x" "rooms (init_node now) = []"
  "conns (init_node now) = []" "out (init_node now) = []" "conn_of (init_node now) x = no_conn"
  by (simp_all add: tracks_def member_def live_def init_node_def conn_of_def)

section \<open>Membership\<close>

definition rooms_ok :: "node \<Rightarrow> bool" where
  "rooms_ok s \<longleftrightarrow> wf_dict (rooms s) \<and>
     (\<forall>name r. prop_get (rooms s) name = Some r \<longrightarrow> wf_dict (members r) \<and> members r \<noteq> [])"

definition membership :: "node \<Rightarrow> bool" where
  "membership s \<longleftrightarrow> rooms_ok s \<and> (\<forall>name cid. member s name cid \<longleftrightarrow> tracks s cid name)"

lemma rooms_ok_leave: "rooms_ok s \<Longrightarrow> rooms_ok (leave_state name cid s)"
  by (auto simp: rooms_ok_def rooms_leave Let_def remove_member_def split: option.splits if_splits)

lemma rooms_ok_joined: "rooms_ok s \<Longrightarrow> rooms_ok (joined_state name cid s)"
  by (auto simp: rooms_ok_def rooms_joined add_member_def create_room_def split: option.splits if_splits)

lemma rooms_ok_live: "rooms_ok s \<Longrightarrow> prop_has (rooms s) r \<longleftrightarrow> live r s \<noteq> []"
  by (auto simp: rooms_ok_def live_def prop_has_get split: option.splits)

lemma rooms_ok_other [simp]:
  "rooms_ok (s\<lparr>conns := a\<rparr>) = rooms_ok s" "rooms_ok (s\<lparr>heap := b\<rparr>) = rooms_ok s"
  "rooms_ok (s\<lparr>handlers := c\<rparr>) = rooms_ok s" "rooms_ok (s\<lparr>active := d\<rparr>) = rooms_ok s"
  "rooms_ok (s\<lparr>clock := e\<rparr>) = rooms_ok s" "rooms_ok (s\<lparr>pending := f\<rparr>) = rooms_ok s"
  "rooms_ok (s\<lparr>out := g\<rparr>) = rooms_ok s" "rooms_ok (upd_conn cid h s) = rooms_ok s"
  "rooms_ok (connected_state cid k s) = rooms_ok s" "rooms_ok (init_node now)"
  by (simp_all add: rooms_ok_def)

interpretation membership_closing: node_kept membership "\<lambda>_. True"
  by unfold_locales (simp_all add: membership_def rooms_ok_leave)

interpretation membership: server_kept membership
  by unfold_locales
    (simp_all add: membership_def rooms_ok_leave rooms_ok_joined)

section \<open>The registry\<close>

definition registered :: "node \<Rightarrow> bool" where
  "registered s \<longleftrightarrow> wf_dict (conns s) \<and> (\<forall>x. prop_has (conns s) x \<longrightarrow> prop_has (heap s) x)
     \<and> (\<forall>x. \<not> is_closed (conn_of s x) \<longrightarrow> prop_has (conns s) x)"

interpretation registered_closing: node_kept registered "\<lambda>_. True"
  by unfold_locales (auto simp: registered_def)

interpretation registered: server_kept registered
  by unfold_locales (auto simp: registered_def)

section \<open>The adapter mirrors the hub\<close>

definition adapter_state :: "jsval \<Rightarrow> node \<Rightarrow> local_adapter" where
  "adapter_state v s = fold local_call (calls_of (out s)) (create_local_adapter v)"

definition mirrored :: "jsval \<Rightarrow> node \<Rightarrow> bool" where
  "mirrored v s \<longleftrightarrow>
     (let a = adapter_state v s in
      local_invar a \<and> node_id_val a = node_id_val (create_local_adapter v) \<and>
      (\<forall>r x. x \<in> set (get_presence a r) \<longleftrightarrow> member s r x) \<and>
      (\<forall>x. get_node_for_conn a x = (if prop_has (conns s) x then Some (node_id_val a) else None)))"

lemma calls_leave [simp]:
  "calls_of (out (leave_state name cid s)) =
     calls_of (out s) @ (if prop_has (rooms s) name then [RemovePresence name cid] else [])"
  by (auto simp: leave_state_def Let_def drop_member_def andthen_modify metric_apply
      split: option.splits prod.splits)

lemma calls_joined [simp]:
  "calls_of (out (joined_state name cid s)) = calls_of (out s) @ [AddPresence name cid]"
  by (simp add: joined_state_def Let_def open_room_def act_simps)

lemma neutral_call:
  "neutral e \<Longrightarrow> fold local_call (case e of Call c \<Rightarrow> [c] | _ \<Rightarrow> []) a = a"
  by (cases e) (auto simp: neutral_def split: adapter_call.splits)

lemma adapter_fields [simp]:
  "node_id_val (add_presence r c a) = node_id_val a" "node_map (add_presence r c a) = node_map a"
  "node_id_val (remove_presence r c a) = node_id_val a" "node_map (remove_presence r c a) = node_map a"
  by (auto simp: add_presence_def remove_presence_def Let_def split: option.split)

lemma adapter_other [simp]:
  "adapter_state v (s\<lparr>conns := b\<rparr>) = adapter_state v s" "adapter_state v (s\<lparr>heap := h\<rparr>) = adapter_state v s"
  "adapter_state v (s\<lparr>active := c\<rparr>) = adapter_state v s" "adapter_state v (s\<lparr>handlers := d\<rparr>) = adapter_state v s"
  "adapter_state v (s\<lparr>clock := e\<rparr>) = adapter_state v s" "adapter_state v (s\<lparr>pending := f\<rparr>) = adapter_state v s"
  "adapter_state v (upd_conn cid g s) = adapter_state v s"
  "adapter_state v (s\<lparr>out := out s @ es\<rparr>) = fold local_call (calls_of es) (adapter_state v s)"
  "adapter_state v (s\<lparr>conns := b, out := out s @ es\<rparr>) = fold local_call (calls_of es) (adapter_state v s)"
  by (simp_all add: adapter_state_def)

lemma adapter_leave:
  "adapter_state v (leave_state name cid s) =
     (if prop_has (rooms s) name then remove_presence name cid (adapter_state v s) else adapter_state v s)"
  by (simp add: adapter_state_def)

lemma adapter_joined:
  "adapter_state v (joined_state name cid s) = add_presence name cid (adapter_state v s)"
  by (simp add: adapter_state_def)

lemma adapter_connected:
  "adapter_state v (connected_state cid c s) = register_node cid (adapter_state v s)"
  by (simp add: adapter_state_def)

lemma get_presence_nodes [simp]: "get_presence (a\<lparr>node_map := n\<rparr>) r = get_presence a r"
  by (simp add: get_presence_def)

lemma no_room_no_member: "\<not> prop_has (rooms s) name \<Longrightarrow> \<not> member s name x"
  by (simp add: member_def live_def prop_has_get)

lemma mirrored_init: "mirrored v (init_node now)"
  by (simp add: mirrored_def Let_def adapter_state_def local_invar_create)
    (simp add: create_local_adapter_def get_presence_def get_node_for_conn_def)

interpretation mirrored_closing: node_kept "mirrored v" "\<lambda>_. True" for v
proof unfold_locales
  fix s name cid
  assume m: "mirrored v s"
  then show "mirrored v (leave_state name cid s)"
    using no_room_no_member [of s name]
    by (auto simp: mirrored_def Let_def adapter_leave local_invar_remove local_store.members_remove
        get_node_for_conn_def)
next
  fix s cid
  assume m: "mirrored v s"
  then show "mirrored v (s\<lparr>conns := prop_del (conns s) cid,
      out := out s @ [Call (UnregisterNode cid), Metric OnDisconnect]\<rparr>)"
    by (simp add: mirrored_def Let_def unregister_node_def local_invar_node get_node_for_conn_def)
qed (auto simp: mirrored_def Let_def neutral_call)

interpretation mirrored: server_kept "mirrored v" for v
proof unfold_locales
  fix s name cid
  assume m: "mirrored v s"
  then show "mirrored v (joined_state name cid s)"
    by (auto simp: mirrored_def Let_def adapter_joined local_invar_add local_store.members_add
        get_node_for_conn_def)
next
  fix s cid c
  assume m: "mirrored v s"
  then show "mirrored v (connected_state cid c s)"
    by (simp add: mirrored_def Let_def adapter_connected register_node_def local_invar_node get_node_for_conn_def)
next
  fix now
  show "mirrored v (init_node now)" by (rule mirrored_init)
qed (auto simp: mirrored_def Let_def)

section \<open>The metrics count the hub's dictionaries\<close>

definition counted :: "node \<Rightarrow> bool" where
  "counted s \<longleftrightarrow> rooms_ok s \<and> registered s \<and>
     active_rooms (collect (metrics_of (out s))) = length (rooms s) \<and>
     active_connections (collect (metrics_of (out s))) = length (conns s)"

lemma metrics_leave [simp]:
  "metrics_of (out (leave_state name cid s)) =
     metrics_of (out s) @
       (case prop_get (rooms s) name of None \<Rightarrow> []
        | Some r \<Rightarrow> if fst (remove_member cid r) then [OnRoomDeleted name] else [])"
  by (auto simp: leave_state_def Let_def drop_member_def prop_has_get andthen_modify metric_apply
      split: option.splits prod.splits)

lemma metrics_joined [simp]:
  "metrics_of (out (joined_state name cid s)) =
     metrics_of (out s) @ (if prop_has (rooms s) name then [] else [OnRoomCreated name])"
  by (simp add: joined_state_def Let_def open_room_def act_simps)

lemma neutral_metric:
  "neutral e \<Longrightarrow> active_rooms (collect (ms @ (case e of Metric m \<Rightarrow> [m] | _ \<Rightarrow> []))) = active_rooms (collect ms)"
  "neutral e \<Longrightarrow> active_connections (collect (ms @ (case e of Metric m \<Rightarrow> [m] | _ \<Rightarrow> []))) = active_connections (collect ms)"
  by (cases e; auto simp: neutral_def split: metric.splits)+

lemma counted_leave: "counted s \<Longrightarrow> counted (leave_state name cid s)"
  using rooms_ok_leave [of s name cid] registered_closing.kept_leave [of s name cid]
  by (cases "prop_get (rooms s) name")
    (auto simp: counted_def rooms_leave Let_def length_prop_set length_prop_del prop_has_get rooms_ok_def
      dict_empty_iff [of "rooms s"])

lemma counted_joined: "counted s \<Longrightarrow> prop_has (heap s) cid \<Longrightarrow> counted (joined_state name cid s)"
  using rooms_ok_joined [of s name cid] registered.kept_join [of s cid name]
  by (auto simp: counted_def rooms_joined length_prop_set)

lemma registered_conns: "registered s \<Longrightarrow> \<not> prop_has (heap s) x \<Longrightarrow> \<not> prop_has (conns s) x"
  by (auto simp: registered_def)

lemma registered_wf: "registered s \<Longrightarrow> wf_dict (conns s)"
  by (simp add: registered_def)

lemma counted_remove:
  assumes "counted s" "prop_has (conns s) cid" "is_closed (conn_of s cid)"
  shows "counted (s\<lparr>conns := prop_del (conns s) cid,
      out := out s @ [Call (UnregisterNode cid), Metric OnDisconnect]\<rparr>)"
proof -
  have "conns s \<noteq> []" using assms(2) by auto
  then show ?thesis
    using assms registered_closing.kept_remove [of s cid]
    by (simp add: counted_def registered_wf length_prop_del)
qed

interpretation counted_closing: node_kept counted "\<lambda>_. True"
  by unfold_locales
    (erule counted_leave | erule (2) counted_remove
      | (auto simp: counted_def registered_def neutral_metric) [1])+

interpretation counted: server_kept counted
  by unfold_locales
    (erule (1) counted_joined
      | (auto simp: counted_def registered_def length_prop_set create_in_memory_metrics_def) [1])+

section \<open>What is written to a socket\<close>

definition closed_ids :: "effect list \<Rightarrow> js_string list" where
  "closed_ids es = concat (map (\<lambda>e. case e of WsClose cid _ \<Rightarrow> [cid] | _ \<Rightarrow> []) es)"

lemma closed_ids_simps [simp]:
  "closed_ids [] = []" "closed_ids (es @ fs) = closed_ids es @ closed_ids fs"
  "closed_ids (e # es) = (case e of WsClose cid _ \<Rightarrow> [cid] | _ \<Rightarrow> []) @ closed_ids es"
  by (simp_all add: closed_ids_def)

lemma closed_neutral: "neutral e \<Longrightarrow> (case e of WsClose cid _ \<Rightarrow> [cid] | _ \<Rightarrow> []) = []"
  by (cases e) (simp_all add: neutral_def)

lemma closed_leave [simp]: "closed_ids (out (leave_state name cid s)) = closed_ids (out s)"
  by (auto simp: leave_state_def Let_def drop_member_def andthen_modify metric_apply
      split: option.splits prod.splits)

lemma closed_joined [simp]: "closed_ids (out (joined_state name cid s)) = closed_ids (out s)"
  by (simp add: joined_state_def Let_def open_room_def act_simps)

text \<open>Every frame is written before its socket is closed.\<close>

primrec orderly :: "effect list \<Rightarrow> bool" where
  "orderly [] = True"
| "orderly (e # es) =
     (orderly es \<and> (case e of
        WsClose cid _ \<Rightarrow> list_all (\<lambda>f. case f of WsSend x _ \<Rightarrow> x \<noteq> cid | _ \<Rightarrow> True) es
      | _ \<Rightarrow> True))"

lemma orderly_snoc [simp]:
  "orderly (es @ [e]) \<longleftrightarrow>
     orderly es \<and> (case e of WsSend x _ \<Rightarrow> x \<notin> set (closed_ids es) | _ \<Rightarrow> True)"
  by (induction es) (auto split: effect.splits)

lemma orderly_append_quiet:
  "orderly es \<Longrightarrow> list_all (\<lambda>e. case e of WsSend _ _ \<Rightarrow> False | _ \<Rightarrow> True) fs \<Longrightarrow> orderly (es @ fs)"
proof (induction fs arbitrary: es)
  case (Cons f fs)
  then have "orderly (es @ [f])" by (auto split: effect.splits)
  with Cons.IH [of "es @ [f]"] Cons.prems show ?case by simp
qed simp

definition silent :: "node \<Rightarrow> bool" where
  "silent s \<longleftrightarrow> orderly (out s) \<and> (\<forall>x \<in> set (closed_ids (out s)). is_closed (conn_of s x) \<and> prop_has (heap s) x)"

lemma out_leave:
  "\<exists>fs. out (leave_state name cid s) = out s @ fs \<and>
     list_all (\<lambda>e. case e of WsSend _ _ \<Rightarrow> False | _ \<Rightarrow> True) fs"
  by (auto simp: leave_state_def Let_def drop_member_def andthen_modify metric_apply
      split: option.splits prod.splits)

lemma out_joined:
  "\<exists>fs. out (joined_state name cid s) = out s @ fs \<and>
     list_all (\<lambda>e. case e of WsSend _ _ \<Rightarrow> False | _ \<Rightarrow> True) fs"
  by (auto simp: joined_state_def Let_def open_room_def act_simps)

lemma orderly_leave: "orderly (out s) \<Longrightarrow> orderly (out (leave_state name cid s))"
  using out_leave [of name cid s] orderly_append_quiet by force

lemma orderly_joined: "orderly (out s) \<Longrightarrow> orderly (out (joined_state name cid s))"
  using out_joined [of name cid s] orderly_append_quiet by force

lemma orderly_neutral: "orderly es \<Longrightarrow> neutral e \<Longrightarrow> orderly (es @ [e])"
  by (cases e) (simp_all add: neutral_def)

interpretation silent_closing: node_kept silent "\<lambda>_. True"
  by unfold_locales
    (auto simp: silent_def closed_neutral orderly_leave orderly_append_quiet split: effect.splits
      dest: orderly_neutral)

interpretation silent: server_kept silent
proof unfold_locales
  fix s cid name
  assume "silent s" "prop_has (heap s) cid"
  then show "silent (joined_state name cid s)" by (simp add: silent_def orderly_joined)
next
  fix s cid c
  assume "silent s" "\<not> prop_has (heap s) cid"
  then show "silent (connected_state cid c s)"
    using orderly_append_quiet [of "out s" "[Call (RegisterNode cid), Metric OnConnect]"]
    by (auto simp: silent_def)
qed (simp_all add: silent_def)

text \<open>A connection whose close frame is under way, but not written yet.\<close>

definition unclosed :: "js_string \<Rightarrow> node \<Rightarrow> bool" where
  "unclosed x s \<longleftrightarrow> close_sent (conn_of s x) \<and> x \<notin> set (closed_ids (out s))"

interpretation unclosed: node_kept "unclosed x" "\<lambda>c. c \<noteq> x" for x
  by unfold_locales (auto simp: unclosed_def closed_neutral)

definition closed_once :: "node \<Rightarrow> bool" where
  "closed_once s \<longleftrightarrow> distinct (closed_ids (out s)) \<and>
     (\<forall>x \<in> set (closed_ids (out s)). close_sent (conn_of s x) \<and> prop_has (heap s) x)"

interpretation once_quiet: quiet_kept closed_once
  by unfold_locales (auto simp: closed_once_def closed_neutral)

lemma once_finish:
  assumes "closed_once s" "unclosed cid s"
  shows "closed_once (finish_close env cid a s)"
  using assms closable_in_heap [of "snd (remove_conn cid s)" cid]
  by (auto simp: finish_close_def remove_conn_def ws_close_def act_simps emit_def closed_once_def
      unclosed_def Let_def)

lemma once_mark:
  "closed_once s \<Longrightarrow> closed_once (upd_conn cid (\<lambda>c. c\<lparr>close_sent := True, is_closed := True\<rparr>) s)"
  "closed_once s \<Longrightarrow> \<not> close_sent (conn_of s cid) \<Longrightarrow> prop_has (heap s) cid \<Longrightarrow>
     unclosed cid (upd_conn cid (\<lambda>c. c\<lparr>close_sent := True, is_closed := True\<rparr>) s)"
  by (auto simp: closed_once_def unclosed_def)

lemma once_close_fuel: "keeps closed_once (close_with_fuel n env cid code r)"
proof (induction n arbitrary: cid code r)
  case 0
  show ?case by (simp add: keeps_throw)
next
  case (Suc n)
  let ?leave = "leave_all_rooms_with (try_send_body (close_with_fuel n env) env) cid"
  show ?case
  proof (rule keepsI)
    fix s
    assume s: "closed_once s"
    let ?m = "upd_conn cid (\<lambda>c. c\<lparr>close_sent := True, is_closed := True\<rparr>) s"
    have "closed_once (snd (?leave ?m))"
      by (rule keepsD [OF once_quiet.keeps_leave_all_with [OF once_quiet.keeps_try_send_body [OF Suc.IH]]])
        (rule once_mark(1) [OF s])
    moreover have "unclosed cid (snd (?leave ?m))" if "\<not> close_sent (conn_of s cid)" "\<not> is_closed (conn_of s cid)"
      by (rule keepsD [OF unclosed.keeps_leave_all_with [OF unclosed.keeps_try_send_body [OF unclosed.keeps_close_fuel]]])
        (rule once_mark(2) [OF s that(1) open_in_heap [OF that(2)]])
    ultimately show "closed_once (snd (close_with_fuel (Suc n) env cid code r s))"
      using s by (auto simp: close_body_alt intro!: once_finish split: prod.split option.split)
  qed
qed

lemma once_close: "keeps closed_once (close_with env cid code r)"
  using once_close_fuel unfolding keeps_def close_with_def by blast

lemma once_cleanup: "keeps closed_once (cleanup (leave_all_rooms env) remove_conn env cid)"
proof (rule keepsI)
  fix s
  assume s: "closed_once s"
  let ?m = "upd_conn cid (\<lambda>c. c\<lparr>is_closed := True\<rparr>) s"
  have "closed_once ?m" using s by (auto simp: closed_once_def)
  then have l: "closed_once (snd (leave_all_rooms env cid ?m))"
    unfolding leave_all_rooms_def try_send_def
    by (rule keepsD [OF once_quiet.keeps_leave_all_with [OF once_quiet.keeps_try_send_body [OF once_close]]])
  have "closed_once (finish_cleanup env cid s1)" if "closed_once s1" for s1
    using that closable_in_heap [of "snd (remove_conn cid s1)" cid]
    by (auto simp: finish_cleanup_def remove_conn_def ws_close_def act_simps emit_def closed_once_def Let_def)
  with s l show "closed_once (snd (cleanup (leave_all_rooms env) remove_conn env cid s))"
    by (auto simp: cleanup_alt split: prod.split option.split)
qed

interpretation once_closing: closing_kept closed_once
  by unfold_locales (rule once_close, rule once_cleanup)

interpretation once: server_kept closed_once
  by unfold_locales (auto simp: closed_once_def)

section \<open>What holds in every reachable state\<close>

definition demo_env :: env where
  "demo_env = \<lparr>sock_send = \<lambda>_ k. k, sock_close = \<lambda>k. k\<lparr>readyState := CLOSING\<rparr>, authorize_room = None\<rparr>"

definition demo_cfg :: config where
  "demo_cfg = server_config \<lparr>opt_max_message_size = JUndefined, opt_channel_capacity = JUndefined,
     opt_backpressure = JNumber (Fin 2), opt_ping_interval = JUndefined,
     opt_control_rate_limit = JUndefined, opt_control_burst = JUndefined\<rparr>"

definition open_socket :: socket where
  "open_socket = \<lparr>readyState = OPEN, bufferedAmount = Fin 0\<rparr>"

text \<open>The state after one client has connected.\<close>

definition demo_node :: node where
  "demo_node = turn demo_env demo_cfg (Connection NoAuthorizer (jstr ''A'') open_socket) (init_node (Fin 0))"

lemma demo_reachable: "reachable demo_env demo_cfg demo_node"
proof (rule reachable.step [OF reachable.init])
  show "step demo_env demo_cfg (init_node (Fin 0)) demo_node"
    unfolding demo_node_def by (rule step.turn) (simp add: enabled_def init_node_def)
qed

definition demo_conn :: conn where
  "demo_conn = create_conn open_socket (JObject (JsObj [])) (JNumber (capacity demo_cfg))
     (JNumber (backpressure demo_cfg)) (JNumber (cfg_control_rate demo_cfg))
     (JNumber (cfg_control_burst demo_cfg)) (Fin 0)"

lemma demo_conn_fields [simp]:
  "conn_rooms demo_conn = []" "\<not> is_closed demo_conn" "\<not> close_sent demo_conn" "ws demo_conn = open_socket"
  by (simp_all add: demo_conn_def create_conn_def Let_def)

lemma demo_node_eq:
  "\<exists>p fs. demo_node = (joined_state (jstr ''root'') (jstr ''A'')
     (connected_state (jstr ''A'') demo_conn (init_node (Fin 0))))\<lparr>out := fs, pending := p\<rparr>"
proof -
  have "clock (init_node (Fin 0)) = Fin 0" by (simp add: init_node_def)
  then show ?thesis
    unfolding demo_node_def turn_def
    by (simp add: on_connection_eq andthen_None [OF join_room_eq] get_cluster_presence_def
        act_simps andthen_None conn_claims_of_def demo_conn_def) blast
qed

lemma demo_node_facts:
  "member demo_node r x \<longleftrightarrow> r = jstr ''root'' \<and> x = jstr ''A''"
  "live r demo_node = (if r = jstr ''root'' then [(jstr ''A'', ())] else [])"
  "prop_has (conns demo_node) x \<longleftrightarrow> x = jstr ''A''"
  "conn_of demo_node x = (if x = jstr ''A'' then track_room (jstr ''root'') demo_conn else no_conn)"
proof -
  obtain p fs where d: "demo_node = (joined_state (jstr ''root'') (jstr ''A'')
     (connected_state (jstr ''A'') demo_conn (init_node (Fin 0))))\<lparr>out := fs, pending := p\<rparr>"
    using demo_node_eq by blast
  have live: "live r (init_node (Fin 0)) = []" for r by (simp add: live_def)
  show "member demo_node r x \<longleftrightarrow> r = jstr ''root'' \<and> x = jstr ''A''"
    "prop_has (conns demo_node) x \<longleftrightarrow> x = jstr ''A''"
    "live r demo_node = (if r = jstr ''root'' then [(jstr ''A'', ())] else [])"
    by (auto simp: d live prop_set_def prop_has_def)
  show "conn_of demo_node x = (if x = jstr ''A'' then track_room (jstr ''root'') demo_conn else no_conn)"
    by (simp add: d joined_state_def Let_def)
qed

lemma demo_handlers: "handlers demo_node = []"
proof -
  obtain p fs where d: "demo_node = (joined_state (jstr ''root'') (jstr ''A'')
     (connected_state (jstr ''A'') demo_conn (init_node (Fin 0))))\<lparr>out := fs, pending := p\<rparr>"
    using demo_node_eq by blast
  show ?thesis
    by (simp only: d) (simp add: joined_state_def enter_room_def open_room_def connected_state_def Let_def init_node_def
        upd_conn_def metric_def emit_def act_simps)
qed

text \<open>
  C4: Rooms and connections agree. After any interleaving of connections, frames, closes,
  evictions, cluster frames, heartbeats and application calls, also after exceptions, a
  connection is in a room's member dictionary exactly when the room is among the connection's
  own rooms, and a room exists exactly as long as it has members.
\<close>

theorem rooms_agree:
  assumes "reachable env cfg s"
  shows "(member s r x \<longleftrightarrow> tracks s x r) \<and> (prop_has (rooms s) r \<longleftrightarrow> (\<exists>y. member s r y))"
  using membership.reachable_invariant [OF assms]
  by (auto simp: membership_def rooms_ok_live member_def dict_empty_iff)

theorem rooms_agree_witness:
  "(member demo_node (jstr ''root'') (jstr ''A'') \<longleftrightarrow> tracks demo_node (jstr ''A'') (jstr ''root'')) \<and>
   (prop_has (rooms demo_node) (jstr ''root'') \<longleftrightarrow> (\<exists>y. member demo_node (jstr ''root'') y))"
  by (rule rooms_agree [OF demo_reachable])

text \<open>
  C5: The adapter mirrors the hub. The presence of a room that the in-memory adapter has after
  the calls of the hub lists exactly the members of the room, without repetition, and its
  node map knows exactly the registered connections.
\<close>

theorem presence_mirrors:
  assumes "reachable env cfg s"
  shows "set (get_presence (adapter_state v s) r) = {x. member s r x} \<and>
    distinct (get_presence (adapter_state v s) r) \<and>
    (get_node_for_conn (adapter_state v s) x \<noteq> None \<longleftrightarrow> prop_has (conns s) x)"
  using mirrored.reachable_invariant [OF assms, of v] local_store.distinct_members
  by (auto simp: mirrored_def Let_def)

theorem presence_mirrors_witness:
  "set (get_presence (adapter_state JUndefined demo_node) (jstr ''root'')) = {x. member demo_node (jstr ''root'') x} \<and>
    distinct (get_presence (adapter_state JUndefined demo_node) (jstr ''root'')) \<and>
    (get_node_for_conn (adapter_state JUndefined demo_node) (jstr ''A'') \<noteq> None \<longleftrightarrow>
      prop_has (conns demo_node) (jstr ''A''))"
  by (rule presence_mirrors [OF demo_reachable])

text \<open>
  C32: The gauges are exact. Folding the in-memory collector over the metric calls made so far
  gives the number of rooms and of registered connections; the guards against going below
  zero never act.
\<close>

theorem gauges_exact:
  assumes "reachable env cfg s"
  shows "active_rooms (collect (metrics_of (out s))) = length (rooms s) \<and>
    active_connections (collect (metrics_of (out s))) = length (conns s)"
  using counted.reachable_invariant [OF assms] by (simp add: counted_def)

theorem gauges_exact_witness:
  "active_rooms (collect (metrics_of (out demo_node))) = length (rooms demo_node) \<and>
    active_connections (collect (metrics_of (out demo_node))) = length (conns demo_node)"
  by (rule gauges_exact [OF demo_reachable])

text \<open>
  A connection that is not closed can be reached: it is in the hub's registry, under which
  direct messages, shutdown and the cluster find it.
\<close>

theorem open_registered:
  assumes "reachable env cfg s" "\<not> is_closed (conn_of s x)"
  shows "prop_has (conns s) x"
  using registered.reachable_invariant [OF assms(1)] assms(2) by (simp add: registered_def)

lemma demo_open: "\<not> is_closed (conn_of demo_node (jstr ''A''))"
  by (simp add: demo_node_facts)

theorem open_registered_witness: "prop_has (conns demo_node) (jstr ''A'')"
  by (rule open_registered [OF demo_reachable demo_open])

text \<open>
  C6: A socket is closed at most once, and no frame is written to it afterwards, in any
  interleaving. Pings do not count as frames here.
\<close>

theorem closed_once_then_silent:
  assumes "reachable env cfg s" "out s = before @ [WsClose x a] @ after"
  shows "WsClose x b \<notin> set after \<and> WsSend x raw \<notin> set after"
proof
  have "distinct (closed_ids (before @ [WsClose x a] @ after))"
    using once.reachable_invariant [OF assms(1)] by (simp add: closed_once_def assms(2) del: closed_ids_simps)
  then have "x \<notin> set (closed_ids after)" by simp
  moreover have "WsClose x b \<in> set after \<Longrightarrow> x \<in> set (closed_ids after)"
    by (force simp: closed_ids_def)
  ultimately show "WsClose x b \<notin> set after" by blast
  have "orderly (before @ [WsClose x a] @ after)"
    using silent.reachable_invariant [OF assms(1)] by (simp add: silent_def assms(2))
  then have "list_all (\<lambda>f. case f of WsSend y _ \<Rightarrow> y \<noteq> x | _ \<Rightarrow> True) after"
    by (induction before) auto
  then show "WsSend x raw \<notin> set after" by (auto simp: list_all_iff)
qed

text \<open>The state after the socket of that client has closed.\<close>

definition demo_gone :: node where
  "demo_gone = turn demo_env demo_cfg (Close (jstr ''A'')) demo_node"

lemma demo_gone_reachable: "reachable demo_env demo_cfg demo_gone"
proof (rule reachable.step [OF demo_reachable])
  show "step demo_env demo_cfg demo_node demo_gone"
    unfolding demo_gone_def
    using open_in_heap [OF demo_open] by (intro step.turn) (simp add: enabled_def)
qed

lemma demo_left_encodes: "\<exists>raw. msg_encode (left_msg (jstr ''root'') (jstr ''A'')) = Inr raw"
  by (rule wire_ok_encodes)
    (simp add: wire_ok_def left_msg_def create_message_def payload_bytes_def jstr_def
      is_high_def is_low_def fields_fit_def utf8_encode_def enc_scalar_def is_byte_num_def
      PROTOCOL_VERSION_def DEFAULT_FLAGS_def)

lemma demo_gone_out: "\<exists>es. out demo_gone = es @ [WsClose (jstr ''A'') None]"
proof -
  let ?A = "jstr ''A''" and ?root = "jstr ''root''"
  let ?s = "upd_conn ?A (\<lambda>c. c\<lparr>is_closed := True\<rparr>) (demo_node\<lparr>active := prop_del (active demo_node) ?A\<rparr>)"
  obtain raw where raw: "msg_encode (left_msg ?root ?A) = Inr raw" using demo_left_encodes by blast
  have heap: "prop_has (heap demo_node) ?A" by (rule open_in_heap [OF demo_open])
  have rooms: "prop_has (rooms demo_node) ?root" "\<not> prop_has (rooms (leave_state ?root ?A ?s)) ?root"
  proof -
    have ok: "rooms_ok demo_node"
      using membership.reachable_invariant [OF demo_reachable] by (simp add: membership_def)
    then show "prop_has (rooms demo_node) ?root"
      by (simp add: rooms_ok_live demo_node_facts)
    have "rooms_ok (leave_state ?root ?A ?s)" using ok by (simp add: rooms_ok_leave)
    then show "\<not> prop_has (rooms (leave_state ?root ?A ?s)) ?root"
      by (simp add: rooms_ok_live demo_node_facts prop_del_def)
  qed
  have "conn_rooms (conn_of ?s ?A) = [(?root, ())]"
    using heap by (simp add: demo_node_facts track_room_def prop_set_def)
  moreover have "array_index ?root = None"
    by (simp add: jstr_def array_index_def is_digit_def)
  ultimately have "joined_rooms (conn_of ?s ?A) = [?root]"
    by (simp add: joined_rooms_def obj_keys_def)
  then have "leave_all_rooms demo_env ?A ?s =
      broadcast_room_with (try_send demo_env) (Some ?A) (left_msg ?root ?A) (leave_state ?root ?A ?s)"
    using rooms by (simp add: leave_all_rooms_def leave_all_rooms_with_def leave_room_alt)
  moreover have "msg_room (left_msg ?root ?A) = ?root"
    by (simp add: left_msg_def create_message_def)
  ultimately obtain s1 where l: "leave_all_rooms demo_env ?A ?s = (None, s1)"
    and s1: "conn_of s1 = conn_of (leave_state ?root ?A ?s)" "heap s1 = heap (leave_state ?root ?A ?s)"
    using rooms by (simp add: broadcast_room_with_def raw act_simps)
  have c: "conn_of s1 ?A = untrack_room ?root ((track_room ?root demo_conn)\<lparr>is_closed := True\<rparr>)"
    using heap by (simp add: s1 leave_state_def Let_def demo_node_facts)
  show ?thesis
    using heap l c s1
    by (simp add: demo_gone_def turn_def on_close_def andthen_modify cleanup_alt demo_node_facts
        finish_cleanup_def ws_closable_def Let_def ws_close_def act_simps emit_def open_socket_def
        track_room_def untrack_room_def)
qed

theorem closed_once_then_silent_witness:
  "\<exists>es. out demo_gone = es @ [WsClose (jstr ''A'') None] @ [] \<and>
     WsClose (jstr ''A'') None \<notin> set [] \<and> WsSend (jstr ''A'') [1] \<notin> set ([] :: effect list)"
proof -
  obtain es where "out demo_gone = es @ [WsClose (jstr ''A'') None] @ []"
    using demo_gone_out by auto
  with closed_once_then_silent [OF demo_gone_reachable this] show ?thesis by blast
qed

end
