(* ===== verification/Delivery.thy ===== *)
theory Delivery
  imports Membership
begin

text \<open>
  What a broadcast writes and what closing leaves behind. A member is evicted when its socket
  is open, its buffer over the limit and its strategy the default; as long as nobody is, a
  broadcast reaches every member, and closing a connection removes every trace of it.
\<close>

section \<open>Sending to one connection\<close>

definition drops :: "conn \<Rightarrow> bool" where
  "drops c \<longleftrightarrow> num_eq (strategy c) DROP_NEWEST \<or> num_eq (strategy c) DROP_OLDEST"

definition sendable :: "conn \<Rightarrow> bool" where
  "sendable c \<longleftrightarrow> \<not> is_closed c \<and> readyState (ws c) = OPEN"

definition slow :: "conn \<Rightarrow> bool" where
  "slow c \<longleftrightarrow> num_less (max_buffer_bytes c) (bufferedAmount (ws c))"

definition evicts :: "conn \<Rightarrow> bool" where
  "evicts c \<longleftrightarrow> sendable c \<and> slow c \<and> \<not> drops c"

text \<open>The effects of sending to a connection that is not evicted.\<close>

definition delivery :: "conn \<Rightarrow> js_string \<Rightarrow> bytes \<Rightarrow> effect list" where
  "delivery c cid raw =
     (if \<not> sendable c then []
      else if slow c then [Metric OnMessageDropped]
      else [WsSend cid raw, Metric (OnMessageSent (length raw))])"

definition sent_state :: "env \<Rightarrow> bytes \<Rightarrow> js_string \<Rightarrow> node \<Rightarrow> node" where
  "sent_state env raw cid s =
     (let c = conn_of s cid;
          s' = (if sendable c \<and> \<not> slow c
                then upd_conn cid (\<lambda>c. c\<lparr>ws := sock_send env raw (ws c)\<rparr>) s else s)
      in s'\<lparr>out := out s' @ delivery c cid raw\<rparr>)"

lemma try_send_calm:
  "\<not> evicts (conn_of s cid) \<Longrightarrow> try_send env cid raw s = (None, sent_state env raw cid s)"
  by (auto simp: try_send_def try_send_body_def Let_def sent_state_def delivery_def evicts_def
      sendable_def slow_def drops_def act_simps when_act_def metric_def emit_def)

lemma sent_fields [simp]:
  "rooms (sent_state env raw cid s) = rooms s" "conns (sent_state env raw cid s) = conns s"
  "pending (sent_state env raw cid s) = pending s" "live r (sent_state env raw cid s) = live r s"
  "member (sent_state env raw cid s) r x = member s r x"
  "tracks (sent_state env raw cid s) x r = tracks s x r"
  "is_closed (conn_of (sent_state env raw cid s) x) = is_closed (conn_of s x)"
  "close_sent (conn_of (sent_state env raw cid s) x) = close_sent (conn_of s x)"
  "strategy (conn_of (sent_state env raw cid s) x) = strategy (conn_of s x)"
  "conn_rooms (conn_of (sent_state env raw cid s) x) = conn_rooms (conn_of s x)"
  "x \<noteq> cid \<Longrightarrow> conn_of (sent_state env raw cid s) x = conn_of s x"
  "out (sent_state env raw cid s) = out s @ delivery (conn_of s cid) cid raw"
  by (simp_all add: sent_state_def Let_def)

section \<open>Sending to a room\<close>

definition recipients :: "node \<Rightarrow> js_string option \<Rightarrow> js_string \<Rightarrow> js_string list" where
  "recipients s exclude_id name = filter (\<lambda>x. exclude_id = None \<or> Some x \<noteq> exclude_id) (obj_keys (live name s))"

lemma fold_sent_fields [simp]:
  "rooms (fold (sent_state env raw) xs s) = rooms s" "conns (fold (sent_state env raw) xs s) = conns s"
  "pending (fold (sent_state env raw) xs s) = pending s" "live r (fold (sent_state env raw) xs s) = live r s"
  "member (fold (sent_state env raw) xs s) r x = member s r x"
  "tracks (fold (sent_state env raw) xs s) x r = tracks s x r"
  "is_closed (conn_of (fold (sent_state env raw) xs s) x) = is_closed (conn_of s x)"
  "close_sent (conn_of (fold (sent_state env raw) xs s) x) = close_sent (conn_of s x)"
  "strategy (conn_of (fold (sent_state env raw) xs s) x) = strategy (conn_of s x)"
  "conn_rooms (conn_of (fold (sent_state env raw) xs s) x) = conn_rooms (conn_of s x)"
  by (induction xs arbitrary: s) simp_all

lemma out_fold_sent:
  "distinct xs \<Longrightarrow>
     out (fold (sent_state env raw) xs s) = out s @ concat (map (\<lambda>x. delivery (conn_of s x) x raw) xs)"
proof (induction xs arbitrary: s)
  case (Cons x xs)
  have "y \<noteq> x" if "y \<in> set xs" for y using that Cons.prems by auto
  then have eq: "map (\<lambda>y. delivery (conn_of (sent_state env raw x s) y) y raw) xs = map (\<lambda>y. delivery (conn_of s y) y raw) xs"
    by simp
  show ?case using Cons by (simp add: eq)
qed simp

lemma walk_calm:
  "distinct ks \<Longrightarrow> (\<forall>x \<in> set ks. prop_has (live r s) x) \<Longrightarrow>
   (\<forall>x \<in> set (filter (\<lambda>x. ex = None \<or> Some x \<noteq> ex) ks). \<not> evicts (conn_of s x)) \<Longrightarrow>
     for_each (\<lambda>x s. if ex = None \<or> Some x \<noteq> ex
         then (if prop_has (live r s) x then try_send env x raw s else throw undefined_try_send s)
         else skip s) ks s
     = (None, fold (sent_state env raw) (filter (\<lambda>x. ex = None \<or> Some x \<noteq> ex) ks) s)"
proof (induction ks arbitrary: s)
  case (Cons k ks)
  show ?case
  proof (cases "ex = None \<or> Some k \<noteq> ex")
    case True
    let ?s = "sent_state env raw k s"
    have "\<not> evicts (conn_of s k)" using Cons.prems(3) True by auto
    then have t: "try_send env k raw s = (None, ?s)" by (rule try_send_calm)
    have "\<forall>x \<in> set (filter (\<lambda>x. ex = None \<or> Some x \<noteq> ex) ks). \<not> evicts (conn_of ?s x)"
    proof
      fix x
      assume x: "x \<in> set (filter (\<lambda>x. ex = None \<or> Some x \<noteq> ex) ks)"
      with Cons.prems(1) have "x \<noteq> k" by auto
      then show "\<not> evicts (conn_of ?s x)" using x Cons.prems(3) by auto
    qed
    from Cons.IH [OF _ _ this] show ?thesis
      using True Cons.prems t by (simp add: andthen_def)
  next
    case False
    then have ex: "ex = Some k" by auto
    then show ?thesis using Cons.IH [of s] Cons.prems by (simp add: andthen_def skip_def)
  qed
qed simp

lemma emit_local_calm:
  assumes "wf_dict (live r s)" "\<forall>x \<in> set (recipients s ex r). \<not> evicts (conn_of s x)"
  shows "emit_local (live r) (try_send env) ex raw s = (None, fold (sent_state env raw) (recipients s ex r) s)"
  unfolding emit_local_def recipients_def
  by (rule walk_calm) (use assms in \<open>auto simp: distinct_obj_keys recipients_def\<close>)

lemma rooms_ok_wf: "rooms_ok s \<Longrightarrow> wf_dict (live r s)"
  by (auto simp: rooms_ok_def live_def split: option.split)

lemma recipients_no_room: "\<not> prop_has (rooms s) r \<Longrightarrow> recipients s ex r = []"
  by (simp add: recipients_def live_def prop_has_get)

lemma broadcast_calm:
  assumes "rooms_ok s" "\<forall>x \<in> set (recipients s ex (msg_room msg)). \<not> evicts (conn_of s x)"
    and "msg_encode msg = Inr raw"
  shows "broadcast_room env ex msg s =
    (None, let s' = fold (sent_state env raw) (recipients s ex (msg_room msg)) s in
      s'\<lparr>out := out s' @ [Call (PublishRaw (msg_room msg) raw)],
         pending := pending s @ [AfterPublish (length raw)]\<rparr>)"
proof (cases "prop_has (rooms s) (msg_room msg)")
  case True
  let ?walk = "\<lambda>s. if prop_has (rooms s) (msg_room msg)
      then emit_local (live (msg_room msg)) (try_send env) ex raw s else skip s"
  have "?walk s = (None, fold (sent_state env raw) (recipients s ex (msg_room msg)) s)"
    using True assms by (simp add: emit_local_calm rooms_ok_wf)
  then show ?thesis
    using assms by (simp add: broadcast_room_def broadcast_room_with_def act_simps Let_def andthen_None)
next
  case False
  then show ?thesis
    using assms by (simp add: broadcast_room_def broadcast_room_with_def act_simps Let_def
        recipients_no_room andthen_None)
qed

text \<open>
  C24: Delivery of a broadcast. When no recipient is to be evicted, \<^verbatim>\<open>broadcast_room\<close> returns
  normally; it writes the frame once to every member of the room with an open socket except
  the excluded one, in the order of the member dictionary, with one \<open>onMessageSent\<close> each, or
  one \<open>onMessageDropped\<close> for a slow member of a dropping strategy; then it publishes the same
  bytes to the cluster; rooms and connections stay as they are.
\<close>

theorem broadcast_delivers:
  assumes "reachable env cfg s" "msg_encode msg = Inr raw"
    and "\<forall>x \<in> set (recipients s ex (msg_room msg)). \<not> evicts (conn_of s x)"
  shows "\<exists>s'. broadcast_room env ex msg s = (None, s') \<and>
    out s' = out s @ concat (map (\<lambda>x. delivery (conn_of s x) x raw) (recipients s ex (msg_room msg)))
                   @ [Call (PublishRaw (msg_room msg) raw)] \<and>
    pending s' = pending s @ [AfterPublish (length raw)] \<and>
    rooms s' = rooms s \<and> conns s' = conns s"
proof -
  have ok: "rooms_ok s"
    using membership.reachable_invariant [OF assms(1)] by (simp add: membership_def)
  then have "distinct (recipients s ex (msg_room msg))"
    by (simp add: recipients_def distinct_obj_keys rooms_ok_wf)
  then show ?thesis
    using broadcast_calm [OF ok assms(3,2), of env] by (simp add: Let_def out_fold_sent)
qed

theorem broadcast_delivers_witness:
  "\<exists>raw s'. msg_encode (left_msg (jstr ''root'') (jstr ''A'')) = Inr raw \<and>
    broadcast_room demo_env None (left_msg (jstr ''root'') (jstr ''A'')) demo_node = (None, s') \<and>
    out s' = out demo_node @ [WsSend (jstr ''A'') raw, Metric (OnMessageSent (length raw)),
      Call (PublishRaw (jstr ''root'') raw)]"
proof -
  let ?m = "left_msg (jstr ''root'') (jstr ''A'')"
  obtain raw where raw: "msg_encode ?m = Inr raw" using demo_left_encodes by blast
  have room: "msg_room ?m = jstr ''root''" by (simp add: left_msg_def create_message_def)
  have "array_index (jstr ''A'') = None" by (simp add: jstr_def array_index_def is_digit_def)
  then have rec: "recipients demo_node None (msg_room ?m) = [jstr ''A'']"
    by (simp add: recipients_def room demo_node_facts obj_keys_def)
  have "round_num 33554432 = Fin 33554432"
    using fl64_of_int [of 33554432] by (simp add: round_num_def)
  then have c: "sendable (conn_of demo_node (jstr ''A''))" "\<not> slow (conn_of demo_node (jstr ''A''))"
    by (simp_all add: demo_node_facts sendable_def slow_def track_room_def open_socket_def demo_conn_def
        create_conn_def Let_def demo_cfg_def server_config_def num_less.simps positive_or_def)
  then have "\<forall>x \<in> set (recipients demo_node None (msg_room ?m)). \<not> evicts (conn_of demo_node x)"
    by (simp add: rec evicts_def)
  from broadcast_delivers [OF demo_reachable raw this] raw c show ?thesis
    by (auto simp: rec [unfolded room] delivery_def room)
qed

section \<open>Closing without evictions\<close>

definition lossy :: "node \<Rightarrow> bool" where
  "lossy s \<longleftrightarrow> (\<forall>x. \<not> is_closed (conn_of s x) \<longrightarrow> drops (conn_of s x))"

lemma lossy_calm: "lossy s \<Longrightarrow> \<not> evicts (conn_of s x)"
  by (auto simp: lossy_def evicts_def sendable_def)

lemma lossy_upd: "lossy s \<Longrightarrow> (\<And>c. strategy (f c) = strategy c) \<Longrightarrow> (\<And>c. is_closed c \<Longrightarrow> is_closed (f c)) \<Longrightarrow>
    lossy (upd_conn cid f s)"
  by (auto simp: lossy_def drops_def)

lemma lossy_sent [simp]: "lossy (fold (sent_state env raw) xs s) = lossy s"
  by (simp add: lossy_def drops_def)

lemma lossy_other [simp]:
  "lossy (s\<lparr>out := a, pending := b\<rparr>) = lossy s" "lossy (s\<lparr>out := a\<rparr>) = lossy s"
  "lossy (s\<lparr>conns := c\<rparr>) = lossy s"
  by (simp_all add: lossy_def)

lemma strategy_leave [simp]: "strategy (conn_of (leave_state name cid s) x) = strategy (conn_of s x)"
  "ws (conn_of (leave_state name cid s) x) = ws (conn_of s x)"
  by (auto simp: leave_state_def Let_def untrack_room_def)

lemma lossy_leave [simp]: "lossy (leave_state name cid s) = lossy s"
  by (simp add: lossy_def drops_def)

text \<open>What changed when \<open>cid\<close> left the rooms in \<open>R\<close> and nobody was evicted.\<close>

definition left_rooms :: "js_string \<Rightarrow> js_string set \<Rightarrow> node \<Rightarrow> node \<Rightarrow> bool" where
  "left_rooms cid R s s' \<longleftrightarrow>
     rooms_ok s' \<and> lossy s' \<and> conns s' = conns s \<and>
     (\<forall>r x. member s' r x \<longleftrightarrow> member s r x \<and> \<not> (r \<in> R \<and> x = cid)) \<and>
     (\<forall>x. is_closed (conn_of s' x) = is_closed (conn_of s x)) \<and>
     close_sent (conn_of s' cid) = close_sent (conn_of s cid) \<and>
     ws (conn_of s' cid) = ws (conn_of s cid)"

lemma left_rooms_refl: "rooms_ok s \<Longrightarrow> lossy s \<Longrightarrow> left_rooms cid {} s s"
  by (simp add: left_rooms_def)

lemma left_rooms_trans:
  "left_rooms cid Q s t \<Longrightarrow> left_rooms cid R t u \<Longrightarrow> left_rooms cid (Q \<union> R) s u"
  by (auto simp: left_rooms_def)

lemma ws_fold_sent: "cid \<notin> set xs \<Longrightarrow> ws (conn_of (fold (sent_state env raw) xs s) cid) = ws (conn_of s cid)"
  by (induction xs arbitrary: s) simp_all

lemma leave_room_calm:
  assumes ok: "rooms_ok s" "lossy s" and raw: "msg_encode (left_msg name cid) = Inr raw"
  shows "\<exists>s'. leave_room env name cid s = (None, s') \<and> left_rooms cid {name} s s'"
proof (cases "prop_has (rooms s) name")
  case True
  let ?l = "leave_state name cid s" and ?m = "left_msg name cid"
  have l: "rooms_ok ?l" "lossy ?l" using ok by (simp_all add: rooms_ok_leave)
  have self: "cid \<notin> set (recipients ?l (Some cid) r)" for r by (simp add: recipients_def)
  have "broadcast_room env (Some cid) ?m ?l =
    (None, let s' = fold (sent_state env raw) (recipients ?l (Some cid) (msg_room ?m)) ?l in
      s'\<lparr>out := out s' @ [Call (PublishRaw (msg_room ?m) raw)],
         pending := pending ?l @ [AfterPublish (length raw)]\<rparr>)"
    using l raw by (intro broadcast_calm) (simp_all add: lossy_calm)
  then show ?thesis
    using True l by (simp add: leave_room_def leave_room_alt broadcast_room_def [symmetric] Let_def
        left_rooms_def ws_fold_sent self) (simp add: rooms_ok_def)
next
  case False
  then show ?thesis
    using ok no_room_no_member [OF False]
    by (auto simp: leave_room_def leave_room_alt left_rooms_def rooms_ok_leave)
qed

lemma leave_list_calm:
  assumes "rooms_ok s" "lossy s" "\<forall>r \<in> set rs. \<exists>raw. msg_encode (left_msg r cid) = Inr raw"
  shows "\<exists>s'. for_each (\<lambda>r. leave_room env r cid) rs s = (None, s') \<and> left_rooms cid (set rs) s s'"
  using assms
proof (induction rs arbitrary: s)
  case Nil
  then show ?case by (simp add: left_rooms_refl)
next
  case (Cons r rs)
  then obtain s1 where 1: "leave_room env r cid s = (None, s1)" "left_rooms cid {r} s s1"
    using leave_room_calm [of s r cid] by force
  then have "rooms_ok s1" "lossy s1" by (simp_all add: left_rooms_def)
  with Cons obtain s2 where 2: "for_each (\<lambda>r. leave_room env r cid) rs s1 = (None, s2)"
      "left_rooms cid (set rs) s1 s2" by force
  with 1 left_rooms_trans [OF 1(2) 2(2)] show ?case by (simp add: andthen_def)
qed

lemma leave_all_calm:
  assumes "membership s" "lossy s" "\<forall>r. tracks s cid r \<longrightarrow> (\<exists>raw. msg_encode (left_msg r cid) = Inr raw)"
  shows "\<exists>s'. leave_all_rooms env cid s = (None, s') \<and> left_rooms cid UNIV s s'"
proof -
  let ?rs = "joined_rooms (conn_of s cid)"
  obtain s' where s': "for_each (\<lambda>r. leave_room env r cid) ?rs s = (None, s')" "left_rooms cid (set ?rs) s s'"
    using assms leave_list_calm [of s ?rs cid env]
    by (auto simp: membership_def joined_rooms_def tracks_def)
  have "left_rooms cid UNIV s s'"
    using s'(2) assms(1) by (auto simp: left_rooms_def membership_def joined_rooms_def tracks_def)
  with s' show ?thesis
    by (simp add: leave_all_rooms_def leave_all_rooms_with_def leave_room_def)
qed

text \<open>
  C26: Closing is complete under a dropping strategy. In a reachable state where no open
  connection uses the default strategy, and the \<^verbatim>\<open>member_left\<close> frames of the connection's
  rooms can be encoded, \<^verbatim>\<open>close_with\<close> of an open connection returns normally, and afterwards
  the connection is closed, unregistered and in no room, while every other connection keeps
  its memberships, its registration and its state.
\<close>

theorem close_complete:
  assumes "reachable env cfg s" "lossy s" "\<not> is_closed (conn_of s cid)" "\<not> close_sent (conn_of s cid)"
    and "\<forall>r. tracks s cid r \<longrightarrow> (\<exists>raw. msg_encode (left_msg r cid) = Inr raw)"
  shows "\<exists>s'. close_with env cid code reason s = (None, s') \<and>
    is_closed (conn_of s' cid) \<and>
    (\<forall>x. prop_has (conns s') x \<longleftrightarrow> prop_has (conns s) x \<and> x \<noteq> cid) \<and>
    (\<forall>r x. member s' r x \<longleftrightarrow> member s r x \<and> x \<noteq> cid) \<and>
    (\<forall>x. x \<noteq> cid \<longrightarrow> is_closed (conn_of s' x) = is_closed (conn_of s x))"
proof -
  let ?m = "upd_conn cid (\<lambda>c. c\<lparr>close_sent := True, is_closed := True\<rparr>) s"
  have mem: "membership s" by (rule membership.reachable_invariant [OF assms(1)])
  then have "membership ?m" by (simp add: membership_def)
  moreover have "lossy ?m" using assms(2) by (rule lossy_upd) simp_all
  moreover have "tracks ?m cid r = tracks s cid r" for r by simp
  ultimately obtain s1 where s1: "leave_all_rooms env cid ?m = (None, s1)" "left_rooms cid UNIV ?m s1"
    using leave_all_calm [of ?m cid env] assms(5) by auto
  have heap: "prop_has (heap s) cid" by (rule open_in_heap [OF assms(3)])
  have closed: "is_closed (conn_of s1 cid)"
    using s1(2) heap by (simp add: left_rooms_def)
  let ?s' = "finish_close env cid (Some (status_code code, string_or reason [])) s1"
  have "close_with env cid code reason s = (None, ?s')"
    using assms(3,4) s1(1) by (simp add: close_with_eq close_body_alt)
  moreover have "member ?s' r x \<longleftrightarrow> member s r x \<and> x \<noteq> cid" for r x
    using s1(2) by (auto simp: finish_close_def Let_def remove_conn_def ws_close_def act_simps left_rooms_def)
  moreover have "prop_has (conns ?s') x \<longleftrightarrow> prop_has (conns s) x \<and> x \<noteq> cid" for x
    using s1(2) by (auto simp: finish_close_def Let_def remove_conn_def ws_close_def act_simps left_rooms_def)
  moreover have "is_closed (conn_of ?s' cid)" using closed by (simp add: finish_close_def Let_def)
  moreover have "x \<noteq> cid \<Longrightarrow> is_closed (conn_of ?s' x) = is_closed (conn_of s x)" for x
    using s1(2) by (simp add: finish_close_def Let_def left_rooms_def)
  ultimately show ?thesis by blast
qed

lemma demo_lossy: "lossy demo_node"
  by (auto simp: lossy_def demo_node_facts drops_def track_room_def demo_conn_def create_conn_def Let_def
      demo_cfg_def server_config_def DROP_NEWEST_def)

lemma demo_tracks: "tracks demo_node (jstr ''A'') r \<Longrightarrow> \<exists>raw. msg_encode (left_msg r (jstr ''A'')) = Inr raw"
  using demo_left_encodes by (auto simp: tracks_def demo_node_facts)

theorem close_complete_witness:
  "\<exists>s'. close_with demo_env (jstr ''A'') (JNumber (Fin 1000)) JUndefined demo_node = (None, s') \<and>
    is_closed (conn_of s' (jstr ''A'')) \<and> \<not> prop_has (conns s') (jstr ''A'') \<and>
    \<not> member s' (jstr ''root'') (jstr ''A'')"
  using close_complete [OF demo_reachable demo_lossy demo_open, of "JNumber (Fin 1000)" JUndefined] demo_tracks
  by (force simp: demo_node_facts track_room_def)

text \<open>
  The same for a socket that closes by itself: the listener of the socket's \<^verbatim>\<open>close\<close> and
  \<^verbatim>\<open>error\<close> events removes every trace of the connection, the server's own table included.
\<close>

theorem socket_close_complete:
  assumes "reachable env cfg s" "lossy s" "\<not> is_closed (conn_of s cid)"
    and "\<forall>r. tracks s cid r \<longrightarrow> (\<exists>raw. msg_encode (left_msg r cid) = Inr raw)"
  shows "let s' = turn env cfg (Close cid) s in
    is_closed (conn_of s' cid) \<and>
    (\<forall>x. prop_has (conns s') x \<longleftrightarrow> prop_has (conns s) x \<and> x \<noteq> cid) \<and>
    (\<forall>r x. member s' r x \<longleftrightarrow> member s r x \<and> x \<noteq> cid)"
proof -
  let ?a = "s\<lparr>active := prop_del (active s) cid\<rparr>"
  let ?m = "upd_conn cid (\<lambda>c. c\<lparr>is_closed := True\<rparr>) ?a"
  have mem: "membership s" by (rule membership.reachable_invariant [OF assms(1)])
  then have "membership ?m" by (simp add: membership_def)
  moreover have "lossy ?a" using assms(2) by (simp add: lossy_def)
  then have "lossy ?m" by (rule lossy_upd) simp_all
  moreover have "tracks ?m cid r = tracks s cid r" for r by simp
  ultimately obtain s1 where s1: "leave_all_rooms env cid ?m = (None, s1)" "left_rooms cid UNIV ?m s1"
    using leave_all_calm [of ?m cid env] assms(4) by auto
  have heap: "prop_has (heap s) cid" by (rule open_in_heap [OF assms(3)])
  have closed: "is_closed (conn_of s1 cid)"
    using s1(2) heap by (simp add: left_rooms_def)
  have t: "turn env cfg (Close cid) s = finish_cleanup env cid s1"
    using assms(3) s1(1) by (simp add: turn_def on_close_def andthen_modify cleanup_alt)
  have "is_closed (conn_of (finish_cleanup env cid s1) cid)"
    using closed by (simp add: finish_cleanup_def Let_def)
  moreover have "member (finish_cleanup env cid s1) r x \<longleftrightarrow> member s r x \<and> x \<noteq> cid" for r x
    using s1(2) by (auto simp: finish_cleanup_def Let_def remove_conn_def ws_close_def act_simps left_rooms_def)
  moreover have "prop_has (conns (finish_cleanup env cid s1)) x \<longleftrightarrow> prop_has (conns s) x \<and> x \<noteq> cid" for x
    using s1(2) by (auto simp: finish_cleanup_def Let_def remove_conn_def ws_close_def act_simps left_rooms_def)
  ultimately show ?thesis by (simp add: t Let_def)
qed

theorem socket_close_complete_witness:
  "let s' = turn demo_env demo_cfg (Close (jstr ''A'')) demo_node in
    is_closed (conn_of s' (jstr ''A'')) \<and> \<not> prop_has (conns s') (jstr ''A'') \<and>
    \<not> member s' (jstr ''root'') (jstr ''A'')"
  using socket_close_complete [OF demo_reachable demo_lossy demo_open] demo_tracks by (simp add: Let_def)

end
