(* ===== verification/Requests.thy ===== *)
theory Requests
  imports Delivery
begin

text \<open>
  What the server does with the frames of a client: refusing them, joining and leaving rooms,
  forwarding to one connection.
\<close>

section \<open>Refused frames\<close>

lemma close_closes: "prop_has (heap s) cid \<Longrightarrow> close_sent (conn_of s cid) \<longrightarrow> is_closed (conn_of s cid) \<Longrightarrow>
    is_closed (conn_of (snd (close_with env cid code r s)) cid)"
proof (cases "is_closed (conn_of s cid) \<or> close_sent (conn_of s cid)")
  case True
  assume "close_sent (conn_of s cid) \<longrightarrow> is_closed (conn_of s cid)"
  with True show ?thesis by (auto simp: close_with_eq close_body_alt)
next
  case False
  assume heap: "prop_has (heap s) cid"
  let ?m = "upd_conn cid (\<lambda>c. c\<lparr>close_sent := True, is_closed := True\<rparr>) s"
  have "shut cid True (snd (leave_all_rooms env cid ?m))"
    using heap by (intro keepsD [OF shut_leave_all_rooms]) (simp add: shut_def)
  moreover obtain e s1 where "leave_all_rooms env cid ?m = (e, s1)" by fastforce
  ultimately show ?thesis
    using False shut_finish [of cid True s1 env cid]
    by (cases e) (simp_all add: close_with_eq close_body_alt shut_def)
qed

text \<open>A close frame is only under way on connections that are closed.\<close>

definition sent_closed :: "node \<Rightarrow> bool" where
  "sent_closed s \<longleftrightarrow> (\<forall>x. close_sent (conn_of s x) \<longrightarrow> is_closed (conn_of s x))"

interpretation sent_closed_closing: node_kept sent_closed "\<lambda>_. True"
  by unfold_locales (auto simp: sent_closed_def)

interpretation sent_closed: server_kept sent_closed
  by unfold_locales (auto simp: sent_closed_def)

lemma rejected_closes:
  assumes "sent_closed s" "prop_has (heap s) cid"
    and "num_less (max_payload cfg) (js_nat (length (message_bytes data))) \<or>
      decode_message (JBuffer (message_bytes data)) (JNumber (max_payload cfg)) = Inr None"
  shows "is_closed (conn_of (snd (on_message env cfg cid data s)) cid)"
  using assms close_closes [of s cid env]
    close_closes [of "s\<lparr>out := out s @ [Metric (OnMessageReceived (length (message_bytes data)))]\<rparr>" cid env]
  by (auto simp: on_message_def Let_def andthen_None [OF metric_apply] sent_closed_def)

lemma closed_turn:
  "is_closed (conn_of (turn env cfg (Data cid data) s) x) = is_closed (conn_of (snd (on_message env cfg cid data s)) x)"
  by (simp add: turn_def split: prod.split option.split)

section \<open>Joining\<close>

definition authorized :: "env \<Rightarrow> js_string \<Rightarrow> conn \<Rightarrow> js_string \<Rightarrow> bool" where
  "authorized env cid c room =
     (case authorize_room env of None \<Rightarrow> True
      | Some auth \<Rightarrow> (case auth cid c room of Inl _ \<Rightarrow> False | Inr v \<Rightarrow> v \<noteq> JBool False))"

lemma dispatch_join_eq:
  assumes "msg_event msg = jstr ''join''" "allow_control_event (clock s) (conn_of s cid) = (ok, c)"
    and "prop_has (heap s) cid"
  shows "ok \<and> authorized env cid c (msg_room msg) \<Longrightarrow>
      dispatch env cid msg s = join_room (msg_room msg) cid True (upd_conn cid (\<lambda>_. c) s)"
    and "\<not> (ok \<and> authorized env cid c (msg_room msg)) \<Longrightarrow> snd (dispatch env cid msg s) = upd_conn cid (\<lambda>_. c) s"
  using assms by (auto simp: dispatch_def dispatch_join_def allow_def authorized_def Let_def split: option.splits sum.splits)

lemma joined_pending: "pending (joined_state room cid s) = pending s"
  by (simp add: joined_state_def Let_def enter_room_def open_room_def act_simps split: option.split)

text \<open>
  C28: Joining a room. A \<^verbatim>\<open>join\<close> request adds exactly its sender to exactly its room, announces
  it to the adapter, and waits; it does so when the token bucket has a token and
  \<^verbatim>\<open>authorize_room\<close> neither throws nor returns false, and otherwise nothing changes but the
  sender's bucket.
\<close>

theorem join_admission:
  assumes "prop_has (heap s) cid" "msg_event msg = jstr ''join''"
    and "allow_control_event (clock s) (conn_of s cid) = (ok, c)"
  shows "let s' = snd (dispatch env cid msg s); admitted = (ok \<and> authorized env cid c (msg_room msg)) in
    (\<forall>r x. member s' r x \<longleftrightarrow> member s r x \<or> admitted \<and> r = msg_room msg \<and> x = cid) \<and>
    calls_of (out s') = calls_of (out s) @ (if admitted then [AddPresence (msg_room msg) cid] else []) \<and>
    pending s' = pending s @ (if admitted then [AfterAddPresence (msg_room msg) cid True] else []) \<and>
    (\<not> admitted \<longrightarrow> out s' = out s \<and> s' = upd_conn cid (\<lambda>_. c) s)"
  using assms(1) dispatch_join_eq [OF assms(2,3,1), of env]
  by (cases "ok \<and> authorized env cid c (msg_room msg)") (auto simp: join_room_eq joined_pending Let_def)

lemma demo_join_allowed: "\<exists>ok c. allow_control_event (clock demo_node) (conn_of demo_node (jstr ''A'')) = (ok, c)"
  by simp

theorem join_admission_witness:
  "\<exists>ok c. let s' = snd (dispatch demo_env (jstr ''A'')
        (create_message (JString (jstr ''r'')) (JString (jstr ''join'')) JUndefined JUndefined JUndefined JUndefined JUndefined)
        demo_node);
      admitted = (ok \<and> authorized demo_env (jstr ''A'') c (jstr ''r'')) in
    (\<forall>r x. member s' r x \<longleftrightarrow> member demo_node r x \<or> admitted \<and> r = jstr ''r'' \<and> x = jstr ''A'')"
proof -
  let ?m = "create_message (JString (jstr ''r'')) (JString (jstr ''join'')) JUndefined JUndefined JUndefined JUndefined JUndefined"
  have m: "msg_event ?m = jstr ''join''" "msg_room ?m = jstr ''r''" by (simp_all add: create_message_def)
  obtain ok c where "allow_control_event (clock demo_node) (conn_of demo_node (jstr ''A'')) = (ok, c)"
    using demo_join_allowed by blast
  from join_admission [OF open_in_heap [OF demo_open] m(1) this, of demo_env] show ?thesis
    unfolding m(2) Let_def by blast
qed

text \<open>The presence list: the local members and the adapter's, each once.\<close>

lemma fold_prop_set:
  "prop_has (foldl (\<lambda>d x. prop_set d x ()) d xs) y \<longleftrightarrow> y \<in> set xs \<or> prop_has d y"
  "wf_dict d \<Longrightarrow> wf_dict (foldl (\<lambda>d x. prop_set d x ()) d xs)"
  by (induction xs arbitrary: d) auto

lemma presence_union_set:
  "set (presence_union snap reply) = set snap \<union> (case reply of Members ms \<Rightarrow> set ms | _ \<Rightarrow> {})"
  "distinct (presence_union snap reply)"
  by (auto simp: presence_union_def fold_prop_set distinct_obj_keys split: reply.splits)

text \<open>
  The join acknowledgement. When the adapter has answered, the client whose socket is open
  gets one frame: a \<^verbatim>\<open>join_ack\<close> of its room whose payload is the JSON array of exactly the
  members known locally at the time of the request and those the adapter reported, each once;
  if the adapter failed, of the local ones.
\<close>

theorem join_ack_complete:
  assumes "msg_encode (join_ack_msg room cid (presence_union snap reply)) = Inr raw"
    and "sendable (conn_of s cid)" "\<not> slow (conn_of s cid)"
  shows "\<exists>s'. settle env (AfterGetPresence room cid snap) reply s = (None, s') \<and>
    out s' = out s @ [WsSend cid raw, Metric (OnMessageSent (length raw))] \<and>
    distinct (presence_union snap reply) \<and>
    set (presence_union snap reply) = set snap \<union> (case reply of Members ms \<Rightarrow> set ms | _ \<Rightarrow> {})"
proof -
  have "\<not> evicts (conn_of s cid)" using assms(3) by (simp add: evicts_def)
  then have "settle env (AfterGetPresence room cid snap) reply s = (None, sent_state env raw cid s)"
    using assms(1) by (simp add: swallow_def try_ignore_def send_message_def try_send_calm)
  then show ?thesis
    using assms(2,3) presence_union_set by (simp add: delivery_def)
qed

lemma demo_sendable: "sendable (conn_of demo_node (jstr ''A''))" "\<not> slow (conn_of demo_node (jstr ''A''))"
proof -
  have "round_num 33554432 = Fin 33554432"
    using fl64_of_int [of 33554432] by (simp add: round_num_def)
  then show "sendable (conn_of demo_node (jstr ''A''))" "\<not> slow (conn_of demo_node (jstr ''A''))"
    by (simp_all add: demo_node_facts sendable_def slow_def track_room_def open_socket_def demo_conn_def
        create_conn_def Let_def demo_cfg_def server_config_def positive_or_def)
qed

theorem join_ack_complete_witness:
  "\<exists>raw s'. settle demo_env (AfterGetPresence (jstr ''root'') (jstr ''A'') []) Failed demo_node = (None, s') \<and>
    out s' = out demo_node @ [WsSend (jstr ''A'') raw, Metric (OnMessageSent (length raw))]"
proof -
  have "presence_union [] Failed = []" by (simp add: presence_union_def)
  moreover have "wire_ok (join_ack_msg (jstr ''root'') (jstr ''A'') [])"
    by (simp add: wire_ok_def join_ack_msg_def create_message_def payload_bytes_def jstr_def
      is_high_def is_low_def fields_fit_def utf8_encode_def enc_scalar_def is_byte_num_def
      PROTOCOL_VERSION_def DEFAULT_FLAGS_def)
  ultimately obtain raw where "msg_encode (join_ack_msg (jstr ''root'') (jstr ''A'') (presence_union [] Failed)) = Inr raw"
    using wire_ok_encodes by metis
  from join_ack_complete [OF this demo_sendable] show ?thesis by blast
qed

section \<open>Leaving\<close>

definition limit_is :: "js_string \<Rightarrow> jsnum \<Rightarrow> node \<Rightarrow> bool" where
  "limit_is x v s \<longleftrightarrow> max_buffer_bytes (conn_of s x) = v"

interpretation limit: node_kept "limit_is x v" "\<lambda>_. True" for x v
  by unfold_locales (auto simp: limit_is_def leave_state_def Let_def untrack_room_def)

text \<open>
  C29: Leaving a room. An allowed \<^verbatim>\<open>leave\<close> request under a dropping strategy takes exactly its
  sender out of exactly its room, member of it or not, and the last thing written is the
  \<^verbatim>\<open>leave_ack\<close> frame to the sender.
\<close>

theorem leave_acknowledged:
  assumes "reachable env cfg s" "lossy s" "msg_event msg = jstr ''leave''"
    and "allow_control_event (clock s) (conn_of s cid) = (True, c)"
    and "msg_encode (left_msg (msg_room msg) cid) = Inr left" "msg_encode (leave_ack_msg (msg_room msg) cid) = Inr ack"
    and "sendable (conn_of s cid)" "\<not> slow (conn_of s cid)"
  shows "\<exists>s' es. dispatch env cid msg s = (None, s') \<and>
    (\<forall>r x. member s' r x \<longleftrightarrow> member s r x \<and> \<not> (r = msg_room msg \<and> x = cid)) \<and>
    conns s' = conns s \<and>
    out s' = es @ [WsSend cid ack, Metric (OnMessageSent (length ack))]"
proof -
  let ?s = "upd_conn cid (\<lambda>_. c) s"
  have c: "is_closed c = is_closed (conn_of s cid)" "strategy c = strategy (conn_of s cid)"
    "ws c = ws (conn_of s cid)" "max_buffer_bytes c = max_buffer_bytes (conn_of s cid)"
    using allow_fields [of "clock s" "conn_of s cid"] by (simp_all add: assms(4))
  have heap: "prop_has (heap s) cid"
    using assms(7) open_in_heap by (auto simp: sendable_def)
  have "drops (conn_of s cid)" using assms(2,7) by (simp add: lossy_def sendable_def)
  then have l: "lossy ?s" using assms(2) c by (auto simp: lossy_def drops_def)
  have ok: "rooms_ok ?s"
    using membership.reachable_invariant [OF assms(1)] by (simp add: membership_def)
  obtain s1 where s1: "leave_room env (msg_room msg) cid ?s = (None, s1)" "left_rooms cid {msg_room msg} ?s s1"
    using leave_room_calm [OF ok l assms(5), of env] by blast
  have "\<not> is_closed (conn_of s1 cid)" "ws (conn_of s1 cid) = ws (conn_of s cid)"
    using s1(2) c heap assms(7) by (simp_all add: left_rooms_def sendable_def)
  moreover have "max_buffer_bytes (conn_of s1 cid) = max_buffer_bytes (conn_of s cid)"
    using keepsD [OF limit.keeps_leave_room [of cid "max_buffer_bytes (conn_of s cid)" env "msg_room msg" cid], of ?s]
      heap c s1(1) by (simp add: limit_is_def)
  ultimately have send: "sendable (conn_of s1 cid)" "\<not> slow (conn_of s1 cid)"
    using assms(7,8) by (simp_all add: sendable_def slow_def)
  then have "\<not> evicts (conn_of s1 cid)" by (simp add: evicts_def)
  then have "dispatch env cid msg s = (None, sent_state env ack cid s1)"
    using assms(3,4,6) s1(1)
    by (simp add: dispatch_def dispatch_leave_def allow_def andthen_None send_message_def try_send_calm)
  then show ?thesis
    using s1(2) send by (simp add: delivery_def left_rooms_def)
qed

lemma demo_clock: "clock demo_node = Fin 0"
proof -
  have clock: "clock (joined_state r x s) = clock s" for r x s
    by (simp add: joined_state_def Let_def enter_room_def open_room_def act_simps split: option.split)
  obtain p fs where d: "demo_node = (joined_state (jstr ''root'') (jstr ''A'')
     (connected_state (jstr ''A'') demo_conn (init_node (Fin 0))))\<lparr>out := fs, pending := p\<rparr>"
    using demo_node_eq by blast
  show ?thesis unfolding d by (simp add: clock connected_state_def init_node_def)
qed

lemma demo_allows:
  "\<exists>c. allow_control_event (clock demo_node) (conn_of demo_node (jstr ''A'')) = (True, c)"
proof -
  have "fl64 20 = 20" using fl64_of_int [of 20] by simp
  then show ?thesis
    by (simp add: demo_clock demo_node_facts track_room_def demo_conn_def create_conn_def Let_def
        allow_control_event_def demo_cfg_def server_config_def num_sub_def num_div_lit_def round_num_def
        num_leq_def positive_or_def)
qed

theorem leave_acknowledged_witness:
  "\<exists>s' es ack. dispatch demo_env (jstr ''A'') (create_message (JString (jstr ''root'')) (JString (jstr ''leave''))
      JUndefined JUndefined JUndefined JUndefined JUndefined) demo_node = (None, s') \<and>
    \<not> member s' (jstr ''root'') (jstr ''A'') \<and>
    out s' = es @ [WsSend (jstr ''A'') ack, Metric (OnMessageSent (length ack))]"
proof -
  let ?m = "create_message (JString (jstr ''root'')) (JString (jstr ''leave''))
      JUndefined JUndefined JUndefined JUndefined JUndefined"
  have m: "msg_event ?m = jstr ''leave''" "msg_room ?m = jstr ''root''" by (simp_all add: create_message_def)
  obtain left where left: "msg_encode (left_msg (msg_room ?m) (jstr ''A'')) = Inr left"
    unfolding m(2) using demo_left_encodes by blast
  have "wire_ok (leave_ack_msg (jstr ''root'') (jstr ''A''))"
    by (simp add: wire_ok_def leave_ack_msg_def create_message_def payload_bytes_def jstr_def
      is_high_def is_low_def fields_fit_def utf8_encode_def enc_scalar_def is_byte_num_def
      PROTOCOL_VERSION_def DEFAULT_FLAGS_def)
  then obtain ack where ack: "msg_encode (leave_ack_msg (msg_room ?m) (jstr ''A'')) = Inr ack"
    unfolding m(2) using wire_ok_encodes by blast
  obtain c where "allow_control_event (clock demo_node) (conn_of demo_node (jstr ''A'')) = (True, c)"
    using demo_allows by blast
  from leave_acknowledged [OF demo_reachable demo_lossy m(1) this left ack demo_sendable]
  show ?thesis unfolding m(2) by blast
qed

section \<open>Forwarding to one connection\<close>

lemma direct_forwarded:
  assumes "frame = raw_frame v f room event dst src payload" "fields_fit room event dst src payload" "v \<noteq> 0"
    and "valid_utf8 room" "valid_utf8 event" "valid_utf8 dst" "valid_utf8 src"
    and "utf8_decode event \<notin> {jstr ''join'', jstr ''leave''}" "utf8_decode dst = to" "to \<noteq> []"
    and "prop_has (conns s) to" "\<not> evicts (conn_of s to)"
    and "\<not> num_less (max_payload cfg) (js_nat (length frame))"
  shows "turn env cfg (Data cid (Whole frame)) s =
    sent_state env frame to (s\<lparr>out := out s @ [Metric (OnMessageReceived (length frame))]\<rparr>)"
proof -
  let ?m = "frame_message v f room event dst src payload"
  have dec: "decode_message (JBuffer frame) (JNumber (max_payload cfg)) = Inr (Some ?m)"
    using decode_raw_frame [OF assms(2)] assms(1,13) by (simp add: decode_message_def exceeds_max_def)
  have "utf8_encode (utf8_decode room) = room" "utf8_encode (utf8_decode event) = event"
    "utf8_encode (utf8_decode dst) = dst" "utf8_encode (utf8_decode src) = src"
    using assms(4-7) by (simp_all add: valid_utf8_def)
  then have enc: "msg_encode ?m = Inr frame"
    using reencode_frame [of room event dst src payload v f] assms(1-3) by simp
  let ?s = "s\<lparr>out := out s @ [Metric (OnMessageReceived (length frame))]\<rparr>"
  have "dispatch env cid ?m ?s = (None, sent_state env frame to ?s)"
    using assms(8-12) by (simp add: dispatch_def dispatch_other_def send_message_def enc try_send_calm)
  then show ?thesis
    using assms(13) by (simp add: turn_def on_message_def Let_def andthen_None [OF metric_apply] dec
        swallow_def try_ignore_def)
qed

text \<open>
  Direct messages are verbatim, whoever sends them. A frame with valid names, any event but
  \<^verbatim>\<open>join\<close> and \<^verbatim>\<open>leave\<close>, and a destination registered at this node is written unchanged to that
  connection, once, and nothing else happens: neither the sender field, nor the reserved
  events, nor membership of the room are checked.
\<close>

theorem unicast_verbatim:
  assumes "frame = raw_frame v f room event dst src payload" "fields_fit room event dst src payload" "v \<noteq> 0"
    and "valid_utf8 room" "valid_utf8 event" "valid_utf8 dst" "valid_utf8 src"
    and "utf8_decode event \<notin> {jstr ''join'', jstr ''leave''}" "utf8_decode dst = to" "to \<noteq> []"
    and "prop_has (conns s) to" "\<not> evicts (conn_of s to)"
    and "\<not> num_less (max_payload cfg) (js_nat (length frame))"
  shows "turn env cfg (Data cid (Whole frame)) s =
    sent_state env frame to (s\<lparr>out := out s @ [Metric (OnMessageReceived (length frame))]\<rparr>)"
  by (rule direct_forwarded [OF assms])

theorem unicast_verbatim_witness:
  "\<exists>frame. turn demo_env demo_cfg (Data (jstr ''B'') (Whole frame)) demo_node =
    sent_state demo_env frame (jstr ''A'') (demo_node\<lparr>out := out demo_node @ [Metric (OnMessageReceived (length frame))]\<rparr>)"
proof -
  let ?frame = "raw_frame 1 0 [114] [120] [65] [67] [1, 2]"
  have ascii: "valid_utf8 [b] \<and> utf8_decode [b] = [ucast b]" if "b \<in> {114, 120, 65, 67}" for b :: byte
    using that by (auto simp: valid_utf8_def utf8_decode_def utf8_scalars_def dec.simps units_def
        utf8_encode_def is_high_def is_low_def enc_scalar_def)
  have "\<not> evicts (conn_of demo_node (jstr ''A''))" using demo_sendable by (simp add: evicts_def)
  then have "turn demo_env demo_cfg (Data (jstr ''B'') (Whole ?frame)) demo_node =
    sent_state demo_env ?frame (jstr ''A'') (demo_node\<lparr>out := out demo_node @ [Metric (OnMessageReceived (length ?frame))]\<rparr>)"
    by (intro unicast_verbatim [where dst = "[65]", OF refl])
      (simp_all add: ascii fields_fit_def jstr_def demo_node_facts [unfolded jstr_def] raw_frame_def
        demo_cfg_def server_config_def)
  then show ?thesis by blast
qed

end
