(* ===== verification/Demo_Server.thy ===== *)
theory Demo_Server
  imports Requests
begin

text \<open>
  The example server, \<^verbatim>\<open>server/node/examples/main.js\<close>: which file it serves for a URL, its message
  handler and its choice of an adapter. The file system is a parameter: which paths exist and
  what reading one returns.
\<close>

section \<open>Paths\<close>

text \<open>\<^verbatim>\<open>s.split("/")\<close> and \<^verbatim>\<open>join("/")\<close>\<close>

fun split_slash :: "js_string \<Rightarrow> js_string list" where
  "split_slash [] = [[]]"
| "split_slash (u # us) =
     (if u = 47 then [] # split_slash us
      else case split_slash us of [] \<Rightarrow> [[u]] | s # ss \<Rightarrow> (u # s) # ss)"

fun join_slash :: "js_string list \<Rightarrow> js_string" where
  "join_slash [] = []"
| "join_slash [s] = s"
| "join_slash (s # t # ss) = s @ 47 # join_slash (t # ss)"

definition dot :: js_string where "dot = [46]"
definition dot_dot :: js_string where "dot_dot = [46, 46]"

text \<open>
  The \<^verbatim>\<open>node:path\<close> module on POSIX: empty segments and \<^verbatim>\<open>.\<close> are dropped and \<^verbatim>\<open>..\<close> takes the segment
  before it away; at the root there is none to take. The segments seen so far are reversed.
\<close>

definition path_step :: "bool \<Rightarrow> js_string list \<Rightarrow> js_string \<Rightarrow> js_string list" where
  "path_step absolute acc seg =
     (if seg = [] \<or> seg = dot then acc
      else if seg = dot_dot
      then (case acc of
              [] \<Rightarrow> if absolute then [] else [dot_dot]
            | s # rest \<Rightarrow> if s = dot_dot then dot_dot # acc else rest)
      else seg # acc)"

definition normalize_segments :: "bool \<Rightarrow> js_string list \<Rightarrow> js_string list" where
  "normalize_segments absolute segs = rev (foldl (path_step absolute) [] segs)"

definition normalize :: "js_string \<Rightarrow> js_string" where
  "normalize p =
     (let absolute = starts_with p [47]; trailing = (p \<noteq> [] \<and> last p = 47);
          q = join_slash (normalize_segments absolute (split_slash p)) in
      if q = [] then (if absolute then [47] else if trailing then [46, 47] else dot)
      else (if absolute then [47] else []) @ q @ (if trailing then [47] else []))"

definition path_join :: "js_string list \<Rightarrow> js_string" where
  "path_join args =
     (let joined = join_slash (filter (\<lambda>a. a \<noteq> []) args) in if joined = [] then dot else normalize joined)"

section \<open>Static files\<close>

definition find_file :: "(js_string \<Rightarrow> bool) \<Rightarrow> js_string list \<Rightarrow> js_string" where
  "find_file existsSync candidates =
     foldl (\<lambda>found c. if existsSync c then c else found) (hd candidates) candidates"

text \<open>
  The path for a request, or \<open>None\<close> for "Not Found". An absent or empty \<^verbatim>\<open>req.url\<close> is \<^verbatim>\<open>/\<close>.
\<close>

definition request_path :: "js_string \<Rightarrow> js_string \<Rightarrow> (js_string \<Rightarrow> bool) \<Rightarrow> js_string \<Rightarrow> js_string option" where
  "request_path base_path cwd existsSync req_url =
     (let url = (if req_url = [] then [47] else req_url) in
      if url = [47] \<or> url = jstr ''/index.html''
      then Some (find_file existsSync
        [path_join [base_path, jstr ''examples/index.html''], path_join [cwd, jstr ''examples/index.html'']])
      else if starts_with url (jstr ''/client/'') then Some (path_join [base_path, url])
      else if starts_with url (jstr ''/static/'') then Some (path_join [base_path, jstr ''examples'', url])
      else if starts_with url (jstr ''/tests/'')
      then Some (path_join [base_path, jstr ''tests'',
        if drop 7 url = [] then jstr ''index.html'' else drop 7 url])
      else None)"

definition ends_with :: "js_string \<Rightarrow> js_string \<Rightarrow> bool" where
  "ends_with s e \<longleftrightarrow> length e \<le> length s \<and> drop (length s - length e) s = e"

definition content_type :: "js_string \<Rightarrow> js_string option" where
  "content_type file_path =
     (if ends_with file_path (jstr ''.html'') then Some (jstr ''text/html'')
      else if ends_with file_path (jstr ''.js'') then Some (jstr ''application/javascript'')
      else if ends_with file_path (jstr ''.css'') then Some (jstr ''text/css'') else None)"

datatype response = Not_found | Ok "js_string option" bytes

definition respond ::
  "js_string \<Rightarrow> js_string \<Rightarrow> (js_string \<Rightarrow> bool) \<Rightarrow> (js_string \<Rightarrow> bytes option) \<Rightarrow> js_string \<Rightarrow> response" where
  "respond base_path cwd existsSync readFile url =
     (case request_path base_path cwd existsSync url of
        None \<Rightarrow> Not_found
      | Some file_path \<Rightarrow>
          (case readFile file_path of None \<Rightarrow> Not_found | Some data \<Rightarrow> Ok (content_type file_path) data))"

section \<open>The hub of the example\<close>

definition chat_handler :: handler where
  "chat_handler cid msg = ([SendToRoom cid (msg_room msg) (msg_event msg) (JBuffer (msg_payload msg))], None)"

text \<open>
  Which adapter the hub ends with. \<open>hub_adapter\<close> is its variable: \<^verbatim>\<open>configure\<close> replaces it when it is
  given an object, before it waits for the subscription, and keeps it otherwise.
\<close>

datatype hub_adapter = In_memory | Redis js_string js_string

definition redis_address :: "js_string option \<Rightarrow> js_string option \<Rightarrow> js_string" where
  "redis_address addr url =
     (case addr of Some (u # us) \<Rightarrow> u # us | _ \<Rightarrow> (case url of Some v \<Rightarrow> v | None \<Rightarrow> []))"

definition redis_url :: "js_string \<Rightarrow> js_string" where
  "redis_url addr =
     (if starts_with addr (jstr ''redis://'') \<or> starts_with addr (jstr ''rediss://'') then addr
      else jstr ''redis://'' @ addr)"

definition configure_adapter :: "hub_adapter option \<Rightarrow> bool \<Rightarrow> hub_adapter \<Rightarrow> hub_adapter \<times> bool" where
  "configure_adapter new_adapter subscribed old =
     (case new_adapter of Some a \<Rightarrow> (a, subscribed) | None \<Rightarrow> (old, True))"

text \<open>The connections of the two clients and the subscription succeed or fail.\<close>

definition demo_adapter :: "js_string \<Rightarrow> js_string \<Rightarrow> bool \<Rightarrow> bool \<Rightarrow> hub_adapter" where
  "demo_adapter addr prefix reached subscribed =
     (if addr = [] then fst (configure_adapter None subscribed In_memory)
      else if reached
      then (case configure_adapter (Some (Redis (redis_url addr) prefix)) subscribed In_memory of
              (a, True) \<Rightarrow> a
            | (a, False) \<Rightarrow> fst (configure_adapter None subscribed a))
      else fst (configure_adapter None subscribed In_memory))"

text \<open>The options it gives the server; they are the defaults.\<close>

definition demo_options :: server_options where
  "demo_options =
     \<lparr>opt_max_message_size = JNumber (Fin (16 * 1024 * 1024)), opt_channel_capacity = JNumber (Fin 8192),
      opt_backpressure = JUndefined, opt_ping_interval = JUndefined,
      opt_control_rate_limit = JNumber (Fin 10), opt_control_burst = JNumber (Fin 20)\<rparr>"

text \<open>
  SIGINT and SIGTERM: the hub is shut down; when its adapter has closed, the HTTP server is asked
  to close, and after its last connection the Redis clients are cut off and the process exits.
\<close>

datatype exit_step = Close_http | Disconnect_pub | Disconnect_sub | Exit nat

definition graceful_shutdown :: "env \<Rightarrow> node act" where
  "graceful_shutdown env = shutdown env"

definition after_shutdown :: "bool \<Rightarrow> bool \<Rightarrow> bool \<Rightarrow> exit_step list" where
  "after_shutdown adapter_closed http_closed has_redis =
     (if \<not> adapter_closed then []
      else Close_http # (if \<not> http_closed then []
        else (if has_redis then [Disconnect_pub, Disconnect_sub] else []) @ [Exit 0]))"

section \<open>Every file is served\<close>

lemma split_slash_nonempty [simp]: "split_slash s \<noteq> []"
  by (cases s) (auto split: list.split)

lemma split_slash_append: "split_slash (a @ 47 # b) = split_slash a @ split_slash b"
  by (induction a) (auto split: list.split)

lemma split_slash_segment: "47 \<notin> set s \<Longrightarrow> split_slash s = [s]"
  by (induction s) auto

lemma split_join: "ss \<noteq> [] \<Longrightarrow> \<forall>s \<in> set ss. 47 \<notin> set s \<Longrightarrow> split_slash (join_slash ss) = ss"
  by (induction ss rule: join_slash.induct) (auto simp: split_slash_segment split_slash_append)

definition proper :: "js_string \<Rightarrow> bool" where
  "proper s \<longleftrightarrow> s \<noteq> [] \<and> 47 \<notin> set s \<and> s \<noteq> dot \<and> s \<noteq> dot_dot"

definition absolute_path :: "js_string list \<Rightarrow> js_string" where
  "absolute_path ss = 47 # join_slash ss"

lemma path_steps_proper: "\<forall>s \<in> set ss. proper s \<Longrightarrow> foldl (path_step absolute) acc ss = rev ss @ acc"
  by (induction ss arbitrary: acc) (auto simp: path_step_def proper_def)

lemma path_steps_up:
  "\<forall>s \<in> set acc. s \<noteq> dot_dot \<Longrightarrow> foldl (path_step True) acc (replicate n dot_dot) = drop n acc"
proof (induction n arbitrary: acc)
  case (Suc n)
  have "path_step True acc dot_dot = drop 1 acc"
    using Suc.prems by (cases acc) (auto simp: path_step_def dot_dot_def dot_def)
  moreover have "\<forall>s \<in> set (drop 1 acc). s \<noteq> dot_dot" using Suc.prems by (auto dest: in_set_dropD)
  ultimately show ?case using Suc.IH [of "drop 1 acc"] by simp
qed simp

lemma path_step_empty: "path_step absolute acc [] = acc"
  by (simp add: path_step_def)

lemma join_slash_append:
  "as \<noteq> [] \<Longrightarrow> bs \<noteq> [] \<Longrightarrow> join_slash (as @ bs) = join_slash as @ 47 # join_slash bs"
proof (induction as rule: join_slash.induct)
  case (2 s)
  then show ?case by (cases bs) simp_all
qed simp_all

lemma last_join: "ss \<noteq> [] \<Longrightarrow> \<forall>s \<in> set ss. proper s \<Longrightarrow> join_slash ss \<noteq> [] \<and> last (join_slash ss) \<noteq> 47"
  by (induction ss rule: join_slash.induct) (auto simp: proper_def dest: last_in_set)

lemma join_nonempty: "ss \<noteq> [] \<Longrightarrow> \<forall>s \<in> set ss. proper s \<Longrightarrow> join_slash ss \<noteq> []"
  using last_join by blast

text \<open>An absolute path that does not end in a slash.\<close>

lemma normalize_absolute:
  assumes "foldl (path_step True) [] (split_slash q) = rev ss" "ss \<noteq> []" "\<forall>s \<in> set ss. proper s"
    and "q \<noteq> []" "last q \<noteq> 47"
  shows "normalize (47 # q) = absolute_path ss"
proof -
  have "normalize_segments True (split_slash (47 # q)) = ss"
    using assms(1) by (simp add: normalize_segments_def path_step_empty)
  then show ?thesis
    using assms(4,5) join_nonempty [OF assms(2,3)] by (simp add: normalize_def starts_with_def absolute_path_def)
qed

lemma client_path:
  assumes "base = absolute_path bs" "\<forall>s \<in> set bs. proper s" "r \<noteq> []" "last r \<noteq> 47"
    and "foldl (path_step True) (jstr ''client'' # rev bs) (split_slash r) = rev ss" "ss \<noteq> []" "\<forall>s \<in> set ss. proper s"
  shows "request_path base cwd ex (jstr ''/client/'' @ r) = Some (absolute_path ss)"
proof -
  let ?q = "join_slash bs @ 47 # [] @ 47 # jstr ''client'' @ 47 # r"
  have "foldl (path_step True) [] (split_slash (join_slash bs)) = rev bs"
  proof (cases "bs = []")
    case False
    then have "split_slash (join_slash bs) = bs" using assms(2) by (intro split_join) (auto simp: proper_def)
    then show ?thesis using path_steps_proper [OF assms(2), of True "[]"] by simp
  qed (simp add: path_step_empty)
  moreover have "split_slash (jstr ''client'') = [jstr ''client'']" by (rule split_slash_segment) (simp add: jstr_def)
  moreover have "path_step True acc (jstr ''client'') = jstr ''client'' # acc" for acc
    by (simp add: path_step_def jstr_def dot_def dot_dot_def)
  ultimately have "foldl (path_step True) [] (split_slash ?q) = rev ss"
    using assms(5) by (simp only: split_slash_append foldl_append) (simp add: path_step_empty)
  from normalize_absolute [OF this assms(6,7)] assms(3,4) have "normalize (47 # ?q) = absolute_path ss" by simp
  moreover have "path_join [base, jstr ''/client/'' @ r] = normalize (47 # ?q)"
    by (simp add: path_join_def assms(1) absolute_path_def) (simp add: jstr_def)
  moreover have "jstr ''/client/'' @ r \<noteq> [47]" "jstr ''/client/'' @ r \<noteq> jstr ''/index.html''" "jstr ''/client/'' @ r \<noteq> []"
    by (simp_all add: jstr_def)
  ultimately show ?thesis by (simp add: request_path_def Let_def)
qed

lemma proper_client: "proper (jstr ''client'')"
  by (simp add: proper_def jstr_def dot_def dot_dot_def)

text \<open>
  C38: the example server serves every file of the host. A URL below \<^verbatim>\<open>/client/\<close> without dots is
  answered with the file of that name in the client directory, as intended. But \<^verbatim>\<open>path.join\<close>
  resolves \<^verbatim>\<open>..\<close> and nothing checks the result: with one \<^verbatim>\<open>..\<close> more than the base path has
  segments, the URL names any absolute path, and the file is sent with status 200.
\<close>

theorem static_files_escape:
  assumes "base = absolute_path bs" "\<forall>s \<in> set (bs @ ss). proper s" "ss \<noteq> []"
  shows "respond base cwd ex rf (jstr ''/client/'' @ join_slash ss) =
      (case rf (absolute_path (bs @ jstr ''client'' # ss)) of
         None \<Rightarrow> Not_found
       | Some data \<Rightarrow> Ok (content_type (absolute_path (bs @ jstr ''client'' # ss))) data) \<and>
    respond base cwd ex rf (jstr ''/client/'' @ join_slash (replicate (Suc (length bs)) dot_dot @ ss)) =
      (case rf (absolute_path ss) of
         None \<Rightarrow> Not_found
       | Some data \<Rightarrow> Ok (content_type (absolute_path ss)) data)"
proof -
  have bs: "\<forall>s \<in> set bs. proper s" and ss: "\<forall>s \<in> set ss. proper s" using assms(2) by auto
  have "47 \<notin> set dot_dot" by (simp add: dot_dot_def)
  then have segments: "\<forall>s \<in> set (replicate n dot_dot @ ss). 47 \<notin> set s" for n
    using ss by (simp add: proper_def ball_Un)
  note r = last_join [OF assms(3) ss]
  have "split_slash (join_slash ss) = ss" using split_join [OF assms(3)] segments [of 0] by simp
  then have "foldl (path_step True) (jstr ''client'' # rev bs) (split_slash (join_slash ss)) = rev (bs @ jstr ''client'' # ss)"
    using path_steps_proper [OF ss] by simp
  from client_path [OF assms(1) bs _ _ this] r bs ss proper_client
  have down: "request_path base cwd ex (jstr ''/client/'' @ join_slash ss) = Some (absolute_path (bs @ jstr ''client'' # ss))"
    by (simp add: ball_Un)
  let ?up = "replicate (Suc (length bs)) dot_dot"
  have joined: "join_slash (?up @ ss) = join_slash ?up @ 47 # join_slash ss"
    using assms(3) by (intro join_slash_append) simp_all
  have "split_slash (join_slash (?up @ ss)) = ?up @ ss"
    using split_join [OF _ segments [of "Suc (length bs)"]] assms(3) by blast
  moreover have "foldl (path_step True) (jstr ''client'' # rev bs) ?up = drop (Suc (length bs)) (jstr ''client'' # rev bs)"
    by (rule path_steps_up) (use bs proper_client in \<open>auto simp: proper_def\<close>)
  ultimately have "foldl (path_step True) (jstr ''client'' # rev bs) (split_slash (join_slash (?up @ ss))) = rev ss"
    using path_steps_proper [OF ss, of True "[]"] by (simp del: replicate_Suc)
  from client_path [OF assms(1) bs _ _ this assms(3) ss] r
  have up: "request_path base cwd ex (jstr ''/client/'' @ join_slash (?up @ ss)) = Some (absolute_path ss)"
    unfolding joined by simp
  show ?thesis unfolding respond_def down up by simp
qed

theorem static_files_escape_witness:
  "respond (jstr ''/srv/roomer'') (jstr ''/'') (\<lambda>_. True) (\<lambda>p. if p = jstr ''/etc/passwd'' then Some [1] else None)
     (jstr ''/client/../../../etc/passwd'') = Ok None [1]"
proof -
  have base: "jstr ''/srv/roomer'' = absolute_path [jstr ''srv'', jstr ''roomer'']"
    and target: "absolute_path [jstr ''etc'', jstr ''passwd''] = jstr ''/etc/passwd''"
    and url: "jstr ''/client/'' @ join_slash (replicate (Suc (length [jstr ''srv'', jstr ''roomer''])) dot_dot @ [jstr ''etc'', jstr ''passwd''])
      = jstr ''/client/../../../etc/passwd''"
    by (simp_all add: absolute_path_def jstr_def dot_dot_def)
  have "\<forall>s \<in> set ([jstr ''srv'', jstr ''roomer''] @ [jstr ''etc'', jstr ''passwd'']). proper s"
    by (simp add: proper_def jstr_def dot_def dot_dot_def)
  from conjunct2 [OF static_files_escape [OF base this list.distinct(2)], unfolded url target,
      of "jstr ''/''" "\<lambda>_. True" "\<lambda>p. if p = jstr ''/etc/passwd'' then Some [1] else None"]
  have "respond (jstr ''/srv/roomer'') (jstr ''/'') (\<lambda>_. True) (\<lambda>p. if p = jstr ''/etc/passwd'' then Some [1] else None)
      (jstr ''/client/../../../etc/passwd'') = Ok (content_type (jstr ''/etc/passwd'')) [1]" by simp
  moreover have "content_type (jstr ''/etc/passwd'') = None" by code_simp
  ultimately show ?thesis by simp
qed

section \<open>The choice of the adapter\<close>

text \<open>
  When the clients connect but the subscription fails, the example reports standalone mode; its
  hub still has the Redis adapter.
\<close>

lemma fallback_keeps_redis:
  "addr \<noteq> [] \<Longrightarrow> demo_adapter addr prefix True False = Redis (redis_url addr) prefix"
  by (simp add: demo_adapter_def configure_adapter_def)

section \<open>Chat messages\<close>

text \<open>
  C25: the chat handler. A frame with the event \<^verbatim>\<open>chat\<close> and no destination reaches every other
  connected member of its room once, and the other nodes, as a new frame: same room, event and
  payload, the sender field overwritten with the id of the connection it came from, whatever
  the client had put there, and version and flags reset. The sender need not be a member of the
  room. The frame is within the size limit, its room is valid UTF-8, the id of the connection
  takes at most 255 bytes, and no recipient is to be evicted.
\<close>

theorem chat_delivers:
  assumes "reachable env cfg s" "prop_get (handlers s) (jstr ''chat'') = Some chat_handler"
    and "frame = raw_frame v f room (utf8_encode (jstr ''chat'')) [] src payload"
    and "fields_fit room (utf8_encode (jstr ''chat'')) [] src payload" "valid_utf8 room" "length (utf8_encode cid) \<le> 255"
    and "\<forall>x \<in> set (recipients s (Some cid) (utf8_decode room)). \<not> evicts (conn_of s x)"
    and "\<not> num_less (max_payload cfg) (js_nat (length frame))"
  shows "let raw = raw_frame 1 0 room (utf8_encode (jstr ''chat'')) [] (utf8_encode cid) payload in
    out (turn env cfg (Data cid (Whole frame)) s) = out s @ [Metric (OnMessageReceived (length frame))]
      @ concat (map (\<lambda>x. delivery (conn_of s x) x raw) (recipients s (Some cid) (utf8_decode room)))
      @ [Call (PublishRaw (utf8_decode room) raw)] \<and>
    rooms (turn env cfg (Data cid (Whole frame)) s) = rooms s"
proof -
  let ?chat = "utf8_encode (jstr ''chat'')" and ?name = "utf8_decode room"
  let ?raw = "raw_frame 1 0 room ?chat [] (utf8_encode cid) payload"
  let ?m = "frame_message v f room ?chat [] src payload"
  let ?s = "s\<lparr>out := out s @ [Metric (OnMessageReceived (length frame))]\<rparr>"
  let ?n = "create_message (JString ?name) (JString (jstr ''chat'')) (JString []) (JString cid) (JBuffer payload) JUndefined JUndefined"
  have dec: "decode_message (JBuffer frame) (JNumber (max_payload cfg)) = Inr (Some ?m)"
    using decode_raw_frame [OF assms(4)] assms(3,8) by (simp add: decode_message_def exceeds_max_def)
  have chat: "utf8_decode ?chat = jstr ''chat''" by (rule utf8_roundtrip) (simp add: jstr_def is_high_def is_low_def)
  have none: "utf8_decode [] = []" "utf8_encode [] = []"
    by (simp_all add: utf8_decode_def utf8_scalars_def dec.simps utf8_encode_def)
  have fields: "msg_room ?n = ?name" "msg_event ?n = jstr ''chat''" "msg_dst ?n = []" "msg_src ?n = cid" "msg_payload ?n = payload"
    and v: "u8_of_num (msg_version ?n) = Inr 1" and f: "u8_of_num (msg_flags ?n) = Inr 0"
    by (simp_all add: create_message_def payload_bytes_def PROTOCOL_VERSION_def DEFAULT_FLAGS_def u8_of_num_def)
  have "fields_fit (utf8_encode ?name) ?chat (utf8_encode []) (utf8_encode cid) payload"
    using assms(4-6) by (simp add: fields_fit_def valid_utf8_def none)
  then have enc: "msg_encode ?n = Inr ?raw"
    using encode_fits [OF length_alloc_zero _ v f] assms(5) unfolding fields by (simp add: none valid_utf8_def)
  have "rooms_ok s"
    using membership.reachable_invariant [OF assms(1)] by (simp add: membership_def)
  then have ok: "rooms_ok ?s" and distinct: "distinct (recipients s (Some cid) ?name)"
    by (simp_all add: recipients_def distinct_obj_keys rooms_ok_wf rooms_ok_other)
  have same: "recipients ?s (Some cid) ?name = recipients s (Some cid) ?name" "conn_of ?s x = conn_of s x" for x
    by (simp_all add: recipients_def)
  have calm: "\<forall>x \<in> set (recipients ?s (Some cid) (msg_room ?n)). \<not> evicts (conn_of ?s x)"
    using assms(7) by (simp only: same fields)
  have names: "jstr ''chat'' \<noteq> jstr ''join''" "jstr ''chat'' \<noteq> jstr ''leave''" by (simp_all add: jstr_def)
  obtain s' where s': "broadcast_room env (Some cid) ?n ?s = (None, s')"
      "out s' = out ?s @ concat (map (\<lambda>x. delivery (conn_of s x) x ?raw) (recipients s (Some cid) ?name))
        @ [Call (PublishRaw ?name ?raw)]" "rooms s' = rooms s"
    using broadcast_calm [OF ok calm enc, of env] distinct by (simp add: Let_def out_fold_sent same fields)
  have "dispatch env cid ?m ?s = (None, s')"
    using assms(2) names s'(1)
    by (simp add: dispatch_def dispatch_other_def chat none run_handler_def chat_handler_def send_to_room_def andthen_def skip_def)
  then have "turn env cfg (Data cid (Whole frame)) s = s'"
    using assms(8) by (simp add: turn_def on_message_def Let_def andthen_None [OF metric_apply] dec swallow_def try_ignore_def)
  then show ?thesis using s'(2,3) by simp
qed

definition chatting :: node where
  "chatting = turn demo_env demo_cfg (Register (jstr ''chat'') chat_handler) demo_node"

lemma chatting_facts: "chatting = demo_node\<lparr>handlers := [(jstr ''chat'', chat_handler)]\<rparr>"
proof -
  have "jstr ''chat'' \<notin> set RESERVED_EVENTS" by (simp add: RESERVED_EVENTS_def jstr_def)
  then show ?thesis
    by (simp add: demo_handlers chatting_def turn_def register_handler_def prop_set_def)
qed

theorem chat_delivers_witness:
  "\<exists>frame raw. decode_message (JBuffer frame) JUndefined \<noteq> Inr None \<and>
    out (turn demo_env demo_cfg (Data (jstr ''B'') (Whole frame)) chatting) = out chatting @
      [Metric (OnMessageReceived (length frame)), WsSend (jstr ''A'') raw, Metric (OnMessageSent (length raw)),
       Call (PublishRaw (jstr ''root'') raw)]"
proof -
  let ?room = "utf8_encode (jstr ''root'')" and ?chat = "utf8_encode (jstr ''chat'')"
  let ?frame = "raw_frame 1 0 ?room ?chat [] [] [7]"
  have reach: "reachable demo_env demo_cfg chatting"
    unfolding chatting_def by (rule reachable_turn [OF demo_reachable]) (simp add: enabled_def)
  have "prop_get (handlers chatting) (jstr ''chat'') = Some chat_handler"
    by (simp add: chatting_facts prop_get_def)
  moreover have fit: "fields_fit ?room ?chat [] [] [7]"
    by (simp add: fields_fit_def jstr_def utf8_encode_def is_high_def is_low_def enc_scalar_def)
  moreover have room: "utf8_decode ?room = jstr ''root''" by (rule utf8_roundtrip) (simp add: jstr_def is_high_def is_low_def)
  then have "valid_utf8 ?room" by (simp add: valid_utf8_def)
  moreover have "length (utf8_encode (jstr ''B'')) \<le> 255"
    by (simp add: jstr_def utf8_encode_def is_high_def is_low_def enc_scalar_def)
  moreover have "\<not> num_less (max_payload demo_cfg) (js_nat (length ?frame))"
    by (simp add: demo_cfg_def server_config_def length_raw_frame jstr_def utf8_encode_def is_high_def
        is_low_def enc_scalar_def HEADER_OVERHEAD_def)
  moreover have "array_index (jstr ''A'') = None" "jstr ''A'' \<noteq> jstr ''B''" by (simp_all add: jstr_def array_index_def is_digit_def)
  then have rec: "recipients chatting (Some (jstr ''B'')) (jstr ''root'') = [jstr ''A'']"
    by (simp add: recipients_def chatting_facts demo_node_facts obj_keys_def)
  moreover have calm: "sendable (conn_of chatting (jstr ''A''))" "\<not> slow (conn_of chatting (jstr ''A''))"
    using demo_sendable by (simp_all add: chatting_facts demo_node_facts)
  then have "\<not> evicts (conn_of chatting (jstr ''A''))" by (simp add: evicts_def)
  moreover have "decode_message (JBuffer ?frame) JUndefined \<noteq> Inr None" using decode_raw [OF fit] by simp
  ultimately show ?thesis
    using chat_delivers [OF reach, where frame = ?frame and cid = "jstr ''B''"] calm
    by (intro exI [of _ ?frame] exI [of _ "raw_frame 1 0 ?room ?chat [] (utf8_encode (jstr ''B'')) [7]"])
      (simp add: room delivery_def Let_def)
qed

end
