(* ===== verification/Hazards.thy ===== *)
theory Hazards
  imports Requests
begin

text \<open>
  Where closing fails: a room whose name cannot be encoded, and an eviction inside an
  eviction. Both leave a closed connection registered, and both throw out of an event
  listener, which ends the process unless the application catches uncaught exceptions.
\<close>

section \<open>A room that cannot be left\<close>

lemma leave_room_fails:
  "prop_has (rooms s) r \<Longrightarrow> msg_encode (left_msg r cid) = Inl e \<Longrightarrow>
     leave_room env r cid s = (Some e, leave_state r cid s)"
  by (simp add: leave_room_def leave_room_alt broadcast_room_with_def)

lemma leave_list_fails:
  assumes "rooms_ok s" "lossy s" "distinct rs" "r \<in> set rs" "member s r cid"
    and "msg_encode (left_msg r cid) = Inl e"
  shows "\<exists>e' s'. for_each (\<lambda>r. leave_room env r cid) rs s = (Some e', s') \<and> conns s' = conns s \<and>
    (\<forall>x. is_closed (conn_of s' x) = is_closed (conn_of s x))"
  using assms
proof (induction rs arbitrary: s)
  case (Cons q rs)
  show ?case
  proof (cases "prop_has (rooms s) q \<and> (\<exists>e. msg_encode (left_msg q cid) = Inl e)")
    case True
    then show ?thesis by (auto simp: leave_room_fails andthen_def)
  next
    case False
    have "prop_has (rooms s) r" using Cons.prems(5) no_room_no_member by blast
    with False Cons.prems(6) have "q \<noteq> r" by auto
    have "\<exists>s1. leave_room env q cid s = (None, s1) \<and> rooms_ok s1 \<and> lossy s1 \<and> member s1 r cid \<and>
        conns s1 = conns s \<and> (\<forall>x. is_closed (conn_of s1 x) = is_closed (conn_of s x))"
    proof (cases "msg_encode (left_msg q cid)")
      case (Inr raw)
      from leave_room_calm [OF Cons.prems(1,2) this, of env] \<open>q \<noteq> r\<close> Cons.prems(5)
      show ?thesis by (auto simp: left_rooms_def)
    next
      case Inl
      with False Cons.prems \<open>q \<noteq> r\<close> show ?thesis
        by (simp add: leave_room_def leave_room_alt rooms_ok_leave)
    qed
    then obtain s1 where s1: "leave_room env q cid s = (None, s1)" "rooms_ok s1" "lossy s1" "member s1 r cid"
        "conns s1 = conns s" "\<forall>x. is_closed (conn_of s1 x) = is_closed (conn_of s x)" by blast
    with Cons.IH [of s1] Cons.prems \<open>q \<noteq> r\<close> show ?thesis
      by (auto simp: andthen_def)
  qed
qed simp

lemma wf_rooms_distinct: "distinct (joined_rooms c) \<or> \<not> wf_dict (conn_rooms c)"
  by (auto simp: joined_rooms_def distinct_obj_keys)

definition conns_wf :: "node \<Rightarrow> bool" where
  "conns_wf s \<longleftrightarrow> (\<forall>x. wf_dict (conn_rooms (conn_of s x)))"

interpretation conns_wf_closing: node_kept conns_wf "\<lambda>_. True"
  by unfold_locales (auto simp: conns_wf_def leave_state_def Let_def untrack_room_def)

interpretation conns_wf: server_kept conns_wf
  by unfold_locales (auto simp: conns_wf_def joined_state_def Let_def track_room_def)

lemma close_unencodable:
  assumes s: "membership s" "conns_wf s" "lossy s" "\<not> is_closed (conn_of s cid)"
    and r: "tracks s cid r" "msg_encode (left_msg r cid) = Inl e"
  shows "\<exists>e' s'. handle env cfg (Close cid) s = (Some e', s') \<and> is_closed (conn_of s' cid) \<and> conns s' = conns s"
proof -
  let ?a = "s\<lparr>active := prop_del (active s) cid\<rparr>"
  let ?m = "upd_conn cid (\<lambda>c. c\<lparr>is_closed := True\<rparr>) ?a"
  let ?rs = "joined_rooms (conn_of ?m cid)"
  have heap: "prop_has (heap s) cid" by (rule open_in_heap [OF s(4)])
  have ok: "rooms_ok ?m" using s(1) by (simp add: membership_def)
  moreover have "lossy ?a" using s(3) by (simp add: lossy_def)
  then have "lossy ?m" by (rule lossy_upd) simp_all
  moreover have "distinct ?rs" "r \<in> set ?rs" "member ?m r cid"
    using s r heap by (auto simp: joined_rooms_def conns_wf_def distinct_obj_keys tracks_def membership_def)
  ultimately obtain e' s1 where s1: "for_each (\<lambda>r. leave_room env r cid) ?rs ?m = (Some e', s1)"
      "conns s1 = conns s" "is_closed (conn_of s1 cid)"
    using leave_list_fails [of ?m ?rs r cid e env] r(2) heap by auto
  then have "leave_all_rooms env cid ?m = (Some e', s1)"
    by (simp add: leave_all_rooms_def leave_all_rooms_with_def leave_room_def)
  then show ?thesis
    using s(4) s1 by (simp add: on_close_def andthen_modify cleanup_alt)
qed

text \<open>
  A room that cannot be left. A connection is in a room whose \<^verbatim>\<open>member_left\<close> frame cannot
  be encoded, which no check on joining prevents. When its socket closes, the exception leaves
  the listener; the connection is marked closed, so no later event cleans it up, but it stays
  in the hub's registry.
\<close>

theorem unencodable_room_leaks:
  assumes "reachable env cfg s" "lossy s" "\<not> is_closed (conn_of s cid)"
    and "tracks s cid r" "msg_encode (left_msg r cid) = Inl e"
  shows "let s' = turn env cfg (Close cid) s in
    (\<exists>e'. last (out s') = Uncaught e') \<and> is_closed (conn_of s' cid) \<and> prop_has (conns s') cid"
proof -
  obtain e' s1 where s1: "handle env cfg (Close cid) s = (Some e', s1)" "is_closed (conn_of s1 cid)"
      "conns s1 = conns s"
    using close_unencodable [OF membership.reachable_invariant [OF assms(1)]
        conns_wf.reachable_invariant [OF assms(1)] assms(2-5), of env cfg] by blast
  have "prop_has (conns s) cid"
    using registered.reachable_invariant [OF assms(1)] assms(3) by (simp add: registered_def)
  with s1 show ?thesis by (simp add: turn_def del: handle.simps)
qed

text \<open>A room name that is too long once its invalid bytes have become U+FFFD.\<close>

definition long_room :: js_string where
  "long_room = utf8_decode (replicate 30000 255)"

lemma long_room_left: "msg_encode (left_msg long_room cid) = Inl room_too_long"
  by (rule long_room_throws [of 30000]) (simp_all add: left_msg_def create_message_def long_room_def)

definition demo_trapped :: node where
  "demo_trapped = turn demo_env demo_cfg (App (JoinRoom long_room (jstr ''A''))) demo_node"

lemma demo_trapped_eq:
  "\<exists>p. demo_trapped = (joined_state long_room (jstr ''A'') demo_node)\<lparr>pending := p\<rparr>"
  using open_in_heap [OF demo_open] by (simp add: demo_trapped_def turn_def join_room_eq) blast

lemma demo_trapped_reachable: "reachable demo_env demo_cfg demo_trapped"
proof (rule reachable.step [OF demo_reachable])
  show "step demo_env demo_cfg demo_node demo_trapped"
    unfolding demo_trapped_def by (intro step.turn) (simp add: enabled_def)
qed

lemma demo_trapped_facts:
  "lossy demo_trapped" "\<not> is_closed (conn_of demo_trapped (jstr ''A''))"
  "tracks demo_trapped (jstr ''A'') long_room"
proof -
  obtain p where p: "demo_trapped = (joined_state long_room (jstr ''A'') demo_node)\<lparr>pending := p\<rparr>"
    using demo_trapped_eq by blast
  show "\<not> is_closed (conn_of demo_trapped (jstr ''A''))" by (simp add: p demo_open)
  show "tracks demo_trapped (jstr ''A'') long_room"
    by (simp add: p open_in_heap [OF demo_open])
  show "lossy demo_trapped"
    using demo_lossy by (auto simp: p lossy_def joined_state_def Let_def drops_def track_room_def)
qed

theorem unencodable_room_leaks_witness:
  "let s' = turn demo_env demo_cfg (Close (jstr ''A'')) demo_trapped in
    (\<exists>e'. last (out s') = Uncaught e') \<and> is_closed (conn_of s' (jstr ''A'')) \<and> prop_has (conns s') (jstr ''A'')"
  by (rule unencodable_room_leaks [OF demo_trapped_reachable demo_trapped_facts long_room_left])

lemma lossy_joined: "lossy (joined_state name cid s) = lossy s"
proof -
  have "strategy (conn_of (joined_state name cid s) x) = strategy (conn_of s x)" for x
    by (simp add: joined_state_def Let_def track_room_def)
  then show ?thesis by (simp add: lossy_def drops_def)
qed

lemma lossy_pending: "lossy (s\<lparr>pending := p\<rparr>) = lossy s"
  by (simp add: lossy_def)

text \<open>
  C35: One frame is enough for that, where every open connection has a dropping strategy (with
  the default one, evictions on the way are not excluded, and nothing is claimed). Any open
  client of a server without \<^verbatim>\<open>authorize_room\<close> that may send a control event sends a \<^verbatim>\<open>join\<close> frame whose room name has from 21846 to 65535 bytes
  that are not UTF-8, and disconnects: an uncaught RangeError in the \<^verbatim>\<open>close\<close> listener.
\<close>

theorem hostile_join_crashes:
  assumes "reachable env cfg s" "lossy s" "\<not> is_closed (conn_of s cid)"
    and "authorize_room env = None" "fst (allow_control_event (clock s) (conn_of s cid))"
    and "21846 \<le> n" "n \<le> 65535"
    and "frame = raw_frame 1 0 (replicate n 255) (utf8_encode (jstr ''join'')) [] [] []"
    and "num_leq (js_nat (length frame)) (max_payload cfg)"
  shows "\<exists>e. last (out (turn env cfg (Close cid) (turn env cfg (Data cid (Whole frame)) s))) = Uncaught e"
proof -
  let ?m = "frame_message 1 0 (replicate n 255) (utf8_encode (jstr ''join'')) [] [] []"
  let ?room = "utf8_decode (replicate n 255)"
  have jn: "utf8_decode (utf8_encode (jstr ''join'')) = jstr ''join''"
    by (rule utf8_roundtrip) simp
  have fit: "fields_fit (replicate n 255) (utf8_encode (jstr ''join'')) [] [] []"
    using assms(7) by (simp add: fields_fit_def) (simp add: jstr_def utf8_encode_def is_high_def is_low_def enc_scalar_def)
  have small: "\<not> num_less (max_payload cfg) (js_nat (length frame))"
    using assms(9) by (cases "max_payload cfg") (auto simp: num_leq_def)
  then have dec: "decode_message (JBuffer frame) (JNumber (max_payload cfg)) = Inr (Some ?m)"
    using decode_raw_frame [OF fit] assms(8) by (simp add: decode_message_def exceeds_max_def)
  let ?s0 = "s\<lparr>out := out s @ [Metric (OnMessageReceived (length frame))]\<rparr>"
  obtain c where c: "allow_control_event (clock s) (conn_of s cid) = (True, c)"
    using assms(5) by (cases "allow_control_event (clock s) (conn_of s cid)") auto
  have flags: "is_closed c = is_closed (conn_of s cid)" "strategy c = strategy (conn_of s cid)"
    "conn_rooms c = conn_rooms (conn_of s cid)"
    using allow_fields [of "clock s" "conn_of s cid"] by (simp_all add: c)
  let ?s1 = "upd_conn cid (\<lambda>_. c) ?s0"
  let ?t = "turn env cfg (Data cid (Whole frame)) s"
  have t: "\<exists>p. ?t = (joined_state ?room cid ?s1)\<lparr>pending := p\<rparr>"
    using small dec c assms(4)
    by (simp add: turn_def on_message_def Let_def andthen_None [OF metric_apply] swallow_def try_ignore_def
        dispatch_def jn dispatch_join_def allow_def join_room_eq) blast
  have heap: "prop_has (heap s) cid" by (rule open_in_heap [OF assms(3)])
  have reach: "reachable env cfg ?t"
    using heap by (intro reachable.step [OF assms(1)] step.turn) (simp add: enabled_def)
  have "drops (conn_of s cid)" using assms(2,3) by (simp add: lossy_def)
  then have "lossy ?s1" using assms(2) flags by (auto simp: lossy_def drops_def)
  moreover obtain p where p: "?t = (joined_state ?room cid ?s1)\<lparr>pending := p\<rparr>" using t by blast
  ultimately have "lossy ?t" "\<not> is_closed (conn_of ?t cid)" "tracks ?t cid ?room"
    using assms(3) flags heap by (simp_all add: lossy_pending lossy_joined)
  moreover have "msg_encode (left_msg ?room cid) = Inl room_too_long"
    by (rule long_room_throws [OF assms(6)]) (simp add: left_msg_def create_message_def)
  ultimately obtain e' s' where "handle env cfg (Close cid) ?t = (Some e', s')"
    using close_unencodable [OF membership.reachable_invariant [OF reach] conns_wf.reachable_invariant [OF reach]]
    by blast
  then show ?thesis by (simp add: turn_def [of env cfg "Close cid"] del: handle.simps)
qed

lemma demo_allowed: "fst (allow_control_event (clock demo_node) (conn_of demo_node (jstr ''A'')))"
  using demo_allows by auto

theorem hostile_join_crashes_witness:
  "\<exists>frame e. last (out (turn demo_env demo_cfg (Close (jstr ''A''))
     (turn demo_env demo_cfg (Data (jstr ''A'') (Whole frame)) demo_node))) = Uncaught e"
proof -
  let ?frame = "raw_frame 1 0 (replicate 30000 255) (utf8_encode (jstr ''join'')) [] [] []"
  have "length (utf8_encode (jstr ''join'')) = 4"
    by (simp add: jstr_def utf8_encode_def is_high_def is_low_def enc_scalar_def)
  then have "length ?frame = 30016" by (simp add: raw_frame_def)
  then have "num_leq (js_nat (length ?frame)) (max_payload demo_cfg)"
    by (simp add: demo_cfg_def server_config_def num_leq_def)
  then show ?thesis
    using hostile_join_crashes [OF demo_reachable demo_lossy demo_open _ demo_allowed _ _ refl, of 30000]
    by (auto simp: demo_env_def)
qed

section \<open>Evictions during a walk over the members\<close>

lemma try_send_evicts:
  assumes "evicts (conn_of s c)"
  shows "try_send env c raw s =
    close_with env c (JNumber (Fin 1008)) (JString (jstr ''Slow client buffer overflow''))
      (s\<lparr>out := out s @ [Metric OnMessageDropped]\<rparr>)"
  using assms by (simp add: try_send_def try_send_body_def Let_def evicts_def sendable_def slow_def drops_def
      andthen_None [OF metric_apply] when_act_def)

text \<open>Closing a connection whose only room is \<open>r\<close> runs one walk over the other members of \<open>r\<close>.\<close>

lemma evict_step:
  assumes "evicts (conn_of s c)" "\<not> close_sent (conn_of s c)" "joined_rooms (conn_of s c) = [r]"
    and "\<exists>s1. leave_room env r c (upd_conn c (\<lambda>c. c\<lparr>close_sent := True, is_closed := True\<rparr>)
           (s\<lparr>out := out s @ [Metric OnMessageDropped]\<rparr>)) = (None, s1) \<and> Q (finish_close env c
             (Some (status_code (JNumber (Fin 1008)), string_or (JString (jstr ''Slow client buffer overflow'')) [])) s1)"
  shows "\<exists>s'. try_send env c raw s = (None, s') \<and> Q s'"
proof -
  have "\<not> is_closed (conn_of s c)" using assms(1) by (simp add: evicts_def sendable_def)
  moreover from this have "prop_has (heap s) c" by (rule open_in_heap)
  moreover have "joined_rooms (k\<lparr>close_sent := True, is_closed := True\<rparr>) = joined_rooms k" for k
    by (simp add: joined_rooms_def)
  ultimately show ?thesis
    using assms(2-4) unfolding try_send_evicts [OF assms(1)]
    by (auto simp: close_with_eq close_body_alt leave_all_rooms_def leave_all_rooms_with_def
        leave_room_def [symmetric])
qed

text \<open>The effect of evicting \<open>c\<close> on the rest: \<open>R\<close> are the members of \<open>r\<close> that are gone.\<close>

definition evicted :: "js_string \<Rightarrow> js_string set \<Rightarrow> node \<Rightarrow> node \<Rightarrow> bool" where
  "evicted r R s s' \<longleftrightarrow> rooms_ok s' \<and> (\<forall>x. member s' r x \<longleftrightarrow> member s r x \<and> x \<notin> R) \<and>
     (\<forall>x. x \<notin> R \<longrightarrow> is_closed (conn_of s' x) = is_closed (conn_of s x) \<and>
        (prop_has (conns s') x \<longleftrightarrow> prop_has (conns s) x))"

lemma evicted_finish: "evicted r R s s1 \<Longrightarrow> c \<in> R \<Longrightarrow> evicted r R s (finish_close env c a s1)"
  by (auto simp: evicted_def finish_close_def Let_def remove_conn_def ws_close_def act_simps rooms_ok_def)

lemma evict_alone:
  assumes "rooms_ok s" "evicts (conn_of s c)" "\<not> close_sent (conn_of s c)" "joined_rooms (conn_of s c) = [r]"
    and only: "\<And>x. member s r x \<longleftrightarrow> x = c" and enc: "msg_encode (left_msg r c) = Inr m"
  shows "\<exists>s'. try_send env c raw s = (None, s') \<and> evicted r {c} s s'"
proof (rule evict_step [OF assms(2-4)])
  let ?m = "upd_conn c (\<lambda>c. c\<lparr>close_sent := True, is_closed := True\<rparr>) (s\<lparr>out := out s @ [Metric OnMessageDropped]\<rparr>)"
  let ?l = "leave_state r c ?m"
  have ok: "rooms_ok ?l" using assms(1) by (simp add: rooms_ok_leave)
  have "\<not> prop_has (live r ?l) x" for x
    using only [of x] unfolding member_def [symmetric] by simp
  then have "live r ?l = []" using dict_empty_iff by blast
  then have "recipients ?l ex r = []" for ex
    by (simp add: recipients_def)
  then have "broadcast_room env (Some c) (left_msg r c) ?l = (None,
      ?l\<lparr>out := out ?l @ [Call (PublishRaw r m)], pending := pending ?l @ [AfterPublish (length m)]\<rparr>)"
    using broadcast_calm [OF ok _ enc, of "Some c" env]
    by (simp add: left_msg_def create_message_def Let_def)
  moreover have "prop_has (rooms ?m) r"
    using only [of c] no_room_no_member [of s r c] by auto
  ultimately have "leave_room env r c ?m = (None,
      ?l\<lparr>out := out ?l @ [Call (PublishRaw r m)], pending := pending ?l @ [AfterPublish (length m)]\<rparr>)"
    by (simp add: leave_room_def leave_room_alt broadcast_room_def)
  moreover have "evicted r {c} s (?l\<lparr>out := out ?l @ [Call (PublishRaw r m)], pending := pending ?l @ [AfterPublish (length m)]\<rparr>)"
    using ok by (simp add: evicted_def only)
  ultimately show "\<exists>s1. leave_room env r c ?m = (None, s1) \<and> evicted r {c} s (finish_close env c
             (Some (status_code (JNumber (Fin 1008)), string_or (JString (jstr ''Slow client buffer overflow'')) [])) s1)"
    by (simp add: evicted_finish)
qed

text \<open>A walk over two members that are both to be evicted never gets to the second.\<close>

lemma sole_key: "wf_dict d \<Longrightarrow> (\<And>x. prop_has d x \<longleftrightarrow> x = c) \<Longrightarrow> obj_keys d = [c]"
proof -
  assume d: "wf_dict d" "\<And>x. prop_has d x \<longleftrightarrow> x = c"
  have "set (obj_keys d) = {c}" by (simp add: set_eq_iff d(2))
  moreover have "distinct (obj_keys d)" using d(1) by (rule distinct_obj_keys)
  ultimately show ?thesis
    by (cases "obj_keys d") (auto simp: subset_singleton_iff)
qed

lemma two_keys: "distinct ks \<Longrightarrow> set ks = {b, c} \<Longrightarrow> b \<noteq> c \<Longrightarrow> ks = [b, c] \<or> ks = [c, b]"
proof -
  assume ks: "distinct ks" "set ks = {b, c}" "b \<noteq> c"
  then have "length ks = 2" using distinct_card [OF ks(1)] by simp
  then obtain x y where "ks = [x, y]" by (auto simp: length_Suc_conv numeral_2_eq_2)
  with ks show ?thesis by (auto simp: doubleton_eq_iff)
qed

lemma evict_pair:
  assumes s: "rooms_ok s" and bc: "b \<noteq> c"
    and b: "evicts (conn_of s b)" "\<not> close_sent (conn_of s b)" "joined_rooms (conn_of s b) = [r]"
    and c: "evicts (conn_of s c)" "\<not> close_sent (conn_of s c)" "joined_rooms (conn_of s c) = [r]"
    and only: "\<And>x. member s r x \<longleftrightarrow> x = b \<or> x = c"
    and enc: "msg_encode (left_msg r b) = Inr m" "msg_encode (left_msg r c) = Inr m'"
  shows "\<exists>s'. try_send env b raw s = (None, s') \<and> evicted r {b, c} s s'"
proof (rule evict_step [OF b])
  let ?m = "upd_conn b (\<lambda>c. c\<lparr>close_sent := True, is_closed := True\<rparr>) (s\<lparr>out := out s @ [Metric OnMessageDropped]\<rparr>)"
  let ?l = "leave_state r b ?m"
  have ok: "rooms_ok ?l" using s by (simp add: rooms_ok_leave)
  have mem: "member ?l r x \<longleftrightarrow> x = c" for x using bc by (auto simp: only)
  have c': "conn_of ?l c = conn_of s c" using bc by (simp add: leave_state_def Let_def)
  have keys: "obj_keys (live r ?l) = [c]"
    using sole_key [OF rooms_ok_wf [OF ok], of r c] mem unfolding member_def by blast
  have room: "msg_room (left_msg r b) = r" by (simp add: left_msg_def create_message_def)
  obtain s1 where s1: "try_send env c m ?l = (None, s1)" "evicted r {c} ?l s1"
    using evict_alone [of ?l c r m' env m] ok c c' mem enc by auto
  have rl: "prop_has (rooms ?l) r" using mem [of c] no_room_no_member [of ?l r c] by auto
  have "prop_has (live r ?l) c" using mem [of c] by (simp only: member_def)
  then have "emit_local (live r) (try_send env) (Some b) m ?l = (None, s1)"
    using bc s1(1) by (simp only: emit_local_def keys for_each.simps) (simp add: andthen_def)
  then have "broadcast_room env (Some b) (left_msg r b) ?l =
      (None, s1\<lparr>out := out s1 @ [Call (PublishRaw r m)], pending := pending s1 @ [AfterPublish (length m)]\<rparr>)"
    using rl by (simp add: broadcast_room_def broadcast_room_with_def enc room andthen_None act_simps)
  moreover have "prop_has (rooms ?m) r"
    using only [of c] no_room_no_member [of s r c] by auto
  ultimately have "leave_room env r b ?m =
      (None, s1\<lparr>out := out s1 @ [Call (PublishRaw r m)], pending := pending s1 @ [AfterPublish (length m)]\<rparr>)"
    by (simp add: leave_room_def leave_room_alt broadcast_room_def)
  moreover have "evicted r {b, c} s (s1\<lparr>out := out s1 @ [Call (PublishRaw r m)], pending := pending s1 @ [AfterPublish (length m)]\<rparr>)"
    using s1(2) mem only by (auto simp: evicted_def)
  ultimately show "\<exists>s1. leave_room env r b ?m = (None, s1) \<and> evicted r {b, c} s (finish_close env b
             (Some (status_code (JNumber (Fin 1008)), string_or (JString (jstr ''Slow client buffer overflow'')) [])) s1)"
    by (simp add: evicted_finish)
qed

lemma walk_aborts:
  assumes s: "rooms_ok s" and bc: "b \<noteq> c" "a \<noteq> b" "a \<noteq> c"
    and b: "evicts (conn_of s b)" "\<not> close_sent (conn_of s b)" "joined_rooms (conn_of s b) = [r]"
    and c: "evicts (conn_of s c)" "\<not> close_sent (conn_of s c)" "joined_rooms (conn_of s c) = [r]"
    and only: "\<And>x. member s r x \<longleftrightarrow> x = b \<or> x = c"
    and enc: "\<And>x. x \<in> {b, c} \<Longrightarrow> \<exists>m. msg_encode (left_msg r x) = Inr m"
  shows "\<exists>s'. emit_local (live r) (try_send env) (Some a) raw s = (Some undefined_try_send, s') \<and>
    evicted r {b, c} s s'"
proof -
  obtain mb where mb: "msg_encode (left_msg r b) = Inr mb" using enc by blast
  obtain mc where mc: "msg_encode (left_msg r c) = Inr mc" using enc by blast
  have set: "set (obj_keys (live r s)) = {b, c}"
    using only by (simp add: set_eq_iff member_def)
  then obtain x y where xy: "obj_keys (live r s) = [x, y]" and cases: "x = b \<and> y = c \<or> x = c \<and> y = b"
    using two_keys [OF distinct_obj_keys [OF rooms_ok_wf [OF s]] _ bc(1)] by blast
  have "\<exists>s1. try_send env x raw s = (None, s1) \<and> evicted r {b, c} s s1"
  proof (rule disjE [OF cases])
    assume "x = b \<and> y = c"
    then show ?thesis using evict_pair [OF s bc(1) b c only mb mc] by simp
  next
    assume "x = c \<and> y = b"
    moreover have "\<exists>s1. try_send env c raw s = (None, s1) \<and> evicted r {c, b} s s1"
      by (rule evict_pair [OF s bc(1) [symmetric] c b _ mc mb]) (use only in blast)
    ultimately show ?thesis by (simp add: insert_commute)
  qed
  then obtain s1 where s1: "try_send env x raw s = (None, s1)" "evicted r {b, c} s s1" by blast
  have "prop_has (live r s) x" "\<not> prop_has (live r s1) y"
    using cases only s1(2) by (auto simp: member_def evicted_def)
  then have "emit_local (live r) (try_send env) (Some a) raw s = (Some undefined_try_send, s1)"
    using cases bc s1(1) unfolding emit_local_def xy by (auto simp: andthen_def throw_def)
  with s1(2) show ?thesis by blast
qed

text \<open>
  C36: An eviction inside an eviction aborts the walk. In a room of three, two members are slow.
  When the third one's socket closes, telling the first slow member closes it; closing it
  tells the second, which is closed too; back in the first walk the second is no longer a
  member, and calling its \<^verbatim>\<open>try_send\<close> throws a TypeError. It leaves the listener, and the
  connection that closed stays registered for ever.
\<close>

theorem nested_eviction_aborts:
  assumes reach: "reachable env cfg s" and dist: "a \<noteq> b" "a \<noteq> c" "b \<noteq> c"
    and a: "\<not> is_closed (conn_of s a)" "joined_rooms (conn_of s a) = [r]"
    and b: "evicts (conn_of s b)" "\<not> close_sent (conn_of s b)" "joined_rooms (conn_of s b) = [r]"
    and c: "evicts (conn_of s c)" "\<not> close_sent (conn_of s c)" "joined_rooms (conn_of s c) = [r]"
    and only: "\<forall>x. member s r x \<longleftrightarrow> x = a \<or> x = b \<or> x = c"
    and enc: "\<forall>x \<in> {a, b, c}. \<exists>m. msg_encode (left_msg r x) = Inr m"
  shows "let s' = turn env cfg (Close a) s in
    last (out s') = Uncaught undefined_try_send \<and> is_closed (conn_of s' a) \<and> prop_has (conns s') a"
proof -
  let ?a = "s\<lparr>active := prop_del (active s) a\<rparr>"
  let ?m = "upd_conn a (\<lambda>c. c\<lparr>is_closed := True\<rparr>) ?a"
  let ?l = "leave_state r a ?m"
  have heap: "prop_has (heap s) a" by (rule open_in_heap [OF a(1)])
  have mem: "rooms_ok s" using membership.reachable_invariant [OF reach] by (simp add: membership_def)
  then have ok: "rooms_ok ?l" by (simp add: rooms_ok_leave)
  have same: "x \<noteq> a \<Longrightarrow> conn_of ?l x = conn_of s x" for x by (simp add: leave_state_def Let_def)
  have only': "member ?l r x \<longleftrightarrow> x = b \<or> x = c" for x using only dist by auto
  obtain ma where ma: "msg_encode (left_msg r a) = Inr ma" using enc by blast
  obtain s1 where s1: "emit_local (live r) (try_send env) (Some a) ma ?l = (Some undefined_try_send, s1)"
      "evicted r {b, c} ?l s1"
    using walk_aborts [OF ok dist(3,1,2), of r env ma] b c dist only' enc same by auto
  have rl: "prop_has (rooms ?l) r" "prop_has (rooms ?m) r"
    using only' [of b] no_room_no_member [of ?l r b] only no_room_no_member [of s r a] by auto
  have room: "msg_room (left_msg r a) = r" by (simp add: left_msg_def create_message_def)
  have "broadcast_room_with (try_send env) (Some a) (left_msg r a) ?l = (Some undefined_try_send, s1)"
    using rl s1(1) by (simp add: broadcast_room_with_def ma room andthen_Some)
  then have "leave_room_with (try_send env) r a ?m = (Some undefined_try_send, s1)"
    using rl by (simp add: leave_room_alt)
  moreover have "joined_rooms (conn_of ?m a) = [r]" using a(2) heap by (simp add: joined_rooms_def)
  ultimately have "leave_all_rooms env a ?m = (Some undefined_try_send, s1)"
    by (simp add: leave_all_rooms_def leave_all_rooms_with_def)
  then have "handle env cfg (Close a) s = (Some undefined_try_send, s1)"
    using a(1) by (simp add: on_close_def andthen_modify cleanup_alt)
  moreover have "is_closed (conn_of s1 a)" "prop_has (conns s1) a \<longleftrightarrow> prop_has (conns s) a"
    using s1(2) dist heap by (auto simp: evicted_def)
  moreover have "prop_has (conns s) a"
    using registered.reachable_invariant [OF reach] a(1) by (simp add: registered_def)
  ultimately show ?thesis by (simp add: turn_def del: handle.simps)
qed

subsection \<open>Such a state\<close>

definition default_cfg :: config where
  "default_cfg = server_config \<lparr>opt_max_message_size = JUndefined, opt_channel_capacity = JUndefined,
     opt_backpressure = JUndefined, opt_ping_interval = JUndefined,
     opt_control_rate_limit = JUndefined, opt_control_burst = JUndefined\<rparr>"

definition slow_socket :: socket where
  "slow_socket = \<lparr>readyState = OPEN, bufferedAmount = Fin 40000000\<rparr>"

lemma turn_connection:
  "\<exists>p fs c. turn env cfg (Connection NoAuthorizer x sock) s =
     (joined_state (jstr ''root'') x (connected_state x c s))\<lparr>out := fs, pending := p\<rparr> \<and>
     conn_rooms c = [] \<and> \<not> is_closed c \<and> \<not> close_sent c \<and> ws c = sock \<and>
     strategy c = backpressure cfg \<and> max_buffer_bytes c =
       (if num_less (Fin 0) (capacity cfg) then num_mul (capacity cfg) (Fin 4096) else Fin (32 * 1024 * 1024))"
proof -
  let ?c = "create_conn sock (conn_claims_of NoAuthorizer) (JNumber (capacity cfg)) (JNumber (backpressure cfg))
           (JNumber (cfg_control_rate cfg)) (JNumber (cfg_control_burst cfg)) (clock s)"
  have "conn_rooms ?c = []" "\<not> is_closed ?c" "\<not> close_sent ?c" "ws ?c = sock"
     "strategy ?c = backpressure cfg" "max_buffer_bytes ?c =
       (if num_less (Fin 0) (capacity cfg) then num_mul (capacity cfg) (Fin 4096) else Fin (32 * 1024 * 1024))"
    by (simp_all add: create_conn_def Let_def)
  moreover have "\<exists>p fs. turn env cfg (Connection NoAuthorizer x sock) s =
     (joined_state (jstr ''root'') x (connected_state x ?c s))\<lparr>out := fs, pending := p\<rparr>"
    unfolding turn_def
    by (simp add: on_connection_eq andthen_None [OF join_room_eq] get_cluster_presence_def
        act_simps andthen_None) blast
  ultimately show ?thesis by blast
qed

definition demo_three :: node where
  "demo_three =
     turn demo_env default_cfg (Connection NoAuthorizer (jstr ''C'') slow_socket)
      (turn demo_env default_cfg (Connection NoAuthorizer (jstr ''B'') slow_socket)
        (turn demo_env default_cfg (Connection NoAuthorizer (jstr ''A'') open_socket) (init_node (Fin 0))))"

text \<open>Three connections, each in \<^verbatim>\<open>root\<close> only, with a socket and a limit.\<close>

definition fresh_conn :: "config \<Rightarrow> socket \<Rightarrow> conn \<Rightarrow> bool" where
  "fresh_conn cfg sock c \<longleftrightarrow> conn_rooms c = [(jstr ''root'', ())] \<and> \<not> is_closed c \<and> \<not> close_sent c \<and>
     ws c = sock \<and> strategy c = backpressure cfg \<and> max_buffer_bytes c =
       (if num_less (Fin 0) (capacity cfg) then num_mul (capacity cfg) (Fin 4096) else Fin (32 * 1024 * 1024))"

lemma connected_facts:
  assumes "t = turn env cfg (Connection NoAuthorizer x sock) s"
  shows "member t r y \<longleftrightarrow> member s r y \<or> r = jstr ''root'' \<and> y = x"
    and "prop_has (heap t) y \<longleftrightarrow> y = x \<or> prop_has (heap s) y"
    and "y \<noteq> x \<Longrightarrow> conn_of t y = conn_of s y" and "fresh_conn cfg sock (conn_of t x)"
proof -
  obtain p fs c where t: "t = (joined_state (jstr ''root'') x (connected_state x c s))\<lparr>out := fs, pending := p\<rparr>"
    and c: "conn_rooms c = []" "\<not> is_closed c" "\<not> close_sent c" "ws c = sock"
     "strategy c = backpressure cfg" "max_buffer_bytes c =
       (if num_less (Fin 0) (capacity cfg) then num_mul (capacity cfg) (Fin 4096) else Fin (32 * 1024 * 1024))"
    using turn_connection [of env cfg x sock s] assms by auto
  show "member t r y \<longleftrightarrow> member s r y \<or> r = jstr ''root'' \<and> y = x"
    "prop_has (heap t) y \<longleftrightarrow> y = x \<or> prop_has (heap s) y"
    by (auto simp: t)
  show "conn_of t y = conn_of s y" if "y \<noteq> x"
    using that by (simp add: t joined_state_def Let_def)
  show "fresh_conn cfg sock (conn_of t x)"
    using c by (simp add: t joined_state_def Let_def fresh_conn_def track_room_def prop_set_def)
qed

lemma demo_three_reachable: "reachable demo_env default_cfg demo_three"
proof -
  have "\<not> prop_has (heap (init_node (Fin 0))) x" for x by (simp add: init_node_def)
  then show ?thesis
    unfolding demo_three_def
    by (intro reachable_turn reachable.init)
      (simp_all add: enabled_def connected_facts(2) [OF refl])
qed

lemma demo_three_facts:
  "member demo_three (jstr ''root'') x \<longleftrightarrow> x = jstr ''A'' \<or> x = jstr ''B'' \<or> x = jstr ''C''"
  "fresh_conn default_cfg open_socket (conn_of demo_three (jstr ''A''))"
  "fresh_conn default_cfg slow_socket (conn_of demo_three (jstr ''B''))"
  "fresh_conn default_cfg slow_socket (conn_of demo_three (jstr ''C''))"
  unfolding demo_three_def
  by (auto simp: connected_facts(1,3,4) [OF refl])

lemma fresh_joined: "fresh_conn cfg sock c \<Longrightarrow> joined_rooms c = [jstr ''root'']"
proof -
  have "array_index (jstr ''root'') = None" by (simp add: jstr_def array_index_def is_digit_def)
  then show "fresh_conn cfg sock c \<Longrightarrow> joined_rooms c = [jstr ''root'']"
    by (simp add: fresh_conn_def joined_rooms_def obj_keys_def)
qed

lemma fresh_slow: "fresh_conn default_cfg slow_socket c \<Longrightarrow> evicts c"
proof -
  have "round_num 33554432 = Fin 33554432"
    using fl64_of_int [of 33554432] by (simp add: round_num_def)
  then show "fresh_conn default_cfg slow_socket c \<Longrightarrow> evicts c"
    by (auto simp: fresh_conn_def evicts_def sendable_def slow_def drops_def slow_socket_def default_cfg_def
        server_config_def positive_or_def DROP_NEWEST_def DROP_OLDEST_def DROP_SLOW_CLIENT_def number_or_def)
qed

lemma short_left_encodes:
  assumes "x \<in> {jstr ''A'', jstr ''B'', jstr ''C''}"
  shows "\<exists>raw. msg_encode (left_msg (jstr ''root'') x) = Inr raw"
  using assms
  by (intro wire_ok_encodes)
    (auto simp: wire_ok_def left_msg_def create_message_def payload_bytes_def jstr_def
      is_high_def is_low_def fields_fit_def utf8_encode_def enc_scalar_def is_byte_num_def
      PROTOCOL_VERSION_def DEFAULT_FLAGS_def)

theorem nested_eviction_aborts_witness:
  "let s' = turn demo_env default_cfg (Close (jstr ''A'')) demo_three in
    last (out s') = Uncaught undefined_try_send \<and> is_closed (conn_of s' (jstr ''A'')) \<and>
    prop_has (conns s') (jstr ''A'')"
  by (rule nested_eviction_aborts [OF demo_three_reachable, where b = "jstr ''B''" and c = "jstr ''C''"
        and r = "jstr ''root''"])
    (use demo_three_facts(2-4) fresh_joined fresh_slow short_left_encodes in
      \<open>auto simp: demo_three_facts(1) fresh_conn_def\<close>)

end
