(* ===== verification/Ending.thy ===== *)
theory Ending
  imports Hazards
begin

text \<open>
  How connections end: what a refused frame and \<^verbatim>\<open>shutdown\<close> do to them, with the close frames
  that are sent and the cases in which none is.
\<close>

section \<open>Close frames\<close>

definition closes_of :: "effect list \<Rightarrow> (js_string \<times> (jsnum \<times> js_string) option) list" where
  "closes_of es = concat (map (\<lambda>e. case e of WsClose x a \<Rightarrow> [(x, a)] | _ \<Rightarrow> []) es)"

lemma closes_of_simps [simp]:
  "closes_of [] = []" "closes_of (es @ fs) = closes_of es @ closes_of fs"
  "closes_of [WsClose x a] = [(x, a)]" "closes_of (Metric m # es) = closes_of es" "closes_of (Call c # es) = closes_of es"
  "closes_of (WsSend x raw # es) = closes_of es"
  by (simp_all add: closes_of_def)

lemma closes_delivery [simp]: "closes_of (delivery c x raw) = []"
  by (simp add: delivery_def)

lemma closes_fold_sent [simp]: "closes_of (out (fold (sent_state env raw) xs s)) = closes_of (out s)"
  by (induction xs arbitrary: s) simp_all

lemma closes_leave [simp]: "closes_of (out (leave_state r cid s)) = closes_of (out s)"
  by (auto simp: leave_state_def Let_def drop_member_def andthen_modify metric_apply split: option.splits prod.splits)

text \<open>What the code relies on: \<^verbatim>\<open>ws.send\<close> does not change the socket's ready state.\<close>

definition steady :: "env \<Rightarrow> bool" where
  "steady env \<longleftrightarrow> (\<forall>raw k. readyState (sock_send env raw k) = readyState k)"

lemma ready_sent: "steady env \<Longrightarrow> readyState (ws (conn_of (sent_state env raw y s) x)) = readyState (ws (conn_of s x))"
  by (auto simp: sent_state_def Let_def steady_def)

lemma ready_fold_sent:
  "steady env \<Longrightarrow> readyState (ws (conn_of (fold (sent_state env raw) xs s) x)) = readyState (ws (conn_of s x))"
  by (induction xs arbitrary: s) (simp_all add: ready_sent)

section \<open>Nobody is evicted\<close>

text \<open>
  Either no open connection has the default strategy, or none is slow and the network keeps up:
  a send does not raise \<^verbatim>\<open>bufferedAmount\<close> above a limit it was not above.
\<close>

definition keeps_up :: "env \<Rightarrow> bool" where
  "keeps_up env \<longleftrightarrow> (\<forall>raw k v. num_less v (bufferedAmount (sock_send env raw k)) \<longrightarrow> num_less v (bufferedAmount k))"

definition calm :: "env \<Rightarrow> node \<Rightarrow> bool" where
  "calm env s \<longleftrightarrow> lossy s \<or> keeps_up env \<and> (\<forall>x. \<not> is_closed (conn_of s x) \<longrightarrow> \<not> slow (conn_of s x))"

lemma calm_evicts: "calm env s \<Longrightarrow> \<not> evicts (conn_of s x)"
  using lossy_calm [of s x] by (auto simp: calm_def evicts_def sendable_def)

lemma calm_by:
  assumes "calm env s"
    and "\<And>x. \<not> is_closed (conn_of s' x) \<Longrightarrow> \<not> is_closed (conn_of s x) \<and>
      strategy (conn_of s' x) = strategy (conn_of s x) \<and> (keeps_up env \<longrightarrow> slow (conn_of s' x) \<longrightarrow> slow (conn_of s x))"
  shows "calm env s'"
  using assms unfolding calm_def lossy_def drops_def by metis

lemma calm_other [simp]:
  "calm env (s\<lparr>out := a, pending := b\<rparr>) = calm env s" "calm env (s\<lparr>out := a\<rparr>) = calm env s"
  by (simp_all add: calm_def)

lemma limit_leave: "max_buffer_bytes (conn_of (leave_state name cid s) x) = max_buffer_bytes (conn_of s x)"
  by (auto simp: leave_state_def Let_def untrack_room_def)

lemma calm_leave: "calm env s \<Longrightarrow> calm env (leave_state name cid s)"
proof (erule calm_by)
  fix x
  have "slow (conn_of (leave_state name cid s) x) = slow (conn_of s x)"
    by (simp only: slow_def limit_leave strategy_leave)
  then show "\<not> is_closed (conn_of (leave_state name cid s) x) \<Longrightarrow> \<not> is_closed (conn_of s x) \<and>
      strategy (conn_of (leave_state name cid s) x) = strategy (conn_of s x) \<and>
      (keeps_up env \<longrightarrow> slow (conn_of (leave_state name cid s) x) \<longrightarrow> slow (conn_of s x))"
    by (simp only: strategy_leave conn_of_leave) simp
qed

lemma calm_shut: "calm env s \<Longrightarrow> calm env (upd_conn cid (\<lambda>c. c\<lparr>close_sent := True, is_closed := True\<rparr>) s)"
  by (erule calm_by) (auto split: if_splits)

lemma conn_sent:
  "conn_of (sent_state env raw y s) y = conn_of s y \<or>
   conn_of (sent_state env raw y s) y = (conn_of s y)\<lparr>ws := sock_send env raw (ws (conn_of s y))\<rparr>"
  by (simp add: sent_state_def Let_def)

lemma slow_sent: "keeps_up env \<Longrightarrow> slow (conn_of (sent_state env raw y s) x) \<Longrightarrow> slow (conn_of s x)"
proof (cases "x = y")
  case True
  assume "keeps_up env" "slow (conn_of (sent_state env raw y s) x)"
  moreover have "slow (c\<lparr>ws := sock_send env raw (ws c)\<rparr>) \<Longrightarrow> keeps_up env \<Longrightarrow> slow c" for c
    by (simp add: slow_def keeps_up_def)
  ultimately show ?thesis using conn_sent [of env raw y s] True by metis
qed simp

lemma calm_sent: "calm env s \<Longrightarrow> calm env (sent_state env raw y s)"
  by (erule calm_by) (simp add: slow_sent)

lemma calm_fold_sent: "calm env s \<Longrightarrow> calm env (fold (sent_state env raw) xs s)"
  by (induction xs arbitrary: s) (simp_all add: calm_sent)

section \<open>Leaving without evictions, also where it throws\<close>

definition leavable :: "js_string \<Rightarrow> js_string \<Rightarrow> bool" where
  "leavable cid r \<longleftrightarrow> (\<exists>raw. msg_encode (left_msg r cid) = Inr raw)"

text \<open>What changed when \<open>cid\<close> left the rooms in \<open>R\<close>.\<close>

definition parted :: "env \<Rightarrow> js_string \<Rightarrow> js_string set \<Rightarrow> node \<Rightarrow> node \<Rightarrow> bool" where
  "parted env cid R s s' \<longleftrightarrow>
     rooms_ok s' \<and> calm env s' \<and> conns s' = conns s \<and> closes_of (out s') = closes_of (out s) \<and>
     (\<forall>r x. member s' r x \<longleftrightarrow> member s r x \<and> \<not> (r \<in> R \<and> x = cid)) \<and>
     (\<forall>x. is_closed (conn_of s' x) = is_closed (conn_of s x) \<and> close_sent (conn_of s' x) = close_sent (conn_of s x) \<and>
       readyState (ws (conn_of s' x)) = readyState (ws (conn_of s x)))"

lemma parted_trans: "parted env cid Q s t \<Longrightarrow> parted env cid R t u \<Longrightarrow> parted env cid (Q \<union> R) s u"
  by (auto simp: parted_def)

lemma parted_leave_state:
  "rooms_ok s \<Longrightarrow> calm env s \<Longrightarrow> prop_has (rooms s) r \<Longrightarrow> parted env cid {r} s (leave_state r cid s)"
  by (auto simp: parted_def rooms_ok_leave calm_leave)

lemma leave_room_parted:
  assumes "rooms_ok s" "calm env s" "steady env" "prop_has (rooms s) r"
  shows "\<exists>e s'. leave_room env r cid s = (e, s') \<and> parted env cid {r} s s' \<and> (e = None \<longleftrightarrow> leavable cid r)"
proof (cases "msg_encode (left_msg r cid)")
  case (Inl e)
  then show ?thesis
    using leave_room_fails [OF assms(4) Inl, of env] parted_leave_state [OF assms(1,2,4)] by (simp add: leavable_def)
next
  case (Inr raw)
  let ?l = "leave_state r cid s" and ?m = "left_msg r cid"
  have l: "rooms_ok ?l" "calm env ?l" using assms(1,2) by (simp_all add: rooms_ok_leave calm_leave)
  let ?f = "fold (sent_state env raw) (recipients ?l (Some cid) (msg_room ?m)) ?l"
  let ?s' = "?f\<lparr>out := out ?f @ [Call (PublishRaw (msg_room ?m) raw)], pending := pending ?l @ [AfterPublish (length raw)]\<rparr>"
  have "broadcast_room env (Some cid) ?m ?l = (None, ?s')"
    using broadcast_calm [OF l(1) _ Inr, of "Some cid" env] calm_evicts [OF l(2)] by (simp add: Let_def)
  then have "leave_room env r cid s = (None, ?s')"
    using assms(4) by (simp add: leave_room_def leave_room_alt broadcast_room_def [symmetric])
  moreover have "rooms_ok ?s'" using l(1) by (simp add: rooms_ok_def)
  then have "parted env cid {r} s ?s'"
    using parted_leave_state [OF assms(1,2,4), of cid] by (simp add: parted_def ready_fold_sent [OF assms(3)] calm_fold_sent)
  ultimately show ?thesis using Inr by (simp add: leavable_def)
qed

lemma leave_list_parted:
  assumes "rooms_ok s" "calm env s" "steady env" "distinct rs" "\<forall>r \<in> set rs. member s r cid"
  shows "\<exists>e s' R. for_each (\<lambda>r. leave_room env r cid) rs s = (e, s') \<and> parted env cid R s s' \<and>
    (e = None \<longrightarrow> R = set rs) \<and> (e = None \<longleftrightarrow> (\<forall>r \<in> set rs. leavable cid r))"
  using assms
proof (induction rs arbitrary: s)
  case Nil
  then have "parted env cid {} s s" by (simp add: parted_def)
  then show ?case by (intro exI [of _ None] exI [of _ s] exI [of _ "{}"]) simp
next
  case (Cons r rs)
  have "prop_has (rooms s) r" using Cons.prems(5) no_room_no_member by fastforce
  from leave_room_parted [OF Cons.prems(1-3) this] obtain e s1 where
      1: "leave_room env r cid s = (e, s1)" "parted env cid {r} s s1" "e = None \<longleftrightarrow> leavable cid r" by blast
  show ?case
  proof (cases e)
    case (Some x)
    then show ?thesis using 1 by (intro exI [of _ "Some x"] exI [of _ s1] exI [of _ "{r}"]) (simp add: andthen_def)
  next
    case None
    have "rooms_ok s1" "calm env s1" "\<forall>q \<in> set rs. member s1 q cid"
      using 1(2) Cons.prems(4,5) by (auto simp: parted_def)
    with Cons obtain e2 s2 R where 2: "for_each (\<lambda>r. leave_room env r cid) rs s1 = (e2, s2)" "parted env cid R s1 s2"
        "e2 = None \<longrightarrow> R = set rs" "e2 = None \<longleftrightarrow> (\<forall>r \<in> set rs. leavable cid r)"
      by (metis distinct.simps(2))
    then show ?thesis using 1 None parted_trans [OF 1(2) 2(2)]
      by (intro exI [of _ e2] exI [of _ s2] exI [of _ "{r} \<union> R"]) (simp add: andthen_def)
  qed
qed

section \<open>One close\<close>

lemma finish_close_fields:
  "closes_of (out (finish_close env cid a s)) = closes_of (out s) @ (if ws_closable (conn_of s cid) then [(cid, a)] else [])"
  "member (finish_close env cid a s) r x = member s r x"
  "prop_has (conns (finish_close env cid a s)) x \<longleftrightarrow> prop_has (conns s) x \<and> x \<noteq> cid"
  "is_closed (conn_of (finish_close env cid a s) x) = is_closed (conn_of s x)"
  "close_sent (conn_of (finish_close env cid a s) x) = close_sent (conn_of s x)"
  "x \<noteq> cid \<Longrightarrow> conn_of (finish_close env cid a s) x = conn_of s x"
  by (auto simp: finish_close_def Let_def remove_conn_def ws_close_def act_simps)

lemma calm_finish: "calm env s \<Longrightarrow> is_closed (conn_of s cid) \<Longrightarrow> calm env (finish_close env cid a s)"
proof (erule calm_by)
  fix x
  assume c: "is_closed (conn_of s cid)" and o: "\<not> is_closed (conn_of (finish_close env cid a s) x)"
  then have "x \<noteq> cid" by (auto simp: finish_close_fields)
  then show "\<not> is_closed (conn_of s x) \<and> strategy (conn_of (finish_close env cid a s) x) = strategy (conn_of s x) \<and>
      (keeps_up env \<longrightarrow> slow (conn_of (finish_close env cid a s) x) \<longrightarrow> slow (conn_of s x))"
    using o by (simp add: finish_close_fields)
qed

text \<open>The rest of the server stands where it did.\<close>

definition apart_from :: "js_string \<Rightarrow> node \<Rightarrow> node \<Rightarrow> bool" where
  "apart_from cid s s' \<longleftrightarrow> (\<forall>x. x \<noteq> cid \<longrightarrow>
     prop_has (conns s') x = prop_has (conns s) x \<and> is_closed (conn_of s' x) = is_closed (conn_of s x) \<and>
     readyState (ws (conn_of s' x)) = readyState (ws (conn_of s x)) \<and> (\<forall>r. member s' r x = member s r x))"

lemma close_parted:
  assumes "membership s" "conns_wf s" "calm env s" "steady env" "\<not> is_closed (conn_of s cid)" "\<not> close_sent (conn_of s cid)"
  shows "\<exists>e s'. close_with env cid (JNumber n) (JString why) s = (e, s') \<and> apart_from cid s s' \<and> calm env s' \<and>
    (e = None \<longleftrightarrow> (\<forall>r. tracks s cid r \<longrightarrow> leavable cid r)) \<and>
    closes_of (out s') = closes_of (out s) @
      (if e = None \<and> ws_closable (conn_of s cid) then [(cid, Some (status_code (JNumber n), why))] else [])"
proof -
  let ?m = "upd_conn cid (\<lambda>c. c\<lparr>close_sent := True, is_closed := True\<rparr>) s"
  let ?rs = "joined_rooms (conn_of ?m cid)"
  have heap: "prop_has (heap s) cid" by (rule open_in_heap [OF assms(5)])
  have ok: "rooms_ok ?m" using assms(1) by (simp add: membership_def)
  have l: "calm env ?m" using assms(3) by (rule calm_shut)
  have "conn_rooms (conn_of ?m cid) = conn_rooms (conn_of s cid)" using heap by simp
  then have rs: "distinct ?rs" "set ?rs = {r. tracks s cid r}"
    using assms(2) by (simp_all add: joined_rooms_def conns_wf_def distinct_obj_keys tracks_def set_eq_iff)
  have "\<forall>r \<in> set ?rs. member ?m r cid" unfolding rs(2) using assms(1) by (simp add: membership_def)
  from leave_list_parted [OF ok l assms(4) rs(1) this] obtain e s1 R where
      s1: "for_each (\<lambda>r. leave_room env r cid) ?rs ?m = (e, s1)" "parted env cid R ?m s1"
      "e = None \<longleftrightarrow> (\<forall>r \<in> set ?rs. leavable cid r)"
    by blast
  have leave: "leave_all_rooms env cid ?m = (e, s1)"
    using s1(1) by (simp add: leave_all_rooms_def leave_all_rooms_with_def leave_room_def)
  have apart: "apart_from cid s s1" using s1(2) by (auto simp: apart_from_def parted_def)
  show ?thesis
  proof (cases e)
    case (Some x)
    then have "close_with env cid (JNumber n) (JString why) s = (Some x, s1)"
      using leave assms(5,6) by (simp add: close_with_eq close_body_alt)
    then show ?thesis using Some s1(2,3) apart rs(2) by (auto simp: parted_def)
  next
    case None
    let ?s' = "finish_close env cid (Some (status_code (JNumber n), why)) s1"
    have "close_with env cid (JNumber n) (JString why) s = (None, ?s')"
      using None leave assms(5,6) by (simp add: close_with_eq close_body_alt)
    moreover have "ws_closable (conn_of s1 cid) = ws_closable (conn_of s cid)"
      using s1(2) heap by (simp add: parted_def ws_closable_def)
    moreover have "apart_from cid s ?s'" using apart by (simp add: apart_from_def finish_close_fields)
    moreover have "is_closed (conn_of s1 cid)" using s1(2) heap by (simp add: parted_def)
    then have "calm env ?s'" using s1(2) by (intro calm_finish) (simp_all add: parted_def)
    ultimately show ?thesis using None s1(2,3) rs(2) by (auto simp: parted_def finish_close_fields)
  qed
qed

section \<open>One close, in any state\<close>

text \<open>A closed connection is left alone, its socket included.\<close>

definition still :: "js_string \<Rightarrow> socket \<Rightarrow> node \<Rightarrow> bool" where
  "still x w s \<longleftrightarrow> shut x True s \<and> ws (conn_of s x) = w"

interpretation still: leave_kept "still x w" for x w
  by unfold_locales (simp_all add: still_def shut_def)

lemma still_try_send:
  "(\<And>c r. keeps (still x w) (close cid c r)) \<Longrightarrow> keeps (still x w) (try_send_body close env cid m)"
proof (rule keepsI)
  fix s
  assume *: "\<And>c r. keeps (still x w) (close cid c r)" and s: "still x w s"
  then have "still x w (snd (close cid c r (s\<lparr>out := out s @ es\<rparr>)))" for c r es
    by (intro keepsD [OF *]) (simp add: still_def shut_def)
  then show "still x w (snd (try_send_body close env cid m s))"
    using s by (auto simp: try_send_body_def Let_def metric_def emit_def when_act_def act_simps still_def shut_def)
qed

lemma still_close_fuel: "keeps (still x w) (close_with_fuel n env cid code r)"
proof (induction n arbitrary: cid code r)
  case 0
  show ?case by (simp add: keeps_throw)
next
  case (Suc n)
  show ?case
  proof (rule keepsI)
    fix s
    assume s: "still x w s"
    let ?leave = "leave_all_rooms_with (try_send_body (close_with_fuel n env) env) cid"
    let ?m = "upd_conn cid (\<lambda>c. c\<lparr>close_sent := True, is_closed := True\<rparr>) s"
    show "still x w (snd (close_with_fuel (Suc n) env cid code r s))"
    proof (cases "cid = x")
      case False
      then have "still x w ?m" using s by (simp add: still_def shut_def)
      then have "still x w (snd (?leave ?m))"
        by (rule keepsD [OF still.keeps_leave_all_with [OF still_try_send [OF Suc.IH]]])
      then show ?thesis
        using s False by (auto simp: close_body_alt still_def shut_finish finish_close_fields split: prod.splits option.splits)
    qed (use s in \<open>simp add: close_body_alt still_def shut_def\<close>)
  qed
qed

lemma still_close: "keeps (still x w) (close_with env cid code r)"
  using still_close_fuel unfolding keeps_def close_with_def by blast

lemma still_leave_all_rooms: "keeps (still x w) (leave_all_rooms env cid)"
  unfolding leave_all_rooms_def try_send_def
  by (intro still.keeps_leave_all_with still_try_send still_close)

text \<open>A room once left is not tracked again while rooms are left.\<close>

interpretation untracked: node_kept "\<lambda>s. \<not> tracks s x r" "\<lambda>_. True" for x r
  by unfold_locales simp_all

lemma leave_room_untracks: "\<not> tracks (snd (leave_room env r cid s)) cid r"
proof (cases "prop_has (rooms s) r")
  case True
  have "\<not> tracks (leave_state r cid s) cid r" by simp
  from keepsD [OF untracked.keeps_broadcast [of cid r env "Some cid" "left_msg r cid"] this] show ?thesis
    using True by (simp add: leave_room_def leave_room_alt broadcast_room_def)
qed (simp add: leave_room_def leave_room_alt)

lemma leave_list_untracks:
  "for_each (\<lambda>r. leave_room env r cid) rs s = (None, s') \<Longrightarrow> r \<in> set rs \<Longrightarrow> \<not> tracks s' cid r"
proof (induction rs arbitrary: s)
  case (Cons q rs)
  obtain e s1 where 1: "leave_room env q cid s = (e, s1)" by fastforce
  with Cons.prems(1) have 2: "for_each (\<lambda>r. leave_room env r cid) rs s1 = (None, s')"
    by (cases e) (simp_all add: andthen_def)
  have "keeps (\<lambda>s. \<not> tracks s cid r) (for_each (\<lambda>r. leave_room env r cid) rs)"
    by (intro keeps_for_each untracked.keeps_leave_room)
  from keepsD [OF this, of s1] have kept: "\<not> tracks s1 cid r \<Longrightarrow> \<not> tracks s' cid r" by (simp add: 2)
  show ?case
  proof (cases "r = q")
    case True
    have "\<not> tracks s1 cid q" using leave_room_untracks [of env q cid s] by (simp add: 1)
    then show ?thesis using kept True by blast
  next
    case False
    then show ?thesis using Cons.IH [OF 2] Cons.prems(2) by simp
  qed
qed simp

lemma leave_all_untracks:
  assumes "leave_all_rooms env cid s = (None, s')"
  shows "\<not> tracks s' cid r"
proof (cases "tracks s cid r")
  case True
  then have "r \<in> set (joined_rooms (conn_of s cid))" by (simp add: joined_rooms_def tracks_def)
  then show ?thesis
    using assms by (intro leave_list_untracks) (simp_all add: leave_all_rooms_def leave_all_rooms_with_def leave_room_def)
next
  case False
  then show ?thesis using keepsD [OF untracked.keeps_leave_all [of cid r env cid], of s] assms by simp
qed

text \<open>
  Either closing returns: the connection is out of the registry and of every room, and an open
  or connecting socket is sent the close frame last. Or leaving its rooms throws, and then
  neither happens.
\<close>

lemma close_outcome:
  assumes "\<not> is_closed (conn_of s cid)" "\<not> close_sent (conn_of s cid)"
    and "close_with env cid (JNumber n) (JString why) s = (e, s')"
  shows "e = None \<Longrightarrow> \<not> prop_has (conns s') cid \<and> (\<forall>r. \<not> tracks s' cid r) \<and>
      (ws_closable (conn_of s cid) \<longrightarrow> last (out s') = WsClose cid (Some (status_code (JNumber n), why)))"
    and "e \<noteq> None \<Longrightarrow> is_closed (conn_of s' cid) \<and> ws (conn_of s' cid) = ws (conn_of s cid)"
proof -
  let ?m = "upd_conn cid (\<lambda>c. c\<lparr>close_sent := True, is_closed := True\<rparr>) s"
  have heap: "prop_has (heap s) cid" by (rule open_in_heap [OF assms(1)])
  obtain e1 s1 where s1: "leave_all_rooms env cid ?m = (e1, s1)" by fastforce
  have "still cid (ws (conn_of s cid)) ?m" using heap by (simp add: still_def shut_def)
  from keepsD [OF still_leave_all_rooms [of cid "ws (conn_of s cid)" env cid] this] s1 have k: "is_closed (conn_of s1 cid)" "ws (conn_of s1 cid) = ws (conn_of s cid)"
    by (simp_all add: still_def shut_def)
  have e: "e = e1" "s' = (if e1 = None then finish_close env cid (Some (status_code (JNumber n), why)) s1 else s1)"
    using assms s1 by (auto simp: close_with_eq close_body_alt split: option.splits)
  show "e \<noteq> None \<Longrightarrow> is_closed (conn_of s' cid) \<and> ws (conn_of s' cid) = ws (conn_of s cid)" using e k by (cases e1) simp_all
  assume "e = None"
  then have s': "s' = finish_close env cid (Some (status_code (JNumber n), why)) s1" and "leave_all_rooms env cid ?m = (None, s1)"
    using e s1 by simp_all
  from leave_all_untracks [OF this(2)] have "\<not> tracks s' cid r" for r
    by (auto simp: s' tracks_def finish_close_def Let_def ws_close_def act_simps)
  moreover have "ws_closable (conn_of s cid) \<longrightarrow> last (out s') = WsClose cid (Some (status_code (JNumber n), why))"
    using k(2) by (simp add: s' finish_close_def Let_def ws_close_def act_simps ws_closable_def emit_def)
  ultimately show "\<not> prop_has (conns s') cid \<and> (\<forall>r. \<not> tracks s' cid r) \<and>
      (ws_closable (conn_of s cid) \<longrightarrow> last (out s') = WsClose cid (Some (status_code (JNumber n), why)))"
    by (simp add: s' finish_close_fields)
qed

section \<open>Refused frames\<close>

text \<open>The close frame for a refused message: too big, or malformed.\<close>

definition refusal :: "config \<Rightarrow> ws_data \<Rightarrow> jsnum \<times> js_string" where
  "refusal cfg data =
     (if num_less (max_payload cfg) (js_nat (length (message_bytes data)))
      then (Fin 1009, jstr ''Message too big'') else (Fin 1002, jstr ''Malformed packet''))"

definition refused :: "config \<Rightarrow> ws_data \<Rightarrow> bool" where
  "refused cfg data \<longleftrightarrow> num_less (max_payload cfg) (js_nat (length (message_bytes data))) \<or>
     decode_message (JBuffer (message_bytes data)) (JNumber (max_payload cfg)) = Inr None"

lemma refused_handled:
  assumes "refused cfg data"
  shows "\<exists>ms n why. handle env cfg (Data cid data) s = close_with env cid (JNumber n) (JString why) (s\<lparr>out := out s @ map Metric ms\<rparr>) \<and>
    status_code (JNumber n) = n \<and> refusal cfg data = (n, why)"
proof (cases "num_less (max_payload cfg) (js_nat (length (message_bytes data)))")
  case True
  then show ?thesis
    by (intro exI [of _ "[]"] exI [of _ "Fin 1009"] exI [of _ "jstr ''Message too big''"])
      (simp add: on_message_def Let_def refusal_def status_code_def num_leq_def)
next
  case False
  then show ?thesis using assms
    by (intro exI [of _ "[OnMessageReceived (length (message_bytes data))]"] exI [of _ "Fin 1002"]
        exI [of _ "jstr ''Malformed packet''"])
      (simp add: refused_def on_message_def Let_def refusal_def status_code_def num_leq_def andthen_None [OF metric_apply])
qed

lemma closes_metrics [simp]: "closes_of (map Metric ms) = []"
  by (induction ms) (simp_all add: closes_of_def)

lemma turn_outcome:
  "handle env cfg ev s = (e, s1) \<Longrightarrow> turn env cfg ev s = (case e of None \<Rightarrow> s1 | Some x \<Rightarrow> s1\<lparr>out := out s1 @ [Uncaught x]\<rparr>)"
  by (simp add: turn_def split: option.split)

text \<open>
  C30: Refused frames. A frame above \<open>max_message_size\<close>, or one that does not decode, marks its
  connection closed. On an open connection one of two things happens. The listener returns:
  then the connection is out of the registry and of every room, and if its socket was open or
  connecting, the last thing done is to send it the close frame 1009 or 1002 with its reason. Or
  leaving the rooms throws: then the exception leaves the listener and the socket stays as it
  is. When nobody is to be evicted, the first happens exactly if the \<^verbatim>\<open>member_left\<close> frames of the
  connection's rooms can be encoded; that close frame is then the only one, and otherwise there
  is none.
\<close>

theorem bad_frame_closes:
  assumes "reachable env cfg s" "prop_has (heap s) cid" "refused cfg data"
    and "s' = turn env cfg (Data cid data) s" "c = conn_of s cid"
  shows "is_closed (conn_of s' cid) \<and>
    (\<not> is_closed c \<longrightarrow>
      (case fst (handle env cfg (Data cid data) s) of
         None \<Rightarrow> \<not> prop_has (conns s') cid \<and> (\<forall>r. \<not> member s' r cid) \<and>
           (ws_closable c \<longrightarrow> last (out s') = WsClose cid (Some (refusal cfg data)))
       | Some e \<Rightarrow> last (out s') = Uncaught e \<and> ws (conn_of s' cid) = ws c) \<and>
      (calm env s \<and> steady env \<longrightarrow>
        (fst (handle env cfg (Data cid data) s) = None \<longleftrightarrow> (\<forall>r. tracks s cid r \<longrightarrow> leavable cid r)) \<and>
        closes_of (out s') = closes_of (out s) @
          (if ws_closable c \<and> (\<forall>r. tracks s cid r \<longrightarrow> leavable cid r) then [(cid, Some (refusal cfg data))] else [])))"
proof -
  obtain ms n why where h: "handle env cfg (Data cid data) s =
      close_with env cid (JNumber n) (JString why) (s\<lparr>out := out s @ map Metric ms\<rparr>)"
    and n: "status_code (JNumber n) = n" "refusal cfg data = (n, why)" using refused_handled [OF assms(3)] by blast
  let ?t = "s\<lparr>out := out s @ map Metric ms\<rparr>"
  obtain e s1 where e: "close_with env cid (JNumber n) (JString why) ?t = (e, s1)" by fastforce
  have s': "s' = (case e of None \<Rightarrow> s1 | Some x \<Rightarrow> s1\<lparr>out := out s1 @ [Uncaught x]\<rparr>)"
    unfolding assms(4) by (rule turn_outcome) (unfold h, rule e)
  have sent: "sent_closed s" by (rule sent_closed.reachable_invariant [OF assms(1)])
  have "is_closed (conn_of s' cid)"
    unfolding assms(4) closed_turn
    by (rule rejected_closes [OF sent assms(2)]) (use assms(3) in \<open>simp add: refused_def\<close>)
  moreover have "reachable env cfg s'"
    unfolding assms(4) using assms(1,2) by (intro reachable_turn) (simp_all add: enabled_def)
  then have m: "member s' r cid = tracks s' cid r" for r
    using membership.reachable_invariant [of env cfg s'] by (simp add: membership_def)
  moreover {
    assume "\<not> is_closed c"
    then have o: "\<not> is_closed (conn_of ?t cid)" "\<not> close_sent (conn_of ?t cid)"
      using sent assms(5) by (auto simp: sent_closed_def)
    note close_outcome [OF o e] close_parted [of ?t env cid n why]
    moreover have "membership ?t" "conns_wf ?t" "calm env ?t = calm env s"
      using membership.reachable_invariant [OF assms(1)] conns_wf.reachable_invariant [OF assms(1)]
      by (simp_all add: membership_def rooms_ok_def conns_wf_def)
    ultimately have "(case e of
         None \<Rightarrow> \<not> prop_has (conns s') cid \<and> (\<forall>r. \<not> member s' r cid) \<and>
           (ws_closable c \<longrightarrow> last (out s') = WsClose cid (Some (refusal cfg data)))
       | Some e \<Rightarrow> last (out s') = Uncaught e \<and> ws (conn_of s' cid) = ws c) \<and>
      (calm env s \<and> steady env \<longrightarrow> (e = None \<longleftrightarrow> (\<forall>r. tracks s cid r \<longrightarrow> leavable cid r)) \<and>
        closes_of (out s') = closes_of (out s) @
          (if ws_closable c \<and> (\<forall>r. tracks s cid r \<longrightarrow> leavable cid r) then [(cid, Some (refusal cfg data))] else []))"
      using o e n assms(5) m by (cases e) (auto simp: s' closes_of_def)
  }
  ultimately show ?thesis unfolding h e fst_conv by blast
qed

lemma demo_steady: "steady demo_env"
  by (simp add: steady_def demo_env_def)

lemma demo_open_socket: "ws_closable (conn_of demo_node (jstr ''A''))"
  by (simp add: demo_node_facts track_room_def demo_conn_def create_conn_def Let_def open_socket_def ws_closable_def)

theorem bad_frame_closes_witness:
  "let s' = turn demo_env demo_cfg (Data (jstr ''A'') (Whole [1, 0, 0])) demo_node in
    is_closed (conn_of s' (jstr ''A'')) \<and> \<not> prop_has (conns s') (jstr ''A'') \<and> \<not> member s' (jstr ''root'') (jstr ''A'') \<and>
    last (out s') = WsClose (jstr ''A'') (Some (Fin 1002, jstr ''Malformed packet''))"
proof -
  have r: "refused demo_cfg (Whole [1, 0, 0])"
    by (simp add: refused_def decode_message_def decode_buf_def HEADER_OVERHEAD_def)
  have f: "refusal demo_cfg (Whole [1, 0, 0]) = (Fin 1002, jstr ''Malformed packet'')"
    by (simp add: refusal_def demo_cfg_def server_config_def)
  have "calm demo_env demo_node" using demo_lossy by (simp add: calm_def)
  moreover have "\<forall>r. tracks demo_node (jstr ''A'') r \<longrightarrow> leavable (jstr ''A'') r" using demo_tracks by (simp add: leavable_def)
  moreover note b = bad_frame_closes [OF demo_reachable open_in_heap [OF demo_open] r refl refl]
  ultimately have "fst (handle demo_env demo_cfg (Data (jstr ''A'') (Whole [1, 0, 0])) demo_node) = None"
    using demo_open demo_steady by blast
  then show ?thesis
    using b demo_open demo_open_socket by (simp add: f Let_def del: handle.simps)
qed

section \<open>Shutting down\<close>

text \<open>One connection of a shutdown.\<close>

abbreviation shut_one :: "env \<Rightarrow> js_string \<Rightarrow> node act" where
  "shut_one env cid \<equiv> try_ignore (\<lambda>s.
     if prop_has (conns s) cid
     then close_with env cid (JNumber (Fin 1001)) (JString (jstr ''Server shutting down'')) s
     else throw undefined_close_with s)"

lemma shut_all_total: "fst (for_each (shut_one env) ks s) = None"
  by (induction ks arbitrary: s) (simp_all add: andthen_def try_ignore_def)

lemma shut_all_kept:
  assumes "\<And>cid. keeps Q (close_with env cid (JNumber (Fin 1001)) (JString (jstr ''Server shutting down'')))"
  shows "keeps Q (for_each (shut_one env) ks)"
  by (intro keeps_for_each keeps_try keeps_if assms keeps_throw)

lemma shut_one_closes:
  assumes "registered s" "sent_closed s"
  shows "shut k False (snd (shut_one env k s))"
proof -
  have "close_sent (conn_of s k) \<longrightarrow> is_closed (conn_of s k)" using assms(2) by (simp add: sent_closed_def)
  then have "is_closed (conn_of (snd (shut_one env k s)) k)"
    using assms(1) close_closes [of s k env "JNumber (Fin 1001)" "JString (jstr ''Server shutting down'')"]
    by (cases "is_closed (conn_of s k)") (auto simp: try_ignore_def throw_def registered_def)
  then show ?thesis by (simp add: shut_def)
qed

lemma shut_all_closes:
  "registered s \<Longrightarrow> sent_closed s \<Longrightarrow> x \<in> set ks \<Longrightarrow> is_closed (conn_of (snd (for_each (shut_one env) ks s)) x)"
proof (induction ks arbitrary: s)
  case (Cons k ks)
  let ?s = "snd (shut_one env k s)"
  have s: "registered ?s" "sent_closed ?s"
    using Cons.prems(1,2) keepsD [OF registered_closing.keeps_close] keepsD [OF sent_closed_closing.keeps_close]
    by (simp_all add: try_ignore_def throw_def)
  have step: "snd (for_each (shut_one env) (k # ks) s) = snd (for_each (shut_one env) ks ?s)"
    by (simp add: andthen_def try_ignore_def)
  show ?case
  proof (cases "x = k")
    case True
    have "keeps (shut k False) (for_each (shut_one env) ks)" by (rule shut_all_kept [OF shut_close])
    then have "shut k False (snd (for_each (shut_one env) ks ?s))"
      using shut_one_closes [OF Cons.prems(1,2), of k env] unfolding keeps_def by blast
    then show ?thesis unfolding step True by (simp add: shut_def)
  next
    case False
    with Cons.prems(3) Cons.IH [OF s] show ?thesis unfolding step by simp
  qed
qed simp

text \<open>Whom \<^verbatim>\<open>shutdown\<close> sends a close frame: the socket can be closed and leaving does not throw.\<close>

definition takes_leave :: "node \<Rightarrow> js_string \<Rightarrow> bool" where
  "takes_leave s x \<longleftrightarrow> \<not> is_closed (conn_of s x) \<and> ws_closable (conn_of s x) \<and> (\<forall>r. tracks s x r \<longrightarrow> leavable x r)"

definition goodbye :: "jsnum \<times> js_string" where
  "goodbye = (Fin 1001, jstr ''Server shutting down'')"

definition shutting_ok :: "env \<Rightarrow> node \<Rightarrow> bool" where
  "shutting_ok env s \<longleftrightarrow> membership s \<and> conns_wf s \<and> sent_closed s \<and> calm env s"

lemma shut_one_closes_of:
  assumes "shutting_ok env s" "steady env" "prop_has (conns s) k" "s1 = snd (shut_one env k s)"
  shows "shutting_ok env s1 \<and> apart_from k s s1 \<and>
    closes_of (out s1) = closes_of (out s) @ (if takes_leave s k then [(k, Some goodbye)] else [])"
proof -
  let ?close = "close_with env k (JNumber (Fin 1001)) (JString (jstr ''Server shutting down''))"
  have s1: "s1 = snd (?close s)" using assms(3,4) by (simp add: try_ignore_def)
  have inv: "membership s1" "conns_wf s1" "sent_closed s1"
    using assms(1) keepsD [OF membership_closing.keeps_close] keepsD [OF conns_wf_closing.keeps_close]
      keepsD [OF sent_closed_closing.keeps_close] by (simp_all add: s1 shutting_ok_def)
  show ?thesis
  proof (cases "is_closed (conn_of s k)")
    case True
    then have "s1 = s" by (simp add: s1 close_with_eq close_body_alt)
    then show ?thesis using assms(1) True by (simp add: apart_from_def takes_leave_def)
  next
    case False
    then have "\<not> close_sent (conn_of s k)" using assms(1) by (auto simp: shutting_ok_def sent_closed_def)
    with False assms(1,2) obtain e s' where "?close s = (e, s')" "apart_from k s s'" "calm env s'"
        "e = None \<longleftrightarrow> (\<forall>r. tracks s k r \<longrightarrow> leavable k r)"
        "closes_of (out s') = closes_of (out s) @
          (if e = None \<and> ws_closable (conn_of s k) then [(k, Some (status_code (JNumber (Fin 1001)), jstr ''Server shutting down''))] else [])"
      using close_parted [of s env k "Fin 1001" "jstr ''Server shutting down''"] unfolding shutting_ok_def by blast
    then show ?thesis using inv False
      by (auto simp: s1 shutting_ok_def takes_leave_def goodbye_def status_code_def num_leq_def)
  qed
qed

lemma apart_takes_leave:
  assumes "membership s" "membership s1" "apart_from k s s1" "x \<noteq> k"
  shows "takes_leave s1 x = takes_leave s x"
proof -
  have "tracks s1 x r = tracks s x r" for r
    using assms by (simp add: membership_def apart_from_def)
  then show ?thesis using assms(3,4) by (simp add: takes_leave_def apart_from_def ws_closable_def)
qed

lemma shut_list_closes_of:
  "shutting_ok env s \<Longrightarrow> steady env \<Longrightarrow> distinct ks \<Longrightarrow> \<forall>k \<in> set ks. prop_has (conns s) k \<Longrightarrow>
     closes_of (out (snd (for_each (shut_one env) ks s))) =
       closes_of (out s) @ map (\<lambda>x. (x, Some goodbye)) (filter (takes_leave s) ks)"
proof (induction ks arbitrary: s)
  case (Cons k ks)
  let ?s = "snd (shut_one env k s)"
  have one: "shutting_ok env ?s" "apart_from k s ?s"
      "closes_of (out ?s) = closes_of (out s) @ (if takes_leave s k then [(k, Some goodbye)] else [])"
    using shut_one_closes_of [OF Cons.prems(1,2) _ refl, of k] Cons.prems(4) by simp_all
  have step: "snd (for_each (shut_one env) (k # ks) s) = snd (for_each (shut_one env) ks ?s)"
    by (simp add: andthen_def try_ignore_def)
  have same: "filter (takes_leave ?s) ks = filter (takes_leave s) ks"
  proof (rule filter_cong [OF refl])
    fix x
    assume "x \<in> set ks"
    then have "x \<noteq> k" using Cons.prems(3) by auto
    then show "takes_leave ?s x = takes_leave s x"
      using Cons.prems(1) one(1) unfolding shutting_ok_def by (intro apart_takes_leave [OF _ _ one(2)]) simp_all
  qed
  have "\<forall>x \<in> set ks. prop_has (conns ?s) x"
    using one(2) Cons.prems(3,4) by (auto simp: apart_from_def)
  then show ?case using Cons.IH [OF one(1) Cons.prems(2)] Cons.prems(3) one(3) unfolding step by (simp add: same)
qed simp

text \<open>
  C31: Shutdown. It never throws, marks every connection closed, empties the registry and the
  rooms, and calls the adapter's \<^verbatim>\<open>close\<close> last. When nobody is to be evicted, the close frames it
  sends are exactly these: one 1001 \<^verbatim>\<open>Server shutting down\<close>, in the order of the registry's keys,
  to every connection that is not closed, whose socket is open or connecting and of whose rooms
  every \<^verbatim>\<open>member_left\<close> frame can be encoded. A connection in a room that cannot be left gets none,
  and its socket stays open.
\<close>

theorem shutdown_closes_all:
  assumes "reachable env cfg s" "shutdown env s = (e, s')"
  shows "e = None \<and> conns s' = [] \<and> rooms s' = [] \<and> (\<forall>x. is_closed (conn_of s' x)) \<and> last (out s') = Call CloseAdapter \<and>
    (calm env s \<and> steady env \<longrightarrow>
      closes_of (out s') = closes_of (out s) @
        map (\<lambda>x. (x, Some (Fin 1001, jstr ''Server shutting down''))) (filter (takes_leave s) (obj_keys (conns s))))"
proof -
  have P: "registered s" "sent_closed s" "membership s" "conns_wf s"
    using registered.reachable_invariant [OF assms(1)] sent_closed.reachable_invariant [OF assms(1)]
      membership.reachable_invariant [OF assms(1)] conns_wf.reachable_invariant [OF assms(1)] by blast+
  obtain s1 where s1: "for_each (shut_one env) (obj_keys (conns s)) s = (None, s1)"
    by (rule that [OF prod_eqI [of _ "(None, _)"]]) (simp_all only: shut_all_total fst_conv snd_conv)
  have all: "is_closed (conn_of s1 x)" for x
  proof (cases "prop_has (conns s) x")
    case True
    then show ?thesis using shut_all_closes [OF P(1,2), of x "obj_keys (conns s)" env] s1 by simp
  next
    case False
    then have "shut x False s" using P by (auto simp: registered_def shut_def)
    moreover have "keeps (shut x False) (for_each (shut_one env) (obj_keys (conns s)))" by (rule shut_all_kept [OF shut_close])
    ultimately have "shut x False (snd (for_each (shut_one env) (obj_keys (conns s)) s))"
      unfolding keeps_def by blast
    then show ?thesis by (simp add: s1 shut_def)
  qed
  have s': "e = None" "s' = s1\<lparr>conns := [], rooms := [], out := out s1 @ [Call CloseAdapter]\<rparr>"
    using assms(2) by (simp_all add: shutdown_def andthen_None s1 act_simps)
  have "closes_of (out s1) = closes_of (out s) @ map (\<lambda>x. (x, Some goodbye)) (filter (takes_leave s) (obj_keys (conns s)))"
    if "calm env s" "steady env"
    using shut_list_closes_of [of env s "obj_keys (conns s)"] that P s1
    by (simp add: shutting_ok_def registered_wf distinct_obj_keys)
  then show ?thesis using all by (simp add: s' goodbye_def)
qed

lemma singleton_list: "distinct xs \<Longrightarrow> set xs = {a} \<Longrightarrow> xs = [a]"
  by (cases xs; cases "tl xs") auto

theorem shutdown_closes_all_witness:
  "fst (shutdown demo_env demo_node) = None \<and> conns (snd (shutdown demo_env demo_node)) = [] \<and>
    closes_of (out (snd (shutdown demo_env demo_node))) =
      closes_of (out demo_node) @ [(jstr ''A'', Some (Fin 1001, jstr ''Server shutting down''))]"
proof -
  have "takes_leave demo_node (jstr ''A'')"
    using demo_open demo_open_socket demo_tracks by (simp add: takes_leave_def leavable_def)
  moreover have "calm demo_env demo_node" using demo_lossy by (simp add: calm_def)
  moreover have "set (obj_keys (conns demo_node)) = {jstr ''A''}" "distinct (obj_keys (conns demo_node))"
    using registered.reachable_invariant [OF demo_reachable]
    by (auto simp: demo_node_facts registered_wf distinct_obj_keys)
  then have "obj_keys (conns demo_node) = [jstr ''A'']" using singleton_list by metis
  moreover obtain e s' where s': "shutdown demo_env demo_node = (e, s')" by fastforce
  ultimately show ?thesis using shutdown_closes_all [OF demo_reachable s'] demo_steady by simp
qed

end
