(* ===== verification/Rejoin.thy ===== *)
theory Rejoin
  imports Hazards
begin

text \<open>
  A closed connection that comes back: between \<^verbatim>\<open>close_with\<close> and the end of the socket the \<^verbatim>\<open>ws\<close>
  library still delivers the frames that have arrived, and nothing on their way asks whether
  the connection is closed.
\<close>

section \<open>Closing does not touch the rate limit\<close>

definition bucket_is :: "js_string \<Rightarrow> jsnum \<times> jsnum \<times> jsnum \<times> jsnum \<Rightarrow> jsnum \<Rightarrow> node \<Rightarrow> bool" where
  "bucket_is cid b now s \<longleftrightarrow> prop_has (heap s) cid \<and> bucket_of (conn_of s cid) = b \<and> clock s = now"

lemma bucket_leave [simp]:
  "bucket_of (conn_of (leave_state name c s) x) = bucket_of (conn_of s x)" "clock (leave_state name c s) = clock s"
  by (auto simp: leave_state_def Let_def untrack_room_def bucket_of_def drop_member_def act_simps
      split: option.splits prod.splits)

lemma bucket_inert: "inert f \<Longrightarrow> bucket_of (f c) = bucket_of c"
  unfolding inert_def by blast

lemma bucket_flags [simp]:
  "bucket_of (c\<lparr>is_closed := b\<rparr>) = bucket_of c" "bucket_of (c\<lparr>close_sent := b\<rparr>) = bucket_of c"
  by (simp_all add: bucket_of_def)

interpretation bucket: node_kept "bucket_is cid b now" "\<lambda>_. True" for cid b now
  by unfold_locales (auto simp: bucket_is_def bucket_inert)

lemma allow_bucket: "bucket_of c = bucket_of d \<Longrightarrow> fst (allow_control_event now c) = fst (allow_control_event now d)"
  by (simp add: bucket_of_def allow_control_event_def Let_def)

lemma close_turn_bucket:
  assumes "prop_has (heap s) cid" "decode_message (JBuffer bad) (JNumber (max_payload cfg)) = Inr None"
  shows "bucket_is cid (bucket_of (conn_of s cid)) (clock s) (turn env cfg (Data cid (Whole bad)) s)"
proof -
  let ?P = "bucket_is cid (bucket_of (conn_of s cid)) (clock s)"
  have "?P (snd (close_with env cid code reason t))" if "?P t" for code reason t
    using keepsD [OF bucket.keeps_close that] .
  then have "?P (snd (on_message env cfg cid (Whole bad) s))"
    using assms by (simp add: on_message_def Let_def andthen_None [OF metric_apply] bucket_is_def)
  then show ?thesis by (auto simp: turn_def bucket_is_def split: prod.split option.split)
qed

section \<open>A member that is not there\<close>

definition ghost :: "js_string \<Rightarrow> js_string \<Rightarrow> adapter_call list \<Rightarrow> node \<Rightarrow> bool" where
  "ghost room cid calls s \<longleftrightarrow>
     member s room cid \<and> is_closed (conn_of s cid) \<and> calls_of (out s) = calls"

lemma ghost_stays:
  assumes "ghost room cid calls s" "ev \<in> {Close cid, Error cid, Pong cid}"
  shows "ghost room cid calls (turn env cfg ev s)"
proof -
  have "cleanup l r env cid t = (None, t)" if "is_closed (conn_of t cid)" for l r t
    using that by (simp add: cleanup_def)
  then show ?thesis
    using assms by (auto simp: turn_def on_close_def andthen_modify on_pong_def modify_apply ghost_def)
qed

lemma ghosts_stay: "set evs \<subseteq> {Close cid, Error cid, Pong cid} \<Longrightarrow> ghost room cid calls s \<Longrightarrow>
    ghost room cid calls (fold (turn env cfg) evs s)"
  by (induction evs arbitrary: s) (simp_all add: ghost_stays)

lemma join_closed:
  assumes "msg_event m = jstr ''join''" "is_closed (conn_of s cid)"
  shows "is_closed (conn_of (snd (dispatch env cid m s)) cid)"
proof -
  obtain ok c where a: "allow_control_event (clock s) (conn_of s cid) = (ok, c)" by fastforce
  then have "is_closed c" using assms(2) metered_fields(2) [of "clock s" "conn_of s cid"] by simp
  moreover have "prop_has (heap s) cid \<or> conn_of s cid = no_conn" by (simp add: conn_of_def prop_has_get split: option.split)
  ultimately have "is_closed (conn_of (upd_conn cid (\<lambda>_. c) s) cid)" using assms(2) by simp
  then have "is_closed (conn_of (snd (join_room r cid d (upd_conn cid (\<lambda>_. c) s))) cid)" for r d
    by (simp add: join_room_eq joined_state_def Let_def split: if_splits)
  then show ?thesis
    using assms(1) a \<open>is_closed (conn_of (upd_conn cid (\<lambda>_. c) s) cid)\<close>
    by (auto simp: dispatch_def dispatch_join_def allow_def Let_def split: option.splits sum.splits if_splits)
qed

text \<open>
  C34: a connection that the server has closed joins rooms again, and stays. A client sends a frame
  that closes its connection (any malformed one) and right after it a join: the join is served -
  the rate limit and \<^verbatim>\<open>authorize_room\<close> are all that is asked - the room has the member and the
  cluster is told. When the socket ends, \<^verbatim>\<open>cleanup\<close> finds the connection closed and returns:
  whatever else the socket reports, and however often, the member is not taken out of the room,
  nor its presence out of the adapter.
\<close>

theorem closed_connection_rejoins:
  assumes "reachable env cfg s" "prop_has (heap s) cid"
    and "decode_message (JBuffer bad) (JNumber (max_payload cfg)) = Inr None"
    and "frame = raw_frame v f room (utf8_encode (jstr ''join'')) dst src payload"
    and "fields_fit room (utf8_encode (jstr ''join'')) dst src payload"
    and "\<not> num_less (max_payload cfg) (js_nat (length frame))"
    and "fst (allow_control_event (clock s) (conn_of s cid))" "\<forall>c. authorized env cid c (utf8_decode room)"
    and "set evs \<subseteq> {Close cid, Error cid, Pong cid}"
  shows "let s1 = turn env cfg (Data cid (Whole bad)) s;
      s2 = fold (turn env cfg) evs (turn env cfg (Data cid (Whole frame)) s1) in
    is_closed (conn_of s1 cid) \<and> is_closed (conn_of s2 cid) \<and> member s2 (utf8_decode room) cid \<and>
    calls_of (out s2) = calls_of (out s1) @ [AddPresence (utf8_decode room) cid]"
proof -
  let ?room = "utf8_decode room" and ?join = "utf8_encode (jstr ''join'')"
  let ?m = "frame_message v f room ?join dst src payload"
  define s1 where "s1 = turn env cfg (Data cid (Whole bad)) s"
  have closed: "is_closed (conn_of s1 cid)"
    unfolding s1_def closed_turn
    by (rule rejected_closes [OF sent_closed.reachable_invariant [OF assms(1)] assms(2)]) (simp add: assms(3))
  have bucket: "bucket_is cid (bucket_of (conn_of s cid)) (clock s) s1"
    unfolding s1_def by (rule close_turn_bucket [OF assms(2,3)])
  then obtain c where allow: "allow_control_event (clock s1) (conn_of s1 cid) = (True, c)"
    using assms(7) allow_bucket [of "conn_of s1 cid" "conn_of s cid" "clock s"]
    by (cases "allow_control_event (clock s1) (conn_of s1 cid)") (auto simp: bucket_is_def)
  let ?s = "s1\<lparr>out := out s1 @ [Metric (OnMessageReceived (length frame))]\<rparr>"
  have join: "utf8_decode ?join = jstr ''join''" by (rule utf8_roundtrip) (simp add: jstr_def is_high_def is_low_def)
  have dec: "decode_message (JBuffer frame) (JNumber (max_payload cfg)) = Inr (Some ?m)"
    using decode_raw_frame [OF assms(5)] assms(4,6) by (simp add: decode_message_def exceeds_max_def)
  have heap: "prop_has (heap s1) cid" using bucket by (simp add: bucket_is_def)
  have "ghost ?room cid (calls_of (out s1) @ [AddPresence ?room cid]) (snd (dispatch env cid ?m ?s))"
    using dispatch_join_eq(1) [of ?m ?s cid True c env] heap allow assms(8) closed join
      join_closed [of ?m ?s cid env]
    by (simp add: ghost_def join_room_eq Let_def)
  then have "ghost ?room cid (calls_of (out s1) @ [AddPresence ?room cid]) (turn env cfg (Data cid (Whole frame)) s1)"
    using assms(6) by (simp add: turn_def on_message_def Let_def andthen_None [OF metric_apply] dec swallow_def try_ignore_def)
  from ghosts_stay [OF assms(9) this] show ?thesis
    using closed unfolding s1_def by (simp add: Let_def ghost_def)
qed

theorem closed_connection_rejoins_witness:
  "\<exists>frame. let s1 = turn demo_env demo_cfg (Data (jstr ''A'') (Whole [1, 0, 0])) demo_node;
      s2 = turn demo_env demo_cfg (Close (jstr ''A'')) (turn demo_env demo_cfg (Data (jstr ''A'') (Whole frame)) s1) in
    is_closed (conn_of s1 (jstr ''A'')) \<and> is_closed (conn_of s2 (jstr ''A'')) \<and> member s2 (jstr ''r'') (jstr ''A'')"
proof -
  let ?room = "utf8_encode (jstr ''r'')" and ?join = "utf8_encode (jstr ''join'')"
  let ?frame = "raw_frame 1 0 ?room ?join [] [] []"
  have fit: "fields_fit ?room ?join [] [] []"
    by (simp add: fields_fit_def jstr_def utf8_encode_def is_high_def is_low_def enc_scalar_def)
  have room: "utf8_decode ?room = jstr ''r''" by (rule utf8_roundtrip) (simp add: jstr_def is_high_def is_low_def)
  have bad: "decode_message (JBuffer [1, 0, 0]) (JNumber (max_payload demo_cfg)) = Inr None"
    by (simp add: decode_message_def decode_buf_def HEADER_OVERHEAD_def)
  have small: "\<not> num_less (max_payload demo_cfg) (js_nat (length ?frame))"
    by (simp add: demo_cfg_def server_config_def length_raw_frame jstr_def utf8_encode_def is_high_def
        is_low_def enc_scalar_def HEADER_OVERHEAD_def)
  have anyone: "\<forall>c. authorized demo_env (jstr ''A'') c (utf8_decode ?room)"
    by (simp add: authorized_def demo_env_def)
  from closed_connection_rejoins [OF demo_reachable open_in_heap [OF demo_open] bad refl fit small demo_allowed anyone,
      of "[Close (jstr ''A'')]"]
  show ?thesis by (intro exI [of _ ?frame]) (simp add: Let_def room)
qed

end
