(* ===== verification/Cluster.thy ===== *)
theory Cluster
  imports Delivery Redis_Adapter
begin

text \<open>
  Messages between nodes: what one hub gives its adapter, through Redis and the other node's
  adapter, to the sockets of the other hub.
\<close>

lemma room_not_node': "\<not> starts_with (jstr ''room:'' @ s) (jstr ''node:'')"
  by (simp add: starts_with_def jstr_def)

lemma recipients_out [simp]: "recipients (s\<lparr>out := es\<rparr>) ex r = recipients s ex r"
  by (simp add: recipients_def)

text \<open>A frame without a destination that reaches the hub under a room's channel.\<close>

lemma fanout_frame:
  assumes "reachable env cfg s" "\<forall>x \<in> set (recipients s None room). \<not> evicts (conn_of s x)"
    and "decode_frame raw = Some m" "msg_dst m = []"
    and "\<not> starts_with room (jstr ''room:'')" "suffix = room \<or> suffix = jstr ''room:'' @ room"
  shows "\<exists>s'. on_cluster_frame env suffix raw s = (None, s') \<and>
    out s' = out s @ [Metric (OnClusterReceived (length raw))] @
      concat (map (\<lambda>x. delivery (conn_of s x) x raw) (recipients s None room))"
proof -
  let ?s = "s\<lparr>out := out s @ [Metric (OnClusterReceived (length raw))]\<rparr>"
  have ok: "rooms_ok ?s"
    using membership.reachable_invariant [OF assms(1)] by (simp add: membership_def)
  then have "distinct (recipients ?s None room)"
    by (simp add: recipients_def distinct_obj_keys rooms_ok_wf)
  moreover have "drop 5 (jstr ''room:'' @ room) = room" by (simp add: jstr_def)
  then have "(if starts_with suffix (jstr ''room:'') then drop 5 suffix else suffix) = room"
    using assms(5,6) by (auto simp del: drop_append)
  then have "on_cluster_frame env suffix raw s =
      (if prop_has (rooms ?s) room then emit_local (live room) (try_send env) None raw ?s else skip ?s)"
    using assms(3,4) by (simp only: on_cluster_frame_def andthen_None [OF metric_apply] Let_def)
      (simp split: option.split)
  ultimately show ?thesis
    using emit_local_calm [OF rooms_ok_wf [OF ok], of None room env raw] assms(2)
    by (auto simp: out_fold_sent recipients_no_room skip_apply)
qed

text \<open>
  C27: A broadcast crosses the cluster. Redis matches patterns as it documents, and the prefix has
  no special character of them. The frame a hub publishes for a room on node \<open>a\<close>, whose
  name does not begin with \<^verbatim>\<open>room:\<close>, is published by the Redis adapter on a channel node \<open>b\<close>
  subscribes to, dropped by \<open>a\<close> itself, and written by \<open>b\<close>'s hub, byte for byte, to every
  member of that room with an open socket, when none of them is to be evicted.
\<close>

theorem cluster_delivers:
  assumes "ra_prefix b = ra_prefix a" "ra_node_id b \<noteq> ra_node_id a" "node_id_ok (ra_node_id a)"
    and "well_formed (ra_prefix a)" "well_formed (msg_room m)" "wire_ok m" "msg_dst m = []"
    and "\<not> starts_with (msg_room m) (jstr ''room:'')"
    and "glob_law matches" "literal (ra_prefix a)"
    and "reachable env cfg s" "\<forall>x \<in> set (recipients s None (msg_room m)). \<not> evicts (conn_of s x)"
  shows "\<exists>raw channel envelope s'.
    msg_encode m = Inr raw \<and>
    redis_call a (PublishRaw (msg_room m) raw) = Inr [Publish channel envelope] \<and>
    subscribed matches b channel \<and> handle_incoming a (utf8_encode channel) envelope = None \<and>
    handle_incoming b (utf8_encode channel) envelope = Some (msg_room m, ra_node_id a, raw) \<and>
    on_cluster_frame env (msg_room m) raw s = (None, s') \<and>
    out s' = out s @ [Metric (OnClusterReceived (length raw))] @
      concat (map (\<lambda>x. delivery (conn_of s x) x raw) (recipients s None (msg_room m)))"
proof -
  obtain raw where raw: "msg_encode m = Inr raw" "decode_frame raw = Some m"
    using frame.transmit [OF assms(6)] by blast
  obtain ch e where "publish_raw a (msg_room m) raw = Inr [Publish ch e]" "subscribed matches b ch"
      "handle_incoming b (utf8_encode ch) e = Some (msg_room m, ra_node_id a, raw)"
      "handle_incoming a (utf8_encode ch) e = None"
    using broadcast_route [OF assms(1-5), of raw matches] assms(9,10) by blast
  moreover obtain s' where "on_cluster_frame env (msg_room m) raw s = (None, s')"
      "out s' = out s @ [Metric (OnClusterReceived (length raw))] @
        concat (map (\<lambda>x. delivery (conn_of s x) x raw) (recipients s None (msg_room m)))"
    using fanout_frame [OF assms(11,12) raw(2) assms(7,8)] by blast
  ultimately show ?thesis using raw by auto
qed

lemma demo_calm: "\<not> evicts (conn_of demo_node x)"
  using lossy_calm [OF demo_lossy] .

lemma node_ids: "ra_prefix node_b = ra_prefix node_a" "ra_node_id node_b \<noteq> ra_node_id node_a"
  "node_id_ok (ra_node_id node_a)" "well_formed (ra_prefix node_a)" "node_id_ok (ra_node_id node_b)"
  using node_id_ok_A by (simp_all add: node_a_facts node_b_facts)
    (simp add: node_id_ok_def, simp add: jstr_def utf8_encode_def is_high_def is_low_def enc_scalar_def)

theorem cluster_delivers_witness:
  "let m = left_msg (jstr ''root'') (jstr ''A'') in
   \<exists>raw channel envelope s'.
    msg_encode m = Inr raw \<and>
    redis_call node_a (PublishRaw (msg_room m) raw) = Inr [Publish channel envelope] \<and>
    subscribed ends_in_star node_b channel \<and> handle_incoming node_a (utf8_encode channel) envelope = None \<and>
    handle_incoming node_b (utf8_encode channel) envelope = Some (msg_room m, ra_node_id node_a, raw) \<and>
    on_cluster_frame demo_env (msg_room m) raw demo_node = (None, s') \<and>
    out s' = out demo_node @ [Metric (OnClusterReceived (length raw))] @
      concat (map (\<lambda>x. delivery (conn_of demo_node x) x raw) (recipients demo_node None (msg_room m)))"
proof -
  let ?m = "left_msg (jstr ''root'') (jstr ''A'')"
  have m: "msg_room ?m = jstr ''root''" "msg_dst ?m = []"
    by (simp_all add: left_msg_def create_message_def)
  have "wire_ok ?m"
    by (simp add: wire_ok_def left_msg_def create_message_def payload_bytes_def jstr_def
      is_high_def is_low_def fields_fit_def utf8_encode_def enc_scalar_def is_byte_num_def
      PROTOCOL_VERSION_def DEFAULT_FLAGS_def)
  moreover have "\<not> starts_with (jstr ''root'') (jstr ''room:'')" by (simp add: starts_with_def jstr_def)
  ultimately show ?thesis
    unfolding Let_def
    by (intro cluster_delivers [OF node_ids(1-4) _ _ _ _ glob_law_star literal_a demo_reachable]) (simp_all add: m demo_calm)
qed

text \<open>
  C39: A room name is stripped twice. The adapter removes its own \<^verbatim>\<open>room:\<close> from the channel, and
  the hub removes it again: a broadcast to the room \<^verbatim>\<open>room:x\<close> reaches, on every other node, the
  members of the room \<^verbatim>\<open>x\<close> and not those of \<^verbatim>\<open>room:x\<close>.
\<close>

theorem room_prefix_misroutes:
  assumes "ra_prefix b = ra_prefix a" "ra_node_id b \<noteq> ra_node_id a" "node_id_ok (ra_node_id a)"
    and "well_formed (ra_prefix a)" "well_formed (msg_room m)" "wire_ok m" "msg_dst m = []"
    and "msg_room m = jstr ''room:'' @ x" "\<not> starts_with x (jstr ''room:'')"
    and "reachable env cfg s" "\<forall>y \<in> set (recipients s None x). \<not> evicts (conn_of s y)"
  shows "\<exists>raw channel envelope s'.
    redis_call a (PublishRaw (msg_room m) raw) = Inr [Publish channel envelope] \<and>
    handle_incoming b (utf8_encode channel) envelope = Some (msg_room m, ra_node_id a, raw) \<and>
    on_cluster_frame env (msg_room m) raw s = (None, s') \<and>
    out s' = out s @ [Metric (OnClusterReceived (length raw))] @
      concat (map (\<lambda>y. delivery (conn_of s y) y raw) (recipients s None x))"
proof -
  obtain raw where raw: "msg_encode m = Inr raw" "decode_frame raw = Some m"
    using frame.transmit [OF assms(6)] by blast
  obtain ch e where "publish_raw a (msg_room m) raw = Inr [Publish ch e]"
      "handle_incoming b (utf8_encode ch) e = Some (msg_room m, ra_node_id a, raw)"
    using broadcast_route [OF assms(1-5), of raw] by blast
  moreover obtain s' where "on_cluster_frame env (msg_room m) raw s = (None, s')"
      "out s' = out s @ [Metric (OnClusterReceived (length raw))] @
        concat (map (\<lambda>y. delivery (conn_of s y) y raw) (recipients s None x))"
    using fanout_frame [OF assms(10,11) raw(2) assms(7,9)] assms(8) by blast
  ultimately show ?thesis by auto
qed

theorem room_prefix_misroutes_witness:
  "let m = left_msg (jstr ''room:root'') (jstr ''A'') in
   \<exists>raw channel envelope s'.
    redis_call node_a (PublishRaw (msg_room m) raw) = Inr [Publish channel envelope] \<and>
    handle_incoming node_b (utf8_encode channel) envelope = Some (msg_room m, ra_node_id node_a, raw) \<and>
    on_cluster_frame demo_env (msg_room m) raw demo_node = (None, s') \<and>
    out s' = out demo_node @ [Metric (OnClusterReceived (length raw))] @
      concat (map (\<lambda>y. delivery (conn_of demo_node y) y raw) (recipients demo_node None (jstr ''root'')))"
proof -
  let ?m = "left_msg (jstr ''room:root'') (jstr ''A'')"
  have m: "msg_room ?m = jstr ''room:root''" "msg_dst ?m = []"
    by (simp_all add: left_msg_def create_message_def)
  have "wire_ok ?m"
    by (simp add: wire_ok_def left_msg_def create_message_def payload_bytes_def jstr_def
      is_high_def is_low_def fields_fit_def utf8_encode_def enc_scalar_def is_byte_num_def
      PROTOCOL_VERSION_def DEFAULT_FLAGS_def)
  moreover have "\<not> starts_with (jstr ''root'') (jstr ''room:'')" by (simp add: starts_with_def jstr_def)
  moreover have "msg_room ?m = jstr ''room:'' @ jstr ''root''" by (simp add: m) (simp add: jstr_def)
  moreover have "well_formed (msg_room ?m)" by (simp add: m)
  ultimately show ?thesis
    unfolding Let_def
    by (intro room_prefix_misroutes [OF node_ids(1-4) _ _ _ _ _ demo_reachable]) (simp_all add: m(2) demo_calm)
qed

text \<open>
  A direct message crosses the cluster to one socket. What a hub publishes directly to node
  \<open>b\<close> is on \<open>b\<close>'s own channel, which no other node of the prefix subscribes to; \<open>b\<close>'s hub
  writes it, byte for byte, to the addressed connection only.
\<close>

theorem cluster_unicast:
  assumes "ra_prefix b = ra_prefix a" "ra_prefix c = ra_prefix a" "ra_node_id b \<noteq> ra_node_id a"
    and "ra_node_id c \<noteq> ra_node_id b" "node_id_ok (ra_node_id a)" "node_id_ok (ra_node_id b)"
    and "well_formed (ra_prefix a)" "wire_ok m" "msg_dst m = x" "x \<noteq> []"
    and "prop_has (conns s) x" "\<not> evicts (conn_of s x)"
    and "glob_law matches" "literal (ra_prefix a)"
  shows "\<exists>raw channel envelope suffix s'.
    msg_encode m = Inr raw \<and>
    redis_call a (PublishDirectRaw (ra_node_id b) raw) = Inr [Publish channel envelope] \<and>
    subscribed matches b channel \<and> \<not> subscribed matches c channel \<and>
    handle_incoming b (utf8_encode channel) envelope = Some (suffix, ra_node_id a, raw) \<and>
    on_cluster_frame env suffix raw s = (None, s') \<and>
    out s' = out s @ [Metric (OnClusterReceived (length raw))] @ delivery (conn_of s x) x raw"
proof -
  obtain raw where raw: "msg_encode m = Inr raw" "decode_frame raw = Some m"
    using frame.transmit [OF assms(8)] by blast
  have ch: "publish_direct_raw a (ra_node_id b) raw =
      Inr [Publish (node_channel a (ra_node_id b)) (envelope_bytes (utf8_encode (ra_node_id a)) raw)]"
    by (rule publish_direct_raw_eq [OF assms(5)])
  have wf: "well_formed (node_channel a (ra_node_id b))"
    using assms(6,7) by (simp add: node_channel_def node_id_ok_def well_formed_append)
  have b: "subscribed matches b (node_channel a (ra_node_id b))"
      "handle_incoming b (utf8_encode (node_channel a (ra_node_id b))) (envelope_bytes (utf8_encode (ra_node_id a)) raw)
        = Some (jstr ''node:'' @ ra_node_id b, ra_node_id a, raw)"
    using unicast_route [OF assms(1,5,13,14), of "ra_node_id b" raw] ch wf assms(3) by auto
  have c: "\<not> subscribed matches c (node_channel a (ra_node_id b))"
    using unicast_route [OF assms(2,5,13,14), of "ra_node_id b" raw] ch assms(4) by auto
  let ?s = "s\<lparr>out := out s @ [Metric (OnClusterReceived (length raw))]\<rparr>"
  have "on_cluster_frame env (jstr ''node:'' @ ra_node_id b) raw s = (None, sent_state env raw x ?s)"
    using assms(9-12) raw(2) by (simp add: on_cluster_frame_def andthen_None [OF metric_apply] Let_def try_send_calm)
  with raw ch b c show ?thesis by auto
qed

definition node_c :: redis_adapter where
  "node_c = create_redis_adapter (JString (jstr ''C'')) JUndefined JUndefined []"

theorem cluster_unicast_witness:
  "let m = create_message (JString (jstr ''root'')) (JString (jstr ''x'')) (JString (jstr ''A'')) (JString (jstr ''Z''))
       JUndefined JUndefined JUndefined in
   \<exists>raw channel envelope suffix s'.
    msg_encode m = Inr raw \<and>
    redis_call node_a (PublishDirectRaw (ra_node_id node_b) raw) = Inr [Publish channel envelope] \<and>
    subscribed ends_in_star node_b channel \<and> \<not> subscribed ends_in_star node_c channel \<and>
    handle_incoming node_b (utf8_encode channel) envelope = Some (suffix, ra_node_id node_a, raw) \<and>
    on_cluster_frame demo_env suffix raw demo_node = (None, s') \<and>
    out s' = out demo_node @ [Metric (OnClusterReceived (length raw))] @
      delivery (conn_of demo_node (jstr ''A'')) (jstr ''A'') raw"
proof -
  let ?m = "create_message (JString (jstr ''root'')) (JString (jstr ''x'')) (JString (jstr ''A'')) (JString (jstr ''Z''))
       JUndefined JUndefined JUndefined"
  have "msg_dst ?m = jstr ''A''" by (simp add: create_message_def)
  moreover have "wire_ok ?m"
    by (simp add: wire_ok_def left_msg_def create_message_def payload_bytes_def jstr_def
      is_high_def is_low_def fields_fit_def utf8_encode_def enc_scalar_def is_byte_num_def
      PROTOCOL_VERSION_def DEFAULT_FLAGS_def)
  moreover have "ra_prefix node_c = ra_prefix node_a" "ra_node_id node_c \<noteq> ra_node_id node_b"
    by (simp_all add: node_c_def create_redis_adapter_def nonempty_string_or_def node_a_facts node_b_facts Let_def)
      (simp add: jstr_def)
  ultimately show ?thesis
    unfolding Let_def by (intro cluster_unicast node_ids glob_law_star literal_a) (simp_all add: demo_node_facts(3) demo_calm)
qed

end
