(* ===== verification/Byte_Cursor.thy ===== *)
theory Byte_Cursor
  imports JS_Value Ieee
begin

text \<open>
  The client's byte cursor, \<^verbatim>\<open>client/bytecursor.js\<close>: a read and write position in a view of
  an ArrayBuffer. The standard's \<^verbatim>\<open>DataView\<close> and \<^verbatim>\<open>Uint8Array\<close> accept any number as an
  offset and convert it (\<open>to_index\<close>); the position is therefore a JavaScript number. A
  segment that the source returns as a view is the list of its bytes here: nothing writes
  to a buffer after such a view was taken of it.
\<close>

section \<open>Typed array primitives\<close>

abbreviation out_of_bounds :: js_error where
  "out_of_bounds \<equiv> RangeError (jstr ''Offset is outside the bounds'')"

definition truncated :: "rat \<Rightarrow> int" where
  "truncated x = (if 0 \<le> x then \<lfloor>x\<rfloor> else - \<lfloor>- x\<rfloor>)"

text \<open>\<open>ToIndex\<close> of the language standard: not-a-number is 0, a fraction is truncated.\<close>

definition to_index :: "jsnum \<Rightarrow> nat result" where
  "to_index v =
     (case v of
        NaN \<Rightarrow> Inr 0
      | Fin x \<Rightarrow> if 0 \<le> truncated x \<and> truncated x < 2 ^ 53 then Inr (nat (truncated x)) else Inl out_of_bounds
      | _ \<Rightarrow> Inl out_of_bounds)"

text \<open>The bounds \<^verbatim>\<open>ArrayBuffer.prototype.slice\<close> derives from its arguments.\<close>

definition slice_index :: "jsnum \<Rightarrow> nat \<Rightarrow> nat" where
  "slice_index v len =
     (case v of
        NaN \<Rightarrow> 0
      | PosInf \<Rightarrow> len
      | NegInf \<Rightarrow> 0
      | Fin x \<Rightarrow> if truncated x < 0 then nat (max (int len + truncated x) 0)
                 else nat (min (truncated x) (int len)))"

text \<open>The \<open>k\<close> low bytes of a number, most significant first, and back.\<close>

primrec bytes_be :: "nat \<Rightarrow> nat \<Rightarrow> bytes" where
  "bytes_be 0 n = []"
| "bytes_be (Suc k) n = bytes_be k (n div 256) @ [of_nat (n mod 256)]"

definition be_value :: "bytes \<Rightarrow> nat" where
  "be_value bs = foldl (\<lambda>n b. n * 256 + unat b) 0 bs"

definition in_order :: "bool \<Rightarrow> bytes \<Rightarrow> bytes" where
  "in_order little_endian bs = (if little_endian then rev bs else bs)"

definition signed_value :: "nat \<Rightarrow> nat \<Rightarrow> int" where
  "signed_value k n = (if n < 2 ^ (8 * k - 1) then int n else int n - 2 ^ (8 * k))"

section \<open>The cursor\<close>

record cursor =
  cur_buffer :: bytes
  byteOffset :: nat
  byteLength :: nat
  position :: jsnum

definition is_array_buffer :: "jsval \<Rightarrow> bool" where
  "is_array_buffer v = (case v of JArrayBuffer _ \<Rightarrow> True | _ \<Rightarrow> False)"

definition is_uint8_array :: "jsval \<Rightarrow> bool" where
  "is_uint8_array v = (case v of JBuffer _ \<Rightarrow> True | JUint8Array _ \<Rightarrow> True | _ \<Rightarrow> False)"

fun raw_bytes :: "jsval \<Rightarrow> bytes" where
  "raw_bytes (JBuffer b) = b"
| "raw_bytes (JUint8Array b) = b"
| "raw_bytes (JArrayBuffer b) = b"
| "raw_bytes _ = []"

definition must_be_between :: "js_string \<Rightarrow> int \<Rightarrow> int \<Rightarrow> js_error" where
  "must_be_between name mn mx =
     RangeError (name @ jstr '' must be between '' @ int_string mn @ jstr '' and '' @ int_string mx)"

definition assert_integer :: "jsval \<Rightarrow> int \<Rightarrow> int \<Rightarrow> js_string \<Rightarrow> unit result" where
  "assert_integer v mn mx name =
     (case v of
        JNumber n \<Rightarrow>
          if \<not> is_integer_num n then Inl (TypeError (name @ jstr '' must be an integer''))
          else if num_less n (Fin (of_int mn)) \<or> num_less (Fin (of_int mx)) n
          then Inl (must_be_between name mn mx) else Inr ()
      | _ \<Rightarrow> Inl (TypeError (name @ jstr '' must be a number'')))"

definition assert_bigint :: "jsval \<Rightarrow> int \<Rightarrow> int \<Rightarrow> js_string \<Rightarrow> unit result" where
  "assert_bigint v mn mx name =
     (case v of
        JBigInt n \<Rightarrow> if n < mn \<or> mx < n then Inl (must_be_between name mn mx) else Inr ()
      | _ \<Rightarrow> Inl (TypeError (name @ jstr '' must be a bigint'')))"

fun whole :: "jsval \<Rightarrow> int" where
  "whole (JNumber (Fin x)) = \<lfloor>x\<rfloor>"
| "whole (JBigInt n) = n"
| "whole _ = 0"

definition type_error :: "string \<Rightarrow> js_error" where "type_error s = TypeError (jstr s)"
definition bounds_error :: "string \<Rightarrow> js_error" where "bounds_error s = RangeError (jstr s)"

definition bytecursor :: "jsval \<Rightarrow> jsval \<Rightarrow> jsval \<Rightarrow> cursor result" where
  "bytecursor buffer view_offset view_length =
     (let view_offset = (if view_offset = JUndefined then JNumber (Fin 0) else view_offset);
          len = js_nat (length (raw_bytes buffer)) in
      if \<not> is_array_buffer buffer then Inl (type_error ''requires an ArrayBuffer'') else
      case view_offset of JNumber off \<Rightarrow>
        if \<not> is_integer_num off \<or> num_less off (Fin 0)
        then Inl (bounds_error ''viewOffset must be a non-negative integer'')
        else if num_less len off then Inl (bounds_error ''viewOffset is out of bounds'')
        else bindE
          (case view_length of
             JUndefined \<Rightarrow> Inr (length (raw_bytes buffer) - nat (whole view_offset))
           | JNumber n \<Rightarrow>
               if \<not> is_integer_num n \<or> num_less n (Fin 0)
               then Inl (bounds_error ''viewLength must be a non-negative integer'')
               else if num_less len (num_add off n)
               then Inl (bounds_error ''viewOffset + viewLength exceeds buffer size'')
               else Inr (nat (whole view_length))
           | _ \<Rightarrow> Inl (type_error ''viewLength must be a number''))
          (\<lambda>actual_length. Inr
             \<lparr>cur_buffer = raw_bytes buffer, byteOffset = nat (whole view_offset),
              byteLength = actual_length, position = Fin 0\<rparr>)
      | _ \<Rightarrow> Inl (type_error ''viewOffset must be a number''))"

section \<open>Positions\<close>

definition view_end :: "cursor \<Rightarrow> jsnum" where
  "view_end c = js_nat (byteLength c)"

definition check :: "jsval \<Rightarrow> jsval \<Rightarrow> cursor \<Rightarrow> unit result" where
  "check offset amount c =
     (case offset of JNumber off \<Rightarrow>
       (case amount of JNumber sz \<Rightarrow>
          if num_less off (Fin 0) then Inl (bounds_error ''Offset must be positive'')
          else if num_less sz (Fin 0) then Inl (bounds_error ''Size must be positive'')
          else if num_less (view_end c) (num_add off sz)
          then Inl (bounds_error ''Offset + size exceeds view bounds'')
          else Inr ()
        | _ \<Rightarrow> Inl (type_error ''Size must be a number''))
      | _ \<Rightarrow> Inl (type_error ''Offset must be a number''))"

fun number_of :: "jsval \<Rightarrow> jsnum" where
  "number_of (JNumber n) = n"
| "number_of _ = NaN"

definition advance :: "jsval \<Rightarrow> (cursor, jsnum) comp" where
  "advance amount c =
     (let pos = position c in
      case check (JNumber pos) amount c of
        Inl e \<Rightarrow> (Inl e, c)
      | Inr _ \<Rightarrow> (Inr pos, c\<lparr>position := num_add pos (number_of amount)\<rparr>))"

definition rewind :: "(cursor, unit) comp" where
  "rewind c = (Inr (), c\<lparr>position := Fin 0\<rparr>)"

definition tell :: "cursor \<Rightarrow> jsnum" where
  "tell c = position c"

definition seek :: "jsval \<Rightarrow> (cursor, unit) comp" where
  "seek pos c =
     (case check pos (JNumber (Fin 0)) c of
        Inl e \<Rightarrow> (Inl e, c)
      | Inr _ \<Rightarrow> (Inr (), c\<lparr>position := number_of pos\<rparr>))"

text \<open>
  \<^verbatim>\<open>cursor + n\<close>: a number, unless \<open>n\<close> is a bigint (the addition throws) or a string or an
  object (a string results, which \<open>check\<close> rejects).
\<close>

definition plus_number :: "jsnum \<Rightarrow> jsval \<Rightarrow> jsnum result" where
  "plus_number p n =
     (case n of
        JNumber x \<Rightarrow> Inr (num_add p x)
      | JUndefined \<Rightarrow> Inr NaN
      | JNull \<Rightarrow> Inr (num_add p (Fin 0))
      | JBool b \<Rightarrow> Inr (num_add p (Fin (if b then 1 else 0)))
      | JBigInt _ \<Rightarrow> Inl (type_error ''Cannot mix BigInt and other types, use explicit conversions'')
      | _ \<Rightarrow> Inl (type_error ''Offset must be a number''))"

definition skip_by :: "jsval \<Rightarrow> (cursor, unit) comp" where
  "skip_by n c =
     (case plus_number (position c) n of
        Inl e \<Rightarrow> (Inl e, c)
      | Inr p \<Rightarrow>
          (case check (JNumber p) (JNumber (Fin 0)) c of
             Inl e \<Rightarrow> (Inl e, c)
           | Inr _ \<Rightarrow> (Inr (), c\<lparr>position := p\<rparr>)))"

definition eof :: "cursor \<Rightarrow> bool" where
  "eof c \<longleftrightarrow> num_leq (view_end c) (position c)"

section \<open>Bytes\<close>

definition slice :: "jsval \<Rightarrow> jsval \<Rightarrow> cursor \<Rightarrow> bytes result" where
  "slice start finish c =
     (let start = (if start = JUndefined then JNumber (Fin 0) else start);
          finish = (if finish = JUndefined then JNumber (view_end c) else finish) in
      case start of JNumber a \<Rightarrow>
        (case finish of JNumber b \<Rightarrow>
           if num_less a (Fin 0) \<or> num_less b (Fin 0)
           then Inl (bounds_error ''slice() start and end must be non-negative'')
           else if num_less b a then Inl (bounds_error ''slice() start must not exceed end'')
           else if num_less (view_end c) b then Inl (bounds_error ''slice() end exceeds view bounds'')
           else
             let len = length (cur_buffer c); off = js_nat (byteOffset c) in
             Inr (subarray (cur_buffer c) (slice_index (num_add off a) len) (slice_index (num_add off b) len))
         | _ \<Rightarrow> Inl (type_error ''slice() arguments must be numbers''))
      | _ \<Rightarrow> Inl (type_error ''slice() arguments must be numbers''))"

text \<open>\<^verbatim>\<open>new Uint8Array(buffer, view.byteOffset + pos, len)\<close>: first byte and length.\<close>

definition u8_segment :: "jsnum \<Rightarrow> jsnum \<Rightarrow> cursor \<Rightarrow> (nat \<times> nat) result" where
  "u8_segment pos len c =
     bindE (to_index (num_add (js_nat (byteOffset c)) pos)) (\<lambda>i.
     bindE (to_index len) (\<lambda>n.
       if length (cur_buffer c) < i + n then Inl out_of_bounds else Inr (i, n)))"

text \<open>The default of \<open>getBytes\<close> and \<open>getString\<close>: what is left of the view.\<close>

definition or_remaining :: "jsval \<Rightarrow> cursor \<Rightarrow> jsval" where
  "or_remaining len c = (if len = JUndefined then JNumber (num_sub (view_end c) (position c)) else len)"

definition getBytes :: "jsval \<Rightarrow> (cursor, bytes) comp" where
  "getBytes len c =
     (let len = or_remaining len c in
      bindS (advance len) (\<lambda>pos c.
        (case u8_segment pos (number_of len) c of
           Inl e \<Rightarrow> (Inl e, c)
         | Inr (i, n) \<Rightarrow> (Inr (subarray (cur_buffer c) i (i + n)), c))) c)"

definition writeBytes :: "jsval \<Rightarrow> (cursor, unit) comp" where
  "writeBytes bytes =
     (if \<not> is_uint8_array bytes then liftS (Inl (type_error ''writeBytes requires a Uint8Array'')) else
      let len = js_nat (length (raw_bytes bytes)) in
      bindS (advance (JNumber len)) (\<lambda>pos c.
        (case u8_segment pos len c of
           Inl e \<Rightarrow> (Inl e, c)
         | Inr (i, n) \<Rightarrow> (Inr (), c\<lparr>cur_buffer := buf_copy (raw_bytes bytes) (cur_buffer c) i\<rparr>))))"

section \<open>Strings\<close>

definition getString :: "jsval \<Rightarrow> (cursor, js_string) comp" where
  "getString len c =
     (let len = or_remaining len c in
      bindS (advance len) (\<lambda>pos c.
        (case u8_segment pos (number_of len) c of
           Inl e \<Rightarrow> (Inl e, c)
         | Inr (i, n) \<Rightarrow> (Inr (text_decode (subarray (cur_buffer c) i (i + n))), c))) c)"

text \<open>
  \<^verbatim>\<open>TextEncoder.encodeInto\<close>: whole characters are written as long as they fit; the number
  of code units read and the bytes written.
\<close>

fun encode_into :: "nat list \<Rightarrow> nat \<Rightarrow> nat \<times> bytes" where
  "encode_into [] room = (0, [])"
| "encode_into (s # ss) room =
     (let b = enc_scalar s in
      if room < length b then (0, [])
      else let (r, w) = encode_into ss (room - length b) in (length (units s) + r, b @ w))"

text \<open>\<open>has_encode_into\<close>: whether the platform's TextEncoder has the method.\<close>

definition writeString :: "bool \<Rightarrow> jsval \<Rightarrow> (cursor, unit) comp" where
  "writeString has_encode_into str c =
     (case str of JString s \<Rightarrow>
        if has_encode_into then
          (case u8_segment (position c) (num_sub (view_end c) (position c)) c of
             Inl e \<Rightarrow> (Inl e, c)
           | Inr (i, n) \<Rightarrow>
               let (nread, w) = encode_into (scalars s) n;
                   c = c\<lparr>cur_buffer := buf_copy w (cur_buffer c) i\<rparr> in
               if nread < length s then (Inl (bounds_error ''Offset + size exceeds view bounds''), c)
               else bindS (advance (JNumber (js_nat (length w)))) (\<lambda>_. ret ()) c)
        else writeBytes (JUint8Array (utf8_encode s)) c
      | _ \<Rightarrow> (Inl (type_error ''writeString() requires a string''), c))"

section \<open>Integers\<close>

text \<open>\<^verbatim>\<open>DataView\<close> reads and writes of \<open>k\<close> bytes.\<close>

definition view_get :: "nat \<Rightarrow> jsval \<Rightarrow> jsnum \<Rightarrow> (cursor, nat) comp" where
  "view_get k little_endian pos c =
     (bindE (to_index pos) (\<lambda>i.
        if byteLength c < i + k then Inl out_of_bounds
        else Inr (be_value (in_order (little_endian = JBool True)
               (subarray (cur_buffer c) (byteOffset c + i) (byteOffset c + i + k))))), c)"

definition view_set :: "nat \<Rightarrow> jsnum \<Rightarrow> int \<Rightarrow> jsval \<Rightarrow> (cursor, unit) comp" where
  "view_set k pos v little_endian c =
     (case to_index pos of
        Inl e \<Rightarrow> (Inl e, c)
      | Inr i \<Rightarrow>
          if byteLength c < i + k then (Inl out_of_bounds, c)
          else (Inr (), c\<lparr>cur_buffer :=
            buf_copy (in_order (little_endian = JBool True) (bytes_be k (nat (v mod 2 ^ (8 * k)))))
              (cur_buffer c) (byteOffset c + i)\<rparr>))"

definition int_num :: "int \<Rightarrow> jsval" where
  "int_num n = JNumber (Fin (of_int n))"

abbreviation size_of :: "nat \<Rightarrow> jsval" where
  "size_of k \<equiv> JNumber (js_nat k)"

definition getUint8 :: "(cursor, jsval) comp" where
  "getUint8 = bindS (advance (size_of 1)) (\<lambda>pos.
     bindS (view_get 1 JUndefined pos) (\<lambda>n. ret (int_num (int n))))"

definition getInt8 :: "(cursor, jsval) comp" where
  "getInt8 = bindS (advance (size_of 1)) (\<lambda>pos.
     bindS (view_get 1 JUndefined pos) (\<lambda>n. ret (int_num (signed_value 1 n))))"

definition getUint16 :: "jsval \<Rightarrow> (cursor, jsval) comp" where
  "getUint16 little_endian = bindS (advance (size_of 2)) (\<lambda>pos.
     bindS (view_get 2 little_endian pos) (\<lambda>n. ret (int_num (int n))))"

definition getInt16 :: "jsval \<Rightarrow> (cursor, jsval) comp" where
  "getInt16 little_endian = bindS (advance (size_of 2)) (\<lambda>pos.
     bindS (view_get 2 little_endian pos) (\<lambda>n. ret (int_num (signed_value 2 n))))"

definition getUint32 :: "jsval \<Rightarrow> (cursor, jsval) comp" where
  "getUint32 little_endian = bindS (advance (size_of 4)) (\<lambda>pos.
     bindS (view_get 4 little_endian pos) (\<lambda>n. ret (int_num (int n))))"

definition getInt32 :: "jsval \<Rightarrow> (cursor, jsval) comp" where
  "getInt32 little_endian = bindS (advance (size_of 4)) (\<lambda>pos.
     bindS (view_get 4 little_endian pos) (\<lambda>n. ret (int_num (signed_value 4 n))))"

definition getBigInt64 :: "jsval \<Rightarrow> (cursor, jsval) comp" where
  "getBigInt64 little_endian = bindS (advance (size_of 8)) (\<lambda>pos.
     bindS (view_get 8 little_endian pos) (\<lambda>n. ret (JBigInt (signed_value 8 n))))"

definition getBigUint64 :: "jsval \<Rightarrow> (cursor, jsval) comp" where
  "getBigUint64 little_endian = bindS (advance (size_of 8)) (\<lambda>pos.
     bindS (view_get 8 little_endian pos) (\<lambda>n. ret (JBigInt (int n))))"

definition writeUint8 :: "jsval \<Rightarrow> (cursor, unit) comp" where
  "writeUint8 v = bindS (liftS (assert_integer v 0 255 (jstr ''Uint8 value''))) (\<lambda>_.
     bindS (advance (size_of 1)) (\<lambda>pos. view_set 1 pos (whole v) JUndefined))"

definition writeInt8 :: "jsval \<Rightarrow> (cursor, unit) comp" where
  "writeInt8 v = bindS (liftS (assert_integer v (- 128) 127 (jstr ''Int8 value''))) (\<lambda>_.
     bindS (advance (size_of 1)) (\<lambda>pos. view_set 1 pos (whole v) JUndefined))"

definition writeUint16 :: "jsval \<Rightarrow> jsval \<Rightarrow> (cursor, unit) comp" where
  "writeUint16 v little_endian = bindS (liftS (assert_integer v 0 65535 (jstr ''Uint16 value''))) (\<lambda>_.
     bindS (advance (size_of 2)) (\<lambda>pos. view_set 2 pos (whole v) little_endian))"

definition writeInt16 :: "jsval \<Rightarrow> jsval \<Rightarrow> (cursor, unit) comp" where
  "writeInt16 v little_endian = bindS (liftS (assert_integer v (- 32768) 32767 (jstr ''Int16 value''))) (\<lambda>_.
     bindS (advance (size_of 2)) (\<lambda>pos. view_set 2 pos (whole v) little_endian))"

definition writeUint32 :: "jsval \<Rightarrow> jsval \<Rightarrow> (cursor, unit) comp" where
  "writeUint32 v little_endian =
     bindS (liftS (assert_integer v 0 4294967295 (jstr ''Uint32 value''))) (\<lambda>_.
     bindS (advance (size_of 4)) (\<lambda>pos. view_set 4 pos (whole v) little_endian))"

definition writeInt32 :: "jsval \<Rightarrow> jsval \<Rightarrow> (cursor, unit) comp" where
  "writeInt32 v little_endian =
     bindS (liftS (assert_integer v (- 2147483648) 2147483647 (jstr ''Int32 value''))) (\<lambda>_.
     bindS (advance (size_of 4)) (\<lambda>pos. view_set 4 pos (whole v) little_endian))"

definition writeBigInt64 :: "jsval \<Rightarrow> jsval \<Rightarrow> (cursor, unit) comp" where
  "writeBigInt64 v little_endian =
     bindS (liftS (assert_bigint v (- 9223372036854775808) 9223372036854775807 (jstr ''BigInt64 value''))) (\<lambda>_.
     bindS (advance (size_of 8)) (\<lambda>pos. view_set 8 pos (whole v) little_endian))"

definition writeBigUint64 :: "jsval \<Rightarrow> jsval \<Rightarrow> (cursor, unit) comp" where
  "writeBigUint64 v little_endian =
     bindS (liftS (assert_bigint v 0 18446744073709551615 (jstr ''BigUint64 value''))) (\<lambda>_.
     bindS (advance (size_of 8)) (\<lambda>pos. view_set 8 pos (whole v) little_endian))"

section \<open>Floating point numbers\<close>

text \<open>A value is a \<open>js_any\<close> here: of the numbers, only these operations tell -0 from 0.\<close>

definition getFloat32 :: "jsval \<Rightarrow> (cursor, js_any) comp" where
  "getFloat32 little_endian = bindS (advance (size_of 4)) (\<lambda>pos.
     bindS (view_get 4 little_endian pos) (\<lambda>n. ret (float_value 8 23 n)))"

definition getFloat64 :: "jsval \<Rightarrow> (cursor, js_any) comp" where
  "getFloat64 little_endian = bindS (advance (size_of 8)) (\<lambda>pos.
     bindS (view_get 8 little_endian pos) (\<lambda>n. ret (float_value 11 52 n)))"

definition writeFloat32 :: "js_any \<Rightarrow> jsval \<Rightarrow> (cursor, unit) comp" where
  "writeFloat32 v little_endian =
     bindS (liftS (if any_number v then Inr () else Inl (type_error ''Float32 value must be a number''))) (\<lambda>_.
     bindS (advance (size_of 4)) (\<lambda>pos. view_set 4 pos (int (float_bits 8 23 v)) little_endian))"

definition writeFloat64 :: "js_any \<Rightarrow> jsval \<Rightarrow> (cursor, unit) comp" where
  "writeFloat64 v little_endian =
     bindS (liftS (if any_number v then Inr () else Inl (type_error ''Float64 value must be a number''))) (\<lambda>_.
     bindS (advance (size_of 8)) (\<lambda>pos. view_set 8 pos (int (float_bits 11 52 v)) little_endian))"

end
