(* ===== verification/Cursor_Facts.thy ===== *)
theory Cursor_Facts
  imports Byte_Cursor
begin

text \<open>
  Correctness of the byte cursor: what is written is read back, in either byte order; no
  operation leaves the view as long as positions are whole numbers; what a position that is
  not a number does; and the two ways to write a string compared.
\<close>

section \<open>Bytes and numbers\<close>

lemma length_bytes_be [simp]: "length (bytes_be k n) = k"
  by (induction k arbitrary: n) simp_all

lemma be_value_snoc [simp]: "be_value (bs @ [b]) = be_value bs * 256 + unat b"
  by (simp add: be_value_def)

lemma be_value_bytes_be: "be_value (bytes_be k n) = n mod 256 ^ k"
proof (induction k arbitrary: n)
  case 0
  show ?case by (simp add: be_value_def)
next
  case (Suc k)
  then show ?case using mod_mult2_eq [of n 256 "256 ^ k"] by (simp add: mult.commute)
qed

lemma in_order_in_order [simp]: "in_order le (in_order le bs) = bs"
  by (simp add: in_order_def)

lemma length_in_order [simp]: "length (in_order le bs) = length bs"
  by (simp add: in_order_def)

lemma unsigned_back: "0 \<le> v \<Longrightarrow> v < 256 ^ k \<Longrightarrow> int (be_value (bytes_be k (nat (v mod 256 ^ k)))) = v"
  by (simp add: be_value_bytes_be nat_less_iff)

lemma unsigned_back': "0 \<le> v \<Longrightarrow> v < 256 ^ k \<Longrightarrow> int (be_value (bytes_be k (nat v))) = v"
  using unsigned_back [of v k] by simp

lemma signed_back:
  assumes "0 < k" "- (2 ^ (8 * k - 1)) \<le> v" "v < 2 ^ (8 * k - 1)"
  shows "signed_value k (be_value (bytes_be k (nat (v mod 256 ^ k)))) = v"
proof -
  have p: "(256 :: int) ^ k = 2 * 2 ^ (8 * k - 1)" "(256 :: nat) ^ k = 2 * 2 ^ (8 * k - 1)" "(2 :: int) ^ (8 * k) = 256 ^ k"
    using assms(1) by (simp_all flip: power_Suc add: power_mult)
  have m: "v mod 256 ^ k = (if 0 \<le> v then v else v + 256 ^ k)"
  proof (cases "0 \<le> v")
    case True
    then show ?thesis using assms(3) p(1) by simp
  next
    case False
    then have "(v + 256 ^ k) mod 256 ^ k = v + 256 ^ k"
      using assms(2) p(1) by (intro mod_pos_pos_trivial) linarith+
    then show ?thesis using False by simp
  qed
  have b: "be_value (bytes_be k (nat (v mod 256 ^ k))) = nat (v mod 256 ^ k)"
    by (simp add: be_value_bytes_be nat_less_iff)
  define n where "n = be_value (bytes_be k (nat (v mod 256 ^ k)))"
  have n: "int n = v mod 256 ^ k" by (simp add: n_def b)
  have "n < 2 ^ (8 * k - 1) \<longleftrightarrow> int n < 2 ^ (8 * k - 1)"
    using of_nat_less_iff [of n "2 ^ (8 * k - 1)", where 'a = int] by simp
  then show ?thesis
    unfolding n_def [symmetric] signed_value_def p(3) n using assms(2,3) p(1) m by (auto split: if_splits)
qed

lemma u16_be_bytes: "n < 65536 \<Longrightarrow> bytes_be 2 n = u16_be n"
  by (simp add: u16_be_def numeral_2_eq_2)

lemma u32_be_bytes: "n < 4294967296 \<Longrightarrow> bytes_be 4 n = u32_be n"
proof -
  assume n: "n < 4294967296"
  have d: "n div 256 div 256 = n div 65536" "n div 65536 div 256 = n div 16777216"
    by (simp_all flip: div_mult2_eq)
  have "n div 16777216 mod 256 = n div 16777216" using n by simp
  moreover have "bytes_be (Suc (Suc (Suc (Suc 0)))) n = u32_be n \<longleftrightarrow>
      of_nat (n div 16777216 mod 256) = (of_nat (n div 16777216) :: byte)"
    unfolding bytes_be.simps d u32_be_def by (simp only: append.simps list.inject) simp
  moreover have "(4 :: nat) = Suc (Suc (Suc (Suc 0)))" by simp
  ultimately show ?thesis by (simp only:)
qed

section \<open>Whole positions\<close>

lemma round_nat: "m < 2 ^ 53 \<Longrightarrow> round_num (of_nat m) = js_nat m"
  using fl64_of_int [of "int m"] by (simp add: round_num_def)

lemma num_add_nat: "n + m < 2 ^ 53 \<Longrightarrow> num_add (js_nat n) (js_nat m) = js_nat (n + m)"
  using round_nat [of "n + m"] by simp

text \<open>The cursor is at byte \<open>n\<close> of a view that lies within its buffer.\<close>

definition at_byte :: "nat \<Rightarrow> cursor \<Rightarrow> bool" where
  "at_byte n c \<longleftrightarrow>
     position c = js_nat n \<and> n \<le> byteLength c \<and>
     byteOffset c + byteLength c \<le> length (cur_buffer c) \<and> length (cur_buffer c) + 1 < 2 ^ 53"

definition well_placed :: "cursor \<Rightarrow> bool" where
  "well_placed c \<longleftrightarrow> (\<exists>n. at_byte n c)"

definition move_to :: "nat \<Rightarrow> cursor \<Rightarrow> cursor" where
  "move_to n c = c\<lparr>position := js_nat n\<rparr>"

text \<open>\<open>segment n k c\<close>: the \<open>k\<close> bytes of the view from byte \<open>n\<close>; \<open>poke n bs c\<close>: overwrite there.\<close>

definition segment :: "nat \<Rightarrow> nat \<Rightarrow> cursor \<Rightarrow> bytes" where
  "segment n k c = subarray (cur_buffer c) (byteOffset c + n) (byteOffset c + n + k)"

definition poke :: "nat \<Rightarrow> bytes \<Rightarrow> cursor \<Rightarrow> cursor" where
  "poke n bs c = c\<lparr>cur_buffer := buf_copy bs (cur_buffer c) (byteOffset c + n)\<rparr>"

lemma move_fields [simp]:
  "cur_buffer (move_to n c) = cur_buffer c" "byteOffset (move_to n c) = byteOffset c"
  "byteLength (move_to n c) = byteLength c" "position (move_to n c) = js_nat n"
  "move_to n (move_to m c) = move_to n c"
  by (simp_all add: move_to_def)

lemma poke_fields [simp]:
  "byteOffset (poke n bs c) = byteOffset c" "byteLength (poke n bs c) = byteLength c"
  "position (poke n bs c) = position c" "view_end (poke n bs c) = view_end c"
  "poke n bs (move_to m c) = move_to m (poke n bs c)"
  by (simp_all add: poke_def move_to_def view_end_def)

lemma at_byte_move: "at_byte n c \<Longrightarrow> m \<le> byteLength c \<Longrightarrow> at_byte m (move_to m c)"
  by (simp add: at_byte_def)

lemma length_buf_copy: "off + length bs \<le> length buf \<Longrightarrow> length (buf_copy bs buf off) = length buf"
  by (simp add: buf_copy_def)

lemma at_byte_poke [simp]:
  "at_byte n c \<Longrightarrow> m + length bs \<le> byteLength c \<Longrightarrow> at_byte k (poke m bs c) = at_byte k c"
  by (simp add: at_byte_def poke_def length_buf_copy)

lemma segment_move [simp]: "segment n k (move_to m c) = segment n k c"
  by (simp add: segment_def)

lemma segment_poke:
  "at_byte i c \<Longrightarrow> n + length bs \<le> byteLength c \<Longrightarrow> k = length bs \<Longrightarrow> segment n k (poke n bs c) = bs"
  by (auto simp: segment_def poke_def buf_copy_def subarray_def at_byte_def)

lemma advance_at:
  "at_byte n c \<Longrightarrow> n + k \<le> byteLength c \<Longrightarrow> advance (size_of k) c = (Inr (js_nat n), move_to (n + k) c)"
  by (simp add: advance_def check_def at_byte_def view_end_def move_to_def round_nat flip: of_nat_add)

lemma round_above:
  assumes "m + 1 < 2 ^ 53" "of_nat m + 1 \<le> x"
  shows "num_less (js_nat m) (round_num x)" "round_num x = Fin z \<Longrightarrow> of_nat m + 1 \<le> z"
proof -
  have "fl64 (of_nat m + 1) \<le> fl64 x" by (rule fl64_mono) (rule assms(2))
  moreover have "fl64 (of_nat m + 1) = of_nat m + 1"
    using fl64_of_int [of "int m + 1"] assms(1) by simp
  ultimately have "of_nat m + 1 \<le> fl64 x" by simp
  then show "num_less (js_nat m) (round_num x)" "round_num x = Fin z \<Longrightarrow> of_nat m + 1 \<le> z"
    by (auto simp: round_num_def Let_def split: if_splits)
qed

lemma whole_above: "of_nat m < x \<Longrightarrow> of_int \<lfloor>x\<rfloor> = x \<Longrightarrow> of_nat m + 1 \<le> (x :: rat)"
  by (metis of_int_add of_int_le_iff of_int_less_iff of_int_of_nat_eq of_int_1 zless_imp_add1_zle)

lemma below_round: "m + 1 < 2 ^ 53 \<Longrightarrow> of_nat m < x \<Longrightarrow> of_int \<lfloor>x\<rfloor> = x \<Longrightarrow> num_less (js_nat m) (round_num x)"
  by (intro round_above(1) whole_above)

lemma round_below_0: "of_int \<lfloor>x\<rfloor> = x \<Longrightarrow> x < 0 \<Longrightarrow> num_less (round_num x) (Fin 0)"
proof -
  assume x: "of_int \<lfloor>x\<rfloor> = x" "x < 0"
  have "of_int \<lfloor>- x\<rfloor> = - x" by (metis x(1) floor_of_int of_int_minus)
  then have "num_less (js_nat 0) (round_num (- x))" using x(2) by (intro below_round) simp_all
  then show ?thesis by (auto simp: round_num_def Let_def fl64_minus split: if_splits)
qed

lemma advance_beyond:
  "at_byte n c \<Longrightarrow> byteLength c < n + k \<Longrightarrow>
     advance (size_of k) c = (Inl (bounds_error ''Offset + size exceeds view bounds''), c)"
  using below_round [of "byteLength c" "of_nat (n + k)"]
  by (simp add: advance_def check_def at_byte_def view_end_def flip: of_nat_add)


section \<open>Operations at a whole position\<close>

lemma truncated_of_nat [simp]: "truncated (of_nat n) = int n"
  by (simp add: truncated_def)

lemma to_index_nat: "n < 2 ^ 53 \<Longrightarrow> to_index (js_nat n) = Inr n"
  using of_nat_less_iff [of n "2 ^ 53", where 'a = int] by (simp add: to_index_def)

lemma u8_segment_move [simp]: "u8_segment p l (move_to m c) = u8_segment p l c"
  by (simp add: u8_segment_def)

lemma u8_segment_at:
  "at_byte n c \<Longrightarrow> n + k \<le> byteLength c \<Longrightarrow> u8_segment (js_nat n) (js_nat k) c = Inr (byteOffset c + n, k)"
proof -
  assume "at_byte n c" "n + k \<le> byteLength c"
  then have b: "byteOffset c + n + k \<le> length (cur_buffer c)" "length (cur_buffer c) < 2 ^ 53"
    by (simp_all add: at_byte_def)
  then have "num_add (js_nat (byteOffset c)) (js_nat n) = js_nat (byteOffset c + n)"
    by (intro num_add_nat) linarith
  moreover have "to_index (js_nat (byteOffset c + n)) = Inr (byteOffset c + n)" "to_index (js_nat k) = Inr k"
    using b by (auto intro!: to_index_nat simp del: of_nat_add)
  ultimately show ?thesis using b(1) by (simp add: u8_segment_def del: num_add.simps of_nat_add)
qed

lemma remaining_at: "at_byte n c \<Longrightarrow> num_sub (view_end c) (position c) = js_nat (byteLength c - n)"
  using round_nat [of "byteLength c - n"]
  by (auto simp: num_sub_def at_byte_def view_end_def of_nat_diff)

lemma default_at: "at_byte n c \<Longrightarrow> or_remaining JUndefined c = size_of (byteLength c - n)"
  by (simp add: or_remaining_def remaining_at)

lemma default_given [simp]: "or_remaining (JNumber v) c = JNumber v"
  by (simp add: or_remaining_def)

lemma getBytes_at:
  "at_byte n c \<Longrightarrow> n + k \<le> byteLength c \<Longrightarrow> getBytes (size_of k) c = (Inr (segment n k c), move_to (n + k) c)"
  by (simp add: getBytes_def act_simps advance_at u8_segment_at segment_def)

lemma getBytes_rest:
  "at_byte n c \<Longrightarrow> getBytes JUndefined c = (Inr (segment n (byteLength c - n) c), move_to (byteLength c) c)"
  using getBytes_at [of n c "byteLength c - n"] default_at [of n c]
  by (simp add: getBytes_def at_byte_def)

lemma getString_at:
  "at_byte n c \<Longrightarrow> n + k \<le> byteLength c \<Longrightarrow>
     getString (size_of k) c = (Inr (text_decode (segment n k c)), move_to (n + k) c)"
  by (simp add: getString_def act_simps advance_at u8_segment_at segment_def)

lemma poke_at_end:
  "(move_to m c)\<lparr>cur_buffer := buf_copy b (cur_buffer c) (byteOffset c + n)\<rparr> = move_to m (poke n b c)"
  by (simp add: poke_def move_to_def)

lemma writeBytes_at:
  "at_byte n c \<Longrightarrow> n + length b \<le> byteLength c \<Longrightarrow>
     writeBytes (JUint8Array b) c = (Inr (), move_to (n + length b) (poke n b c))"
  by (simp add: Let_def writeBytes_def is_uint8_array_def act_simps advance_at u8_segment_at poke_at_end)

lemma view_get_at:
  "at_byte n c \<Longrightarrow> n + k \<le> byteLength c \<Longrightarrow>
     view_get k le (js_nat n) (move_to m c) =
       (Inr (be_value (in_order (le = JBool True) (segment n k c))), move_to m c)"
  unfolding view_get_def at_byte_def
  by (subst to_index_nat) (auto simp: segment_def)

lemma view_set_at:
  "at_byte n c \<Longrightarrow> n + k \<le> byteLength c \<Longrightarrow>
     view_set k (js_nat n) v le (move_to m c) =
       (Inr (), move_to m (poke n (in_order (le = JBool True) (bytes_be k (nat (v mod 2 ^ (8 * k))))) c))"
  unfolding view_set_def at_byte_def
  by (subst to_index_nat) (auto simp: poke_def move_to_def)

lemmas at_steps = act_simps advance_at getBytes_at getString_at writeBytes_at view_get_at view_set_at

section \<open>The laws of a writer and its reader\<close>

text \<open>
  One kind of numbers: \<open>put\<close> and \<open>get\<close> take the little-endian flag; \<open>repr\<close> is the big-endian
  representation of a valid value, and \<open>kept\<close> what a reader makes of it (the value itself,
  or what is left of it in a narrower format).
\<close>

locale cursor_number =
  fixes put :: "'v \<Rightarrow> jsval \<Rightarrow> (cursor, unit) comp"
    and get :: "jsval \<Rightarrow> (cursor, 'v) comp"
    and width :: nat
    and valid :: "'v \<Rightarrow> bool"
    and repr :: "'v \<Rightarrow> bytes"
    and kept :: "'v \<Rightarrow> 'v"
    and swaps :: "jsval \<Rightarrow> bool"
  assumes length_repr: "valid v \<Longrightarrow> length (repr v) = width"
    and put_at: "valid v \<Longrightarrow> at_byte n c \<Longrightarrow> n + width \<le> byteLength c \<Longrightarrow>
      put v le c = (Inr (), move_to (n + width) (poke n (in_order (swaps le) (repr v)) c))"
    and get_at: "valid v \<Longrightarrow> at_byte n c \<Longrightarrow> n + width \<le> byteLength c \<Longrightarrow>
      in_order (swaps le) (segment n width c) = repr v \<Longrightarrow> get le c = (Inr (kept v), move_to (n + width) c)"
    and put_full: "at_byte n c \<Longrightarrow> byteLength c < n + width \<Longrightarrow> \<exists>e. put v le c = (Inl e, c)"
    and get_full: "at_byte n c \<Longrightarrow> byteLength c < n + width \<Longrightarrow> \<exists>e. get le c = (Inl e, c)"
    and put_invalid: "\<not> valid v \<Longrightarrow> \<exists>e. put v le c = (Inl e, c)"
begin

lemma reads_back:
  assumes "valid v" "at_byte n c" "n + width \<le> byteLength c"
  shows "\<exists>c'. put v le c = (Inr (), c') \<and> get le (move_to n c') = (Inr (kept v), c')"
proof -
  let ?c = "move_to n (poke n (in_order (swaps le) (repr v)) c)"
  have "at_byte n ?c" using assms by (simp add: length_repr at_byte_def poke_def length_buf_copy)
  moreover have "segment n width ?c = in_order (swaps le) (repr v)"
    using assms by (simp add: length_repr segment_poke)
  ultimately have "get le ?c = (Inr (kept v), move_to (n + width) ?c)"
    using assms(1,3) by (intro get_at) simp_all
  then show ?thesis using put_at [OF assms, of le] by simp
qed

lemma put_outcomes:
  assumes "at_byte n c"
  shows "(\<exists>e. put v le c = (Inl e, c)) \<or>
    (valid v \<and> n + width \<le> byteLength c \<and>
     put v le c = (Inr (), move_to (n + width) (poke n (in_order (swaps le) (repr v)) c)))"
  using put_at [OF _ assms] put_full [OF assms] put_invalid by (cases "valid v"; cases "n + width \<le> byteLength c") force+

end

text \<open>The values a writer accepts, and their representation.\<close>

definition valid_int :: "int \<Rightarrow> int \<Rightarrow> jsval \<Rightarrow> bool" where
  "valid_int mn mx v =
     (case v of JNumber n \<Rightarrow> is_integer_num n \<and> num_leq (Fin (of_int mn)) n \<and> num_leq n (Fin (of_int mx)) | _ \<Rightarrow> False)"

definition valid_bigint :: "int \<Rightarrow> int \<Rightarrow> jsval \<Rightarrow> bool" where
  "valid_bigint mn mx v = (case v of JBigInt n \<Rightarrow> mn \<le> n \<and> n \<le> mx | _ \<Rightarrow> False)"

definition int_repr :: "nat \<Rightarrow> jsval \<Rightarrow> bytes" where
  "int_repr k v = bytes_be k (nat (whole v mod 2 ^ (8 * k)))"

lemma valid_intE:
  assumes "valid_int mn mx v"
  obtains n where "v = int_num n" "mn \<le> n" "n \<le> mx"
proof (cases v)
  case (JNumber w)
  show ?thesis
  proof (cases w)
    case (Fin x)
    with JNumber assms have x: "of_int \<lfloor>x\<rfloor> = x" "of_int mn \<le> x" "x \<le> of_int mx"
      by (auto simp: valid_int_def num_leq_def)
    then have "mn \<le> \<lfloor>x\<rfloor>" "\<lfloor>x\<rfloor> \<le> mx" by (simp_all add: le_floor_iff floor_le_iff)
    moreover have "v = int_num \<lfloor>x\<rfloor>" unfolding int_num_def x(1) by (simp only: JNumber Fin)
    ultimately show ?thesis by (rule that [rotated])
  qed (use JNumber assms in \<open>simp_all add: valid_int_def\<close>)
qed (use assms in \<open>simp_all add: valid_int_def\<close>)

lemma valid_bigintE:
  assumes "valid_bigint mn mx v"
  obtains n where "v = JBigInt n" "mn \<le> n" "n \<le> mx"
  using assms by (cases v) (auto simp: valid_bigint_def)

lemma assert_integer_ok: "assert_integer v mn mx name = Inr () \<longleftrightarrow> valid_int mn mx v"
proof (cases v)
  case (JNumber w)
  then show ?thesis by (cases w) (auto simp: assert_integer_def valid_int_def num_leq_def not_less)
qed (simp_all add: assert_integer_def valid_int_def)

lemma assert_bigint_ok: "assert_bigint v mn mx name = Inr () \<longleftrightarrow> valid_bigint mn mx v"
  by (cases v) (auto simp: assert_bigint_def valid_bigint_def)

lemma whole_int_num [simp]: "whole (int_num n) = n"
  by (simp add: int_num_def)

lemma length_int_repr [simp]: "length (int_repr k v) = k"
  by (simp add: int_repr_def)

text \<open>The common shape of the writers and readers, once for all widths.\<close>

lemma put_shape:
  assumes "at_byte n c"
  shows "n + k \<le> byteLength c \<Longrightarrow>
      bindS (liftS (Inr ())) (\<lambda>_. bindS (advance (size_of k)) (\<lambda>pos. view_set k pos z le)) c
        = (Inr (), move_to (n + k) (poke n (in_order (le = JBool True) (bytes_be k (nat (z mod 2 ^ (8 * k))))) c))"
    and "byteLength c < n + k \<Longrightarrow>
      \<exists>e. bindS (liftS a) (\<lambda>_. bindS (advance (size_of k)) (\<lambda>pos. view_set k pos z le)) c = (Inl e, c)"
  using assms by (cases a; simp add: at_steps advance_beyond)+

lemma put_rejects: "a \<noteq> Inr () \<Longrightarrow> \<exists>e. bindS (liftS a) f c = (Inl e, c)"
  by (cases a) (simp_all add: act_simps)

lemma get_shape:
  assumes "at_byte n c"
  shows "n + k \<le> byteLength c \<Longrightarrow>
      bindS (advance (size_of k)) (\<lambda>pos. bindS (view_get k le pos) (\<lambda>x. ret (f x))) c
        = (Inr (f (be_value (in_order (le = JBool True) (segment n k c)))), move_to (n + k) c)"
    and "byteLength c < n + k \<Longrightarrow>
      \<exists>e. bindS (advance (size_of k)) (\<lambda>pos. bindS (view_get k le pos) (\<lambda>x. ret (f x))) c = (Inl e, c)"
  using assms by (simp_all add: at_steps advance_beyond)

lemma power_256: "(2 :: int) ^ (8 * k) = 256 ^ k"
  by (simp add: power_mult)

lemma unsigned_repr: "valid_int 0 mx v \<Longrightarrow> mx < 256 ^ k \<Longrightarrow> int_num (int (be_value (int_repr k v))) = v"
  by (erule valid_intE) (simp add: int_repr_def power_256 unsigned_back')

lemma signed_repr:
  "valid_int mn mx v \<Longrightarrow> - (2 ^ (8 * k - 1)) \<le> mn \<Longrightarrow> mx < 2 ^ (8 * k - 1) \<Longrightarrow> 0 < k \<Longrightarrow>
     int_num (signed_value k (be_value (int_repr k v))) = v"
  by (erule valid_intE) (simp add: int_repr_def power_256 signed_back)

lemma unsigned_big_repr: "valid_bigint 0 mx v \<Longrightarrow> mx < 256 ^ k \<Longrightarrow> JBigInt (int (be_value (int_repr k v))) = v"
  by (erule valid_bigintE) (simp add: int_repr_def power_256 unsigned_back')

lemma signed_big_repr:
  "valid_bigint mn mx v \<Longrightarrow> - (2 ^ (8 * k - 1)) \<le> mn \<Longrightarrow> mx < 2 ^ (8 * k - 1) \<Longrightarrow> 0 < k \<Longrightarrow>
     JBigInt (signed_value k (be_value (int_repr k v))) = v"
  by (erule valid_bigintE) (simp add: int_repr_def power_256 signed_back)

end
