(* ===== verification/Cursor_Fields.thy ===== *)
theory Cursor_Fields
  imports Cursor_Facts
begin

text \<open>
  The byte cursor at work: all number kinds obey the laws of \<open>cursor_number\<close>; a sequence of
  fields of any kinds is read back as it was written; every run of operations with whole
  arguments stays in the view.
\<close>

section \<open>The integer kinds\<close>

datatype int_kind = Uint8 | Int8 | Uint16 | Int16 | Uint32 | Int32 | BigInt64 | BigUint64

fun put_int :: "int_kind \<Rightarrow> jsval \<Rightarrow> jsval \<Rightarrow> (cursor, unit) comp" where
  "put_int Uint8 v le = writeUint8 v"
| "put_int Int8 v le = writeInt8 v"
| "put_int Uint16 v le = writeUint16 v le"
| "put_int Int16 v le = writeInt16 v le"
| "put_int Uint32 v le = writeUint32 v le"
| "put_int Int32 v le = writeInt32 v le"
| "put_int BigInt64 v le = writeBigInt64 v le"
| "put_int BigUint64 v le = writeBigUint64 v le"

fun get_int :: "int_kind \<Rightarrow> jsval \<Rightarrow> (cursor, jsval) comp" where
  "get_int Uint8 le = getUint8"
| "get_int Int8 le = getInt8"
| "get_int Uint16 le = getUint16 le"
| "get_int Int16 le = getInt16 le"
| "get_int Uint32 le = getUint32 le"
| "get_int Int32 le = getInt32 le"
| "get_int BigInt64 le = getBigInt64 le"
| "get_int BigUint64 le = getBigUint64 le"

fun width_of :: "int_kind \<Rightarrow> nat" where
  "width_of Uint8 = 1" | "width_of Int8 = 1" | "width_of Uint16 = 2" | "width_of Int16 = 2"
| "width_of Uint32 = 4" | "width_of Int32 = 4" | "width_of BigInt64 = 8" | "width_of BigUint64 = 8"

fun valid_of :: "int_kind \<Rightarrow> jsval \<Rightarrow> bool" where
  "valid_of Uint8 = valid_int 0 255"
| "valid_of Int8 = valid_int (- 128) 127"
| "valid_of Uint16 = valid_int 0 65535"
| "valid_of Int16 = valid_int (- 32768) 32767"
| "valid_of Uint32 = valid_int 0 4294967295"
| "valid_of Int32 = valid_int (- 2147483648) 2147483647"
| "valid_of BigInt64 = valid_bigint (- 9223372036854775808) 9223372036854775807"
| "valid_of BigUint64 = valid_bigint 0 18446744073709551615"

text \<open>The one-byte kinds have no byte order.\<close>

fun swaps_of :: "int_kind \<Rightarrow> jsval \<Rightarrow> bool" where
  "swaps_of Uint8 le = False"
| "swaps_of Int8 le = False"
| "swaps_of k le = (le = JBool True)"

lemma cursor_number_of:
  assumes put: "\<And>v le. put v le = bindS (liftS (a v)) (\<lambda>_. bindS (advance (size_of k)) (\<lambda>pos. view_set k pos (z v) (flag le)))"
    and get: "\<And>le. get le = bindS (advance (size_of k)) (\<lambda>pos. bindS (view_get k (flag le) pos) (\<lambda>n. ret (f n)))"
    and ok: "\<And>v. a v = Inr () \<longleftrightarrow> valid v"
    and repr: "\<And>v. repr v = bytes_be k (nat (z v mod 2 ^ (8 * k)))"
    and read: "\<And>v. valid v \<Longrightarrow> f (be_value (repr v)) = kept v"
    and sw: "\<And>le. swaps le \<longleftrightarrow> flag le = JBool True"
  shows "cursor_number put get k valid repr kept swaps"
proof
  fix v n c le
  assume at: "at_byte n c"
  show "valid v \<Longrightarrow> n + k \<le> byteLength c \<Longrightarrow>
      put v le c = (Inr (), move_to (n + k) (poke n (in_order (swaps le) (repr v)) c))"
    using put_shape(1) [OF at] ok [of v] by (simp add: put sw repr)
  show "\<exists>e. put v le c = (Inl e, c)" if "byteLength c < n + k"
    unfolding put by (rule put_shape(2) [OF at that])
  show "\<exists>e. get le c = (Inl e, c)" if "byteLength c < n + k"
    unfolding get by (rule get_shape(2) [OF at that])
  show "valid v \<Longrightarrow> n + k \<le> byteLength c \<Longrightarrow> in_order (swaps le) (segment n k c) = repr v \<Longrightarrow>
      get le c = (Inr (kept v), move_to (n + k) c)"
    by (simp add: get sw get_shape(1) [OF at] read)
next
  show "\<exists>e. put v le c = (Inl e, c)" if "\<not> valid v" for v le c
    unfolding put using ok that by (intro put_rejects) blast
qed (simp add: repr)

lemmas writer_defs = writeUint8_def writeInt8_def writeUint16_def writeInt16_def writeUint32_def
  writeInt32_def writeBigInt64_def writeBigUint64_def
lemmas reader_defs = getUint8_def getInt8_def getUint16_def getInt16_def getUint32_def
  getInt32_def getBigInt64_def getBigUint64_def

lemma kind_laws:
  "cursor_number (put_int k) (get_int k) (width_of k) (valid_of k) (int_repr (width_of k)) (\<lambda>v. v) (swaps_of k)"
proof (cases k)
  case Uint8
  show ?thesis unfolding Uint8 valid_of.simps width_of.simps
    by (rule cursor_number_of [OF _ _ assert_integer_ok int_repr_def, where flag = "\<lambda>_. JUndefined"])
      (simp_all add: writer_defs reader_defs del: One_nat_def, erule unsigned_repr, simp_all)
next
  case Int8
  show ?thesis unfolding Int8 valid_of.simps width_of.simps
    by (rule cursor_number_of [OF _ _ assert_integer_ok int_repr_def, where flag = "\<lambda>_. JUndefined"])
      (simp_all add: writer_defs reader_defs del: One_nat_def, erule signed_repr, simp_all)
next
  case Uint16
  show ?thesis unfolding Uint16 valid_of.simps width_of.simps
    by (rule cursor_number_of [OF _ _ assert_integer_ok int_repr_def, where flag = "\<lambda>le. le"])
      (simp_all add: writer_defs reader_defs del: One_nat_def, erule unsigned_repr, simp_all)
next
  case Int16
  show ?thesis unfolding Int16 valid_of.simps width_of.simps
    by (rule cursor_number_of [OF _ _ assert_integer_ok int_repr_def, where flag = "\<lambda>le. le"])
      (simp_all add: writer_defs reader_defs del: One_nat_def, erule signed_repr, simp_all)
next
  case Uint32
  show ?thesis unfolding Uint32 valid_of.simps width_of.simps
    by (rule cursor_number_of [OF _ _ assert_integer_ok int_repr_def, where flag = "\<lambda>le. le"])
      (simp_all add: writer_defs reader_defs del: One_nat_def, erule unsigned_repr, simp_all)
next
  case Int32
  show ?thesis unfolding Int32 valid_of.simps width_of.simps
    by (rule cursor_number_of [OF _ _ assert_integer_ok int_repr_def, where flag = "\<lambda>le. le"])
      (simp_all add: writer_defs reader_defs del: One_nat_def, erule signed_repr, simp_all)
next
  case BigInt64
  show ?thesis unfolding BigInt64 valid_of.simps width_of.simps
    by (rule cursor_number_of [OF _ _ assert_bigint_ok int_repr_def, where flag = "\<lambda>le. le"])
      (simp_all add: writer_defs reader_defs del: One_nat_def, erule signed_big_repr, simp_all)
next
  case BigUint64
  show ?thesis unfolding BigUint64 valid_of.simps width_of.simps
    by (rule cursor_number_of [OF _ _ assert_bigint_ok int_repr_def, where flag = "\<lambda>le. le"])
      (simp_all add: writer_defs reader_defs del: One_nat_def, erule unsigned_big_repr, simp_all)
qed

interpretation kind: cursor_number "put_int k" "get_int k" "width_of k" "valid_of k"
  "int_repr (width_of k)" "\<lambda>v. v" "swaps_of k" for k
  by (rule kind_laws)

section \<open>The floating point kinds\<close>

datatype float_kind = Float32 | Float64

fun put_float :: "float_kind \<Rightarrow> js_any \<Rightarrow> jsval \<Rightarrow> (cursor, unit) comp" where
  "put_float Float32 v le = writeFloat32 v le"
| "put_float Float64 v le = writeFloat64 v le"

fun get_float :: "float_kind \<Rightarrow> jsval \<Rightarrow> (cursor, js_any) comp" where
  "get_float Float32 le = getFloat32 le"
| "get_float Float64 le = getFloat64 le"

fun float_format :: "float_kind \<Rightarrow> nat \<times> nat" where
  "float_format Float32 = (8, 23)"
| "float_format Float64 = (11, 52)"

fun float_width :: "float_kind \<Rightarrow> nat" where
  "float_width Float32 = 4" | "float_width Float64 = 8"

definition float_repr :: "float_kind \<Rightarrow> js_any \<Rightarrow> bytes" where
  "float_repr k v = (case float_format k of (w, m) \<Rightarrow> bytes_be (float_width k) (float_bits w m v))"

text \<open>\<open>fround k v\<close>: the nearest number of the format (\<^verbatim>\<open>Math.fround\<close> for binary32).\<close>

definition fround :: "float_kind \<Rightarrow> js_any \<Rightarrow> js_any" where
  "fround k v = (case float_format k of (w, m) \<Rightarrow> to_format w m v)"

lemma float_small:
  assumes "a_format w m" "8 * k = w + m + 1"
  shows "float_bits w m v < 256 ^ k" "int (float_bits w m v) mod 2 ^ (8 * k) = int (float_bits w m v)"
proof -
  have b: "float_bits w m v < 2 ^ (8 * k)" using float_bits_less [OF assms(1)] by (simp only: assms(2))
  then show "float_bits w m v < 256 ^ k" by (simp add: power_mult)
  from b have "int (float_bits w m v) < 2 ^ (8 * k)" by (metis of_nat_less_iff of_nat_numeral of_nat_power)
  then show "int (float_bits w m v) mod 2 ^ (8 * k) = int (float_bits w m v)" by simp
qed

lemma float_laws:
  assumes "float_format k = (w, m)" "a_format w m" "8 * float_width k = w + m + 1"
    and "\<And>v le. put_float k v le = bindS (liftS (if any_number v then Inr () else Inl (e v)))
      (\<lambda>_. bindS (advance (size_of (float_width k))) (\<lambda>pos. view_set (float_width k) pos (int (float_bits w m v)) le))"
    and "\<And>le. get_float k le = bindS (advance (size_of (float_width k)))
      (\<lambda>pos. bindS (view_get (float_width k) le pos) (\<lambda>n. ret (float_value w m n)))"
  shows "cursor_number (put_float k) (get_float k) (float_width k) any_number (float_repr k) (fround k) (\<lambda>le. le = JBool True)"
  by (rule cursor_number_of [OF assms(4,5), where flag = "\<lambda>le. le"])
    (use assms(1,2) float_small [OF assms(2,3)] in
      \<open>simp_all add: float_repr_def fround_def be_value_bytes_be float_back\<close>)

interpretation float: cursor_number "put_float k" "get_float k" "float_width k" any_number "float_repr k"
  "fround k" "\<lambda>le. le = JBool True" for k
proof (cases k)
  case Float32
  show "cursor_number (put_float k) (get_float k) (float_width k) any_number (float_repr k) (fround k) (\<lambda>le. le = JBool True)"
    unfolding Float32 by (rule float_laws [of _ 8 23]) (simp_all add: a_format_def writeFloat32_def getFloat32_def)
next
  case Float64
  show "cursor_number (put_float k) (get_float k) (float_width k) any_number (float_repr k) (fround k) (\<lambda>le. le = JBool True)"
    unfolding Float64 by (rule float_laws [of _ 11 52]) (simp_all add: a_format_def writeFloat64_def getFloat64_def)
qed

lemma fround_64: "proper_number v \<Longrightarrow> fround Float64 v = v"
  by (simp add: fround_def to_format_64)


section \<open>Strings\<close>

text \<open>The strings that survive: no lone surrogate, no leading byte order mark.\<close>

definition plain_text :: "js_string \<Rightarrow> bool" where
  "plain_text s \<longleftrightarrow> well_formed s \<and> take 1 s \<noteq> [65279]"

lemma bom_unit: "unat (u :: 16 word) = 65279 \<Longrightarrow> u = 65279"
  by (simp add: word_unat_eq_iff)

lemma first_scalar: "scalars s = 65279 # cs \<Longrightarrow> take 1 s = [65279]"
proof (cases s rule: scalars.cases)
  case (2 u)
  assume "scalars s = 65279 # cs"
  then have "unat u = 65279" using 2 by (simp add: repl_char_def split: if_splits)
  then show ?thesis using 2 bom_unit by simp
next
  case (3 u v us)
  assume "scalars s = 65279 # cs"
  then have "unat u = 65279" using 3 by (simp add: repl_char_def is_high_def is_low_def split: if_splits)
  then show ?thesis using 3 bom_unit by simp
qed simp

lemma bom_bytes:
  assumes "is_scalar c" "take 3 (enc_scalar c @ bs) = [239, 187, 191]" shows "c = 65279"
proof -
  have small: "c < 1114112" using assms(1) by (auto simp: is_scalar_def)
  have byte: "of_nat n = (of_nat m :: byte) \<longleftrightarrow> n = m" if "n < 256" "m < 256" for n m
    using that by (metis unat_of_nat_u8)
  have "take 3 xs = [x, y, z] \<Longrightarrow> xs = x # y # z # drop 3 xs" for xs :: bytes and x y z
    by (metis append_Cons append_Nil append_take_drop_id)
  then obtain b where b: "enc_scalar c @ bs = of_nat 239 # of_nat 187 # of_nat 191 # b"
    using assms(2) by fastforce
  consider "c < 128" | "128 \<le> c" "c < 2048" | "2048 \<le> c" "c < 65536" | "65536 \<le> c" by linarith
  then show ?thesis
  proof cases
    case 1
    then show ?thesis using b byte [of c 239] by (simp add: enc_scalar_def)
  next
    case 2
    then have "c div 64 < 32" by (simp add: less_mult_imp_div_less)
    then show ?thesis using 2 b byte [of "192 + c div 64" 239] by (simp add: enc_scalar_def)
  next
    case 3
    then have d: "c div 4096 < 16" by (simp add: less_mult_imp_div_less)
    have e: "of_nat (224 + c div 4096) = (of_nat 239 :: byte)" "of_nat (128 + c div 64 mod 64) = (of_nat 187 :: byte)"
      "of_nat (128 + c mod 64) = (of_nat 191 :: byte)"
      using b 3 by (simp_all add: enc_scalar_def)
    have "c div 64 mod 64 < 64" "c mod 64 < 64" by simp_all
    then have "224 + c div 4096 = 239" "128 + c div 64 mod 64 = 187" "128 + c mod 64 = 191"
      using byte [THEN iffD1, OF _ _ e(1)] byte [THEN iffD1, OF _ _ e(2)] byte [THEN iffD1, OF _ _ e(3)] d
      by linarith+
    then show ?thesis using recombine_3 [of c] by simp
  next
    case 4
    have "c div 262144 < 5" using small by (simp add: less_mult_imp_div_less)
    then show ?thesis using 4 b small byte [of "240 + c div 262144" 239] by (simp add: enc_scalar_def)
  qed
qed

text \<open>
  What decoding makes of any encoded string: one leading byte order mark is cut off, and each
  lone surrogate has become U+FFFD.
\<close>

definition text_back :: "js_string \<Rightarrow> js_string" where
  "text_back s = to_well_formed (if take 1 s = [65279] then drop 1 s else s)"

lemma encoded_bom:
  assumes "take 3 (utf8_encode s) = [239, 187, 191]"
  shows "take 1 s = [65279]"
proof -
  obtain c cs where c: "scalars s = c # cs" using assms by (cases "scalars s") (simp_all add: utf8_encode_def)
  then have "is_scalar c" using scalars_are_scalar [of c s] by simp
  moreover have "take 3 (enc_scalar c @ concat (map enc_scalar cs)) = [239, 187, 191]"
    using assms c by (simp add: utf8_encode_def)
  ultimately have "c = 65279" by (rule bom_bytes)
  then show ?thesis using first_scalar c by blast
qed

lemma encode_bom: "utf8_encode (65279 # s) = [239, 187, 191] @ utf8_encode s"
proof -
  have "scalars (65279 # s) = 65279 # scalars s" by (cases s) (simp_all add: is_high_def is_low_def)
  then show ?thesis by (simp add: utf8_encode_def enc_scalar_def)
qed

lemma text_decode_encode: "text_decode (utf8_encode s) = text_back s"
proof (cases "take 1 s = [65279]")
  case True
  then obtain t where "s = 65279 # t" by (cases s) simp_all
  then show ?thesis by (simp add: text_decode_def text_back_def encode_bom utf8_decode_encode)
next
  case False
  then show ?thesis using encoded_bom [of s] by (auto simp: text_decode_def text_back_def utf8_decode_encode)
qed

lemma text_back_plain: "plain_text s \<Longrightarrow> text_back s = s"
  by (simp add: text_back_def plain_text_def to_well_formed_id)

lemma text_roundtrip: "plain_text s \<Longrightarrow> text_decode (utf8_encode s) = s"
  by (simp add: text_decode_encode text_back_plain)

lemma length_units_scalars: "length (concat (map units (scalars s))) = length s"
proof (induction s rule: scalars.induct)
  case (3 u v us)
  have "\<not> 65536 \<le> unat w" for w :: "16 word" by (simp add: not_le)
  then show ?case using 3 by (auto simp: units_def repl_char_def)
qed (auto simp: units_def repl_char_def)

lemma length_units_pos: "0 < length (units c)"
  by (simp add: units_def)

lemma encode_into_fits:
  "length (concat (map enc_scalar ss)) \<le> m \<Longrightarrow>
     encode_into ss m = (length (concat (map units ss)), concat (map enc_scalar ss))"
  by (induction ss arbitrary: m) (auto simp: Let_def)

lemma encode_into_short:
  "m < length (concat (map enc_scalar ss)) \<Longrightarrow>
     fst (encode_into ss m) < length (concat (map units ss)) \<and> length (snd (encode_into ss m)) \<le> m"
proof (induction ss arbitrary: m)
  case (Cons s ss)
  show ?case
  proof (cases "m < length (enc_scalar s)")
    case True
    then show ?thesis using length_units_pos [of s] by simp
  next
    case False
    then have "m - length (enc_scalar s) < length (concat (map enc_scalar ss))" using Cons.prems by simp
    from Cons.IH [OF this] show ?thesis using False by (auto simp: Let_def split: prod.split)
  qed
qed simp

lemma poke_set: "c\<lparr>cur_buffer := buf_copy b (cur_buffer c) (byteOffset c + n)\<rparr> = poke n b c"
  by (simp add: poke_def)

lemma u8_segment_rest:
  "at_byte n c \<Longrightarrow>
     u8_segment (position c) (num_sub (view_end c) (position c)) c = Inr (byteOffset c + n, byteLength c - n)"
  using u8_segment_at [of n c "byteLength c - n"] remaining_at [of n c] by (simp add: at_byte_def)

lemma writeString_at:
  assumes "at_byte n c" "n + length (utf8_encode s) \<le> byteLength c"
  shows "writeString has (JString s) c =
    (Inr (), move_to (n + length (utf8_encode s)) (poke n (utf8_encode s) c))"
proof (cases has)
  case True
  have "encode_into (scalars s) (byteLength c - n) = (length s, utf8_encode s)"
    using assms encode_into_fits [of "scalars s" "byteLength c - n"] length_units_scalars [of s]
    by (simp add: utf8_encode_def)
  moreover have "at_byte n (poke n (utf8_encode s) c)" using assms by simp
  ultimately show ?thesis
    using True assms by (simp add: writeString_def u8_segment_rest poke_set at_steps)
next
  case False
  then show ?thesis using assms by (simp add: writeString_def writeBytes_at)
qed

lemma writeString_short:
  assumes "at_byte n c" "byteLength c < n + length (utf8_encode s)"
  shows "writeString False (JString s) c = (Inl (bounds_error ''Offset + size exceeds view bounds''), c)"
    and "\<exists>w. n + length w \<le> byteLength c \<and>
      writeString True (JString s) c = (Inl (bounds_error ''Offset + size exceeds view bounds''), poke n w c)"
proof -
  show "writeString False (JString s) c = (Inl (bounds_error ''Offset + size exceeds view bounds''), c)"
    using assms by (simp add: writeString_def writeBytes_def is_uint8_array_def Let_def act_simps advance_beyond)
  have n: "n \<le> byteLength c" using assms(1) by (simp add: at_byte_def)
  obtain r w where rw: "encode_into (scalars s) (byteLength c - n) = (r, w)" by (cases "encode_into (scalars s) (byteLength c - n)")
  moreover have "byteLength c - n < length (concat (map enc_scalar (scalars s)))"
    using assms(2) n by (simp add: utf8_encode_def)
  ultimately have "r < length s" "length w \<le> byteLength c - n"
    using encode_into_short [of "byteLength c - n" "scalars s"] length_units_scalars [of s] by auto
  then show "\<exists>w. n + length w \<le> byteLength c \<and>
      writeString True (JString s) c = (Inl (bounds_error ''Offset + size exceeds view bounds''), poke n w c)"
    using rw assms(1) n by (intro exI [of _ w]) (simp add: writeString_def u8_segment_rest poke_set)
qed

section \<open>Fields of any kinds, one after another\<close>

datatype field = Number int_kind jsval jsval | Float float_kind js_any jsval | Text js_string | Raw bytes

fun write_field :: "bool \<Rightarrow> field \<Rightarrow> (cursor, unit) comp" where
  "write_field has (Number k v le) = put_int k v le"
| "write_field has (Float k v le) = put_float k v le"
| "write_field has (Text s) = writeString has (JString s)"
| "write_field has (Raw b) = writeBytes (JUint8Array b)"

fun read_field :: "field \<Rightarrow> (cursor, js_any) comp" where
  "read_field (Number k v le) = bindS (get_int k le) (\<lambda>v. ret (Value v))"
| "read_field (Float k v le) = get_float k le"
| "read_field (Text s) = bindS (getString (size_of (length (utf8_encode s)))) (\<lambda>s. ret (Value (JString s)))"
| "read_field (Raw b) = bindS (getBytes (size_of (length b))) (\<lambda>b. ret (Value (JUint8Array b)))"

primrec write_fields :: "bool \<Rightarrow> field list \<Rightarrow> (cursor, unit) comp" where
  "write_fields has [] = ret ()"
| "write_fields has (f # fs) = bindS (write_field has f) (\<lambda>_. write_fields has fs)"

primrec read_fields :: "field list \<Rightarrow> (cursor, js_any list) comp" where
  "read_fields [] = ret []"
| "read_fields (f # fs) = bindS (read_field f) (\<lambda>v. bindS (read_fields fs) (\<lambda>vs. ret (v # vs)))"

fun field_ok :: "field \<Rightarrow> bool" where
  "field_ok (Number k v le) = valid_of k v"
| "field_ok (Float k v le) = proper_number v"
| "field_ok (Text s) = True"
| "field_ok (Raw b) = True"

fun field_bytes :: "field \<Rightarrow> bytes" where
  "field_bytes (Number k v le) = in_order (swaps_of k le) (int_repr (width_of k) v)"
| "field_bytes (Float k v le) = in_order (le = JBool True) (float_repr k v)"
| "field_bytes (Text s) = utf8_encode s"
| "field_bytes (Raw b) = b"

text \<open>
  What is read back: the value; of a binary32 field what that format keeps of it, of a string
  what UTF-8 and the decoder keep.
\<close>

fun field_value :: "field \<Rightarrow> js_any" where
  "field_value (Number k v le) = Value v"
| "field_value (Float Float32 v le) = fround Float32 v"
| "field_value (Float Float64 v le) = v"
| "field_value (Text s) = Value (JString (text_back s))"
| "field_value (Raw b) = Value (JUint8Array b)"

definition all_bytes :: "field list \<Rightarrow> bytes" where
  "all_bytes fs = concat (map field_bytes fs)"

lemma poke_poke:
  "n + length (a @ b) \<le> byteLength c \<Longrightarrow> at_byte k c \<Longrightarrow> poke (n + length a) b (poke n a c) = poke n (a @ b) c"
  by (auto simp: poke_def buf_copy_def at_byte_def add.commute add.left_commute)

lemma poke_nothing: "at_byte k c \<Longrightarrow> n \<le> byteLength c \<Longrightarrow> poke n [] c = c"
  by (simp add: poke_def buf_copy_def)

lemma proper_is_number: "proper_number v \<Longrightarrow> any_number v"
  by (cases v rule: proper_number.cases) simp_all

lemma fround_value: "proper_number v \<Longrightarrow> fround k v = field_value (Float k v le)"
  by (cases k) (simp_all add: fround_64)

lemma write_field_at:
  assumes "field_ok f" "at_byte n c" "n + length (field_bytes f) \<le> byteLength c"
  shows "write_field has f c = (Inr (), move_to (n + length (field_bytes f)) (poke n (field_bytes f) c))"
  using assms by (cases f)
    (simp_all add: kind.put_at float.put_at float.length_repr proper_is_number writeString_at writeBytes_at)

lemma move_here: "at_byte n c \<Longrightarrow> move_to n c = c"
  by (simp add: move_to_def at_byte_def)

lemma write_fields_at:
  "list_all field_ok fs \<Longrightarrow> at_byte n c \<Longrightarrow> n + length (all_bytes fs) \<le> byteLength c \<Longrightarrow>
     write_fields has fs c = (Inr (), move_to (n + length (all_bytes fs)) (poke n (all_bytes fs) c))"
proof (induction fs arbitrary: n c)
  case Nil
  then show ?case by (simp add: all_bytes_def act_simps poke_nothing move_here)
next
  case (Cons f fs)
  let ?b = "field_bytes f"
  let ?c = "move_to (n + length ?b) (poke n ?b c)"
  have len: "n + length ?b + length (all_bytes fs) \<le> byteLength c"
    using Cons.prems(3) by (simp add: all_bytes_def)
  then have at: "at_byte (n + length ?b) ?c"
    using Cons.prems(2) by (simp add: at_byte_def poke_def length_buf_copy)
  have "write_fields has fs ?c =
      (Inr (), move_to (n + length ?b + length (all_bytes fs)) (poke (n + length ?b) (all_bytes fs) ?c))"
    using Cons.prems(1) at len by (intro Cons.IH) simp_all
  moreover have "poke (n + length ?b) (all_bytes fs) (poke n ?b c) = poke n (?b @ all_bytes fs) c"
    using len Cons.prems(2) by (intro poke_poke) simp_all
  ultimately show ?case
    using Cons.prems len write_field_at [of f n c has] by (simp add: act_simps all_bytes_def add.assoc)
qed

lemma segment_append: "segment n (j + k) c = segment n j c @ segment (n + j) k c"
  by (simp add: segment_def subarray_def take_add add.commute add.left_commute)

lemma read_field_at:
  assumes "field_ok f" "at_byte n c" "n + length (field_bytes f) \<le> byteLength c"
    and "segment n (length (field_bytes f)) c = field_bytes f"
  shows "read_field f c = (Inr (field_value f), move_to (n + length (field_bytes f)) c)"
proof (cases f)
  case (Number k v le)
  then show ?thesis using assms kind.get_at [of k v n c le] by (simp add: act_simps)
next
  case (Float k v le)
  then show ?thesis
    using assms float.get_at [of v n c k le] fround_value [of v k le]
    by (simp add: proper_is_number float.length_repr)
qed (use assms in \<open>simp_all add: at_steps text_decode_encode\<close>)

lemma read_fields_at:
  "list_all field_ok fs \<Longrightarrow> at_byte n c \<Longrightarrow> n + length (all_bytes fs) \<le> byteLength c \<Longrightarrow>
     segment n (length (all_bytes fs)) c = all_bytes fs \<Longrightarrow>
     read_fields fs c = (Inr (map field_value fs), move_to (n + length (all_bytes fs)) c)"
proof (induction fs arbitrary: n c)
  case Nil
  then show ?case by (simp add: all_bytes_def act_simps move_here)
next
  case (Cons f fs)
  let ?b = "field_bytes f"
  have len: "n + length ?b + length (all_bytes fs) \<le> byteLength c"
    using Cons.prems(3) by (simp add: all_bytes_def)
  have "segment n (length ?b) c @ segment (n + length ?b) (length (all_bytes fs)) c = ?b @ all_bytes fs"
    using Cons.prems(4) by (simp add: all_bytes_def segment_append)
  moreover have "length (segment n (length ?b) c) = length ?b"
    using len Cons.prems(2) by (auto simp: segment_def subarray_def at_byte_def)
  ultimately have seg: "segment n (length ?b) c = ?b" "segment (n + length ?b) (length (all_bytes fs)) c = all_bytes fs"
    by simp_all
  have "read_fields fs (move_to (n + length ?b) c) =
      (Inr (map field_value fs), move_to (n + length ?b + length (all_bytes fs)) (move_to (n + length ?b) c))"
    using Cons.prems(1,2) len seg(2) by (intro Cons.IH) (simp_all add: at_byte_move)
  then show ?case
    using Cons.prems(1,2) len seg(1) read_field_at [of f n c] by (simp add: act_simps all_bytes_def add.assoc)
qed

section \<open>Staying in the view\<close>

datatype cursor_op =
    Rewind | Seek jsval | Skip jsval
  | GetBytes jsval | GetString jsval | GetInt int_kind jsval | GetFloat float_kind jsval
  | WriteBytes jsval | WriteString jsval | PutInt int_kind jsval jsval | PutFloat float_kind js_any jsval

fun run_op :: "bool \<Rightarrow> cursor_op \<Rightarrow> cursor \<Rightarrow> cursor" where
  "run_op has Rewind c = snd (rewind c)"
| "run_op has (Seek v) c = snd (seek v c)"
| "run_op has (Skip v) c = snd (skip_by v c)"
| "run_op has (GetBytes v) c = snd (getBytes v c)"
| "run_op has (GetString v) c = snd (getString v c)"
| "run_op has (GetInt k le) c = snd (get_int k le c)"
| "run_op has (GetFloat k le) c = snd (get_float k le c)"
| "run_op has (WriteBytes v) c = snd (writeBytes v c)"
| "run_op has (WriteString v) c = snd (writeString has v c)"
| "run_op has (PutInt k v le) c = snd (put_int k v le c)"
| "run_op has (PutFloat k v le) c = snd (put_float k v le c)"

text \<open>Numbers that are whole or infinite; values that are not numbers are rejected anyway.\<close>

definition whole_arg :: "jsval \<Rightarrow> bool" where
  "whole_arg v =
     (case v of JNumber NaN \<Rightarrow> False | JNumber (Fin x) \<Rightarrow> of_int \<lfloor>x\<rfloor> = x | _ \<Rightarrow> True)"

fun whole_op :: "cursor_op \<Rightarrow> bool" where
  "whole_op (Seek v) = whole_arg v"
| "whole_op (Skip v) = (whole_arg v \<and> v \<noteq> JUndefined)"
| "whole_op (GetBytes v) = whole_arg v"
| "whole_op (GetString v) = whole_arg v"
| "whole_op _ = True"

definition outside :: "cursor \<Rightarrow> bytes \<times> bytes" where
  "outside c = (take (byteOffset c) (cur_buffer c), drop (byteOffset c + byteLength c) (cur_buffer c))"

text \<open>\<open>confined c0\<close>: a whole position, the view and everything outside it as in \<open>c0\<close>.\<close>

definition confined :: "cursor \<Rightarrow> cursor \<Rightarrow> bool" where
  "confined c0 c \<longleftrightarrow>
     well_placed c \<and> byteOffset c = byteOffset c0 \<and> byteLength c = byteLength c0 \<and>
     length (cur_buffer c) = length (cur_buffer c0) \<and> outside c = outside c0"

lemma outside_move [simp]: "outside (move_to n c) = outside c"
  by (simp add: outside_def)

lemma outside_poke:
  "at_byte k c \<Longrightarrow> n + length b \<le> byteLength c \<Longrightarrow> outside (poke n b c) = outside c"
  by (auto simp: outside_def poke_def buf_copy_def at_byte_def add.commute)

lemma confined_move: "confined c0 c \<Longrightarrow> n \<le> byteLength c \<Longrightarrow> confined c0 (move_to n c)"
  unfolding confined_def well_placed_def using at_byte_move [of _ c n] by auto

lemma confined_poke:
  "confined c0 c \<Longrightarrow> n + length b \<le> byteLength c \<Longrightarrow> confined c0 (poke n b c)"
  unfolding confined_def well_placed_def
  by (auto simp: outside_poke) (auto simp: poke_def length_buf_copy at_byte_def)

lemma confined_step:
  "confined c0 c \<Longrightarrow> n + length b \<le> byteLength c \<Longrightarrow> m \<le> byteLength c \<Longrightarrow>
     confined c0 (move_to m (poke n b c))"
  by (simp add: confined_move confined_poke)

lemma not_below:
  "at_byte n c \<Longrightarrow> of_int \<lfloor>x\<rfloor> = x \<Longrightarrow> \<not> num_less (view_end c) (round_num x) \<Longrightarrow> x \<le> of_nat (byteLength c)"
  using below_round [of "byteLength c" x] by (force simp: at_byte_def view_end_def)

lemma whole_nonneg: "of_int \<lfloor>x\<rfloor> = x \<Longrightarrow> 0 \<le> x \<Longrightarrow> \<exists>k. x = of_nat k"
  by (metis floor_of_nat nat_0_le of_int_of_nat_eq zero_le_floor)

lemma whole_numberE:
  assumes "whole_arg (JNumber v)"
  obtains "v = PosInf" | "v = NegInf" | x where "v = Fin x" "of_int \<lfloor>x\<rfloor> = x"
  using assms by (cases v) (simp_all add: whole_arg_def)

text \<open>\<open>check\<close> from a whole position with a whole size.\<close>

lemma advance_whole:
  assumes "at_byte n c" "whole_arg v"
  shows "(\<exists>e. advance v c = (Inl e, c)) \<or> (\<exists>k. v = size_of k \<and> n + k \<le> byteLength c)"
proof (cases v)
  case (JNumber w)
  from assms(2) [unfolded JNumber] show ?thesis
  proof (cases rule: whole_numberE)
    case 1
    then show ?thesis using JNumber assms(1) by (simp add: advance_def check_def at_byte_def view_end_def)
  next
    case 2
    then show ?thesis using JNumber assms(1) by (simp add: advance_def check_def at_byte_def)
  next
    case (3 x)
    show ?thesis
    proof (cases "0 \<le> x")
      case True
      then obtain k where "x = of_nat k" using whole_nonneg [OF 3(2)] by blast
      then show ?thesis
        using JNumber 3(1) advance_beyond [OF assms(1), of k] by (cases "n + k \<le> byteLength c") auto
    next
      case False
      then show ?thesis using JNumber 3(1) assms(1) by (simp add: advance_def check_def at_byte_def)
    qed
  qed
qed (simp_all add: advance_def check_def)

lemma check_zero:
  assumes "at_byte n c" "check (JNumber (Fin x)) (JNumber (Fin 0)) c = Inr ()" "of_int \<lfloor>x\<rfloor> = x"
  shows "\<exists>m \<le> byteLength c. x = of_nat m"
proof -
  from assms(2) have "0 \<le> x" "\<not> num_less (view_end c) (round_num x)"
    by (simp_all add: check_def split: if_splits)
  then show ?thesis
    using whole_nonneg [OF assms(3)] not_below [OF assms(1,3)] by auto
qed

lemma check_infinite:
  "check (JNumber PosInf) (JNumber (Fin 0)) c \<noteq> Inr ()" "check (JNumber NegInf) (JNumber (Fin 0)) c \<noteq> Inr ()"
  by (simp_all add: check_def view_end_def)

lemma confined_at: "confined c0 c \<Longrightarrow> \<exists>n. at_byte n c"
  by (simp add: confined_def well_placed_def)

lemma confined_seek:
  assumes "confined c0 c" "whole_arg v" shows "confined c0 (snd (seek v c))"
proof (cases "check v (JNumber (Fin 0)) c")
  case (Inr u)
  then obtain w where v: "v = JNumber w" by (cases v) (simp_all add: check_def)
  obtain n where n: "at_byte n c" using confined_at [OF assms(1)] by blast
  from assms(2) [unfolded v] obtain x where x: "w = Fin x" "of_int \<lfloor>x\<rfloor> = x"
    by (cases rule: whole_numberE) (use Inr v check_infinite in auto)
  then obtain m where "m \<le> byteLength c" "w = js_nat m"
    using check_zero [OF n] Inr v by force
  then show ?thesis
    using Inr v confined_move [OF assms(1), of m] by (simp add: seek_def move_to_def)
qed (simp add: seek_def assms(1))

text \<open>Moving by a whole number: the sum is exact, or it is rejected.\<close>

definition skip_to :: "jsnum \<Rightarrow> cursor \<Rightarrow> cursor" where
  "skip_to p c = (if check (JNumber p) (JNumber (Fin 0)) c = Inr () then c\<lparr>position := p\<rparr> else c)"

lemma skip_to_whole:
  assumes "confined c0 c" "at_byte n c" "of_int \<lfloor>x\<rfloor> = x"
  shows "confined c0 (skip_to (num_add (js_nat n) (Fin x)) c)"
proof -
  define y where "y = of_nat n + x"
  have y: "of_int \<lfloor>y\<rfloor> = y" unfolding y_def by (metis assms(3) floor_of_int of_int_add of_int_of_nat_eq)
  have p: "num_add (js_nat n) (Fin x) = round_num y" by (simp add: y_def)
  consider "y < 0" | "0 \<le> y" "y \<le> of_nat (byteLength c)" | "of_nat (byteLength c) < y" by linarith
  then show ?thesis
  proof cases
    case 1
    then show ?thesis using round_below_0 [OF y] assms(1) unfolding p by (simp add: skip_to_def check_def)
  next
    case 2
    then obtain m where m: "y = of_nat m" "m \<le> byteLength c" using whole_nonneg [OF y] by auto
    then have "m < 2 ^ 53" using assms(2) by (simp add: at_byte_def)
    then have "round_num y = js_nat m" by (simp add: m(1) round_nat)
    then show ?thesis using confined_move [OF assms(1) m(2)] assms(1) unfolding p by (simp add: skip_to_def move_to_def)
  next
    case 3
    have len: "byteLength c + 1 < 2 ^ 53" using assms(2) by (simp add: at_byte_def)
    note above = round_above [OF len whole_above [OF 3 y]]
    have "num_less (view_end c) (num_add (round_num y) (Fin 0))"
    proof (cases "round_num y")
      case (Fin z)
      then show ?thesis using round_above(1) [OF len above(2) [OF Fin]] by (simp add: view_end_def)
    qed (use above(1) in \<open>simp_all add: view_end_def\<close>)
    then show ?thesis using assms(1) unfolding p by (simp add: skip_to_def check_def)
  qed
qed

lemma skip_by_to:
  "snd (skip_by v c) = (case plus_number (position c) v of Inl e \<Rightarrow> c | Inr p \<Rightarrow> skip_to p c)"
  by (simp add: skip_by_def skip_to_def split: sum.split)

lemma confined_skip:
  assumes "confined c0 c" "whole_arg v" "v \<noteq> JUndefined" shows "confined c0 (snd (skip_by v c))"
proof -
  obtain n where n: "at_byte n c" using confined_at [OF assms(1)] by blast
  then have pos: "position c = js_nat n" by (simp add: at_byte_def)
  show ?thesis
  proof (cases v)
    case (JNumber w)
    from assms(2) [unfolded JNumber] show ?thesis
    proof (cases rule: whole_numberE)
      case (3 x)
      then show ?thesis
        using skip_to_whole [OF assms(1) n 3(2)] JNumber by (simp add: skip_by_to plus_number_def pos)
    qed (use JNumber assms(1) in \<open>simp_all add: skip_by_to plus_number_def pos skip_to_def check_def view_end_def\<close>)
  next
    case JNull
    then show ?thesis
      using skip_to_whole [OF assms(1) n, of 0] by (simp add: skip_by_to plus_number_def pos)
  next
    case (JBool b)
    then show ?thesis
      using skip_to_whole [OF assms(1) n, of "if b then 1 else 0"] by (cases b) (simp_all add: skip_by_to plus_number_def pos)
  qed (use assms in \<open>simp_all add: skip_by_to plus_number_def\<close>)
qed

lemma whole_remaining: "at_byte n c \<Longrightarrow> whole_arg v \<Longrightarrow> whole_arg (or_remaining v c)"
  using default_at [of n c] by (auto simp: or_remaining_def whole_arg_def)

lemma confined_reads:
  assumes "confined c0 c" "whole_arg v"
  shows "confined c0 (snd (getBytes v c))" "confined c0 (snd (getString v c))"
proof -
  obtain n where n: "at_byte n c" using confined_at [OF assms(1)] by blast
  consider e where "advance (or_remaining v c) c = (Inl e, c)"
    | k where "or_remaining v c = size_of k" "n + k \<le> byteLength c"
    using advance_whole [OF n whole_remaining [OF n assms(2)]] by blast
  then have "confined c0 (snd (getBytes v c)) \<and> confined c0 (snd (getString v c))"
  proof cases
    case 1
    then show ?thesis using assms(1) by (simp add: getBytes_def getString_def act_simps)
  next
    case (2 k)
    then have "getBytes v c = getBytes (size_of k) c" "getString v c = getString (size_of k) c"
      by (simp_all add: getBytes_def getString_def)
    then show ?thesis using getBytes_at [OF n 2(2)] getString_at [OF n 2(2)] confined_move [OF assms(1) 2(2)] by simp
  qed
  then show "confined c0 (snd (getBytes v c))" "confined c0 (snd (getString v c))" by simp_all
qed

lemma confined_get: "confined c0 c \<Longrightarrow> confined c0 (snd (get_int k le c))"
  and confined_get_float: "confined c0 c \<Longrightarrow> confined c0 (snd (get_float j le c))"
proof -
  assume c: "confined c0 c"
  then obtain n where n: "at_byte n c" using confined_at by blast
  have shape: "confined c0 (snd (bindS (advance (size_of w)) (\<lambda>pos. bindS (view_get w fl pos) (\<lambda>x. ret (f x))) c))"
    for w fl and f :: "nat \<Rightarrow> 'a"
    using get_shape [OF n, of w fl f] confined_move [OF c, of "n + w"] c by (cases "n + w \<le> byteLength c") force+
  show "confined c0 (snd (get_int k le c))" by (cases k) (simp_all only: get_int.simps reader_defs shape)
  show "confined c0 (snd (get_float j le c))"
    by (cases j) (simp_all only: get_float.simps getFloat32_def getFloat64_def shape)
qed

lemma confined_put: "confined c0 c \<Longrightarrow> confined c0 (snd (put_int k v le c))"
  and confined_put_float: "confined c0 c \<Longrightarrow> confined c0 (snd (put_float j x le c))"
proof -
  assume c: "confined c0 c"
  then obtain n where n: "at_byte n c" using confined_at by blast
  show "confined c0 (snd (put_int k v le c))"
    using kind.put_outcomes [OF n, of k v le] c by (auto simp: kind.length_repr intro!: confined_step)
  show "confined c0 (snd (put_float j x le c))"
    using float.put_outcomes [OF n, of j x le] c by (auto simp: float.length_repr intro!: confined_step)
qed

lemma confined_writeBytes: "confined c0 c \<Longrightarrow> confined c0 (snd (writeBytes v c))"
proof -
  assume c: "confined c0 c"
  then obtain n where n: "at_byte n c" using confined_at by blast
  have eq: "is_uint8_array v \<Longrightarrow> writeBytes v = writeBytes (JUint8Array (raw_bytes v))"
    unfolding writeBytes_def raw_bytes.simps by (simp add: is_uint8_array_def)
  show ?thesis
  proof (cases "is_uint8_array v")
    case True
    let ?b = "raw_bytes v"
    show ?thesis
    proof (cases "n + length ?b \<le> byteLength c")
      case fits: True
      then show ?thesis using writeBytes_at [OF n fits] c by (simp add: eq [OF True] confined_step)
    next
      case False
      then show ?thesis
        using advance_beyond [OF n, of "length ?b"] c True by (simp add: writeBytes_def Let_def act_simps)
    qed
  qed (simp add: writeBytes_def act_simps c)
qed

lemma confined_writeString: "confined c0 c \<Longrightarrow> confined c0 (snd (writeString has v c))"
proof (cases v)
  case (JString s)
  assume c: "confined c0 c"
  then obtain n where n: "at_byte n c" using confined_at by blast
  show ?thesis
  proof (cases "n + length (utf8_encode s) \<le> byteLength c")
    case True
    then show ?thesis using JString writeString_at [OF n True] c by (simp add: confined_step)
  next
    case False
    then show ?thesis
      using JString writeString_short [OF n, of s] c confined_poke by (cases has) (force simp: not_le)+
  qed
qed (simp_all add: writeString_def)

lemma confined_run: "confined c0 c \<Longrightarrow> whole_op op \<Longrightarrow> confined c0 (run_op has op c)"
  using confined_move [of c0 c 0]
  by (cases op) (simp_all add: rewind_def move_to_def confined_seek confined_skip confined_reads
    confined_get confined_get_float confined_put confined_put_float confined_writeBytes confined_writeString)

section \<open>What the cursor guarantees\<close>

lemma bytecursor_at:
  assumes "bytecursor buffer off len = Inr c" "length (raw_bytes buffer) + 1 < 2 ^ 53"
  shows "at_byte 0 c" "cur_buffer c = raw_bytes buffer"
proof -
  let ?n = "length (raw_bytes buffer)"
  define voff where "voff = (if off = JUndefined then JNumber (Fin 0) else off)"
  from assms(1) obtain w where w: "voff = JNumber w" "is_integer_num w" "\<not> num_less w (Fin 0)" "\<not> num_less (js_nat ?n) w"
    by (auto simp: bytecursor_def Let_def voff_def [symmetric] split: if_splits jsval.splits)
  then obtain x where x: "w = Fin x" "of_int \<lfloor>x\<rfloor> = x" "0 \<le> x" "x \<le> of_nat ?n" by (cases w) (simp_all del: floor_of_nat)
  obtain a where a: "x = of_nat a" using whole_nonneg [OF x(2,3)] by blast
  have a_le: "a \<le> ?n" using x(4) a by simp
  have c: "\<exists>l. c = \<lparr>cur_buffer = raw_bytes buffer, byteOffset = a, byteLength = l, position = Fin 0\<rparr> \<and> a + l \<le> ?n"
  proof (cases len)
    case JUndefined
    then show ?thesis
      using assms(1) w x(1) a a_le by (auto simp: bytecursor_def Let_def voff_def [symmetric] split: if_splits)
  next
    case (JNumber v)
    then have v: "is_integer_num v" "\<not> num_less v (Fin 0)" "\<not> num_less (js_nat ?n) (num_add w v)"
        "c = \<lparr>cur_buffer = raw_bytes buffer, byteOffset = a, byteLength = nat (whole len), position = Fin 0\<rparr>"
      using assms(1) w(1) x(1) a by (auto simp: bytecursor_def Let_def voff_def [symmetric] bindE_def split: if_splits)
    then obtain y where y: "v = Fin y" "of_int \<lfloor>y\<rfloor> = y" "0 \<le> y" by (cases v) simp_all
    obtain l where l: "y = of_nat l" using whole_nonneg [OF y(2,3)] by blast
    have "\<not> num_less (js_nat ?n) (round_num (of_nat (a + l)))" using v(3) y(1) l x(1) a by simp
    then have "\<not> of_nat ?n < (of_nat (a + l) :: rat)"
      using below_round [OF assms(2), of "of_nat (a + l)"] by fastforce
    then have "a + l \<le> ?n" using of_nat_less_iff not_less by blast
    then show ?thesis using v(4) JNumber y(1) l by simp
  qed (use assms(1) w in \<open>auto simp: bytecursor_def Let_def voff_def [symmetric] split: if_splits\<close>)
  then show "at_byte 0 c" "cur_buffer c = raw_bytes buffer" using assms(2) by (auto simp: at_byte_def)
qed

text \<open>
  C22: What is written is read back. Any sequence of integers of all eight kinds and floating
  point numbers of both kinds in either byte order, strings and byte blocks that fits the
  view is written without error, its bytes are the fields' representations one after another,
  nothing outside the view changes, and after \<open>rewind\<close> the readers return the same values:
  integers, byte blocks and doubles exactly, with the sign of zero, binary32 numbers rounded
  once, and strings without a leading byte order mark and with U+FFFD for each lone surrogate.
  A string that has neither comes back as it was.
\<close>

theorem cursor_roundtrip:
  assumes "bytecursor buffer off len = Inr c" "length (raw_bytes buffer) + 1 < 2 ^ 53"
    and "list_all field_ok fs" "length (all_bytes fs) \<le> byteLength c"
  shows "\<exists>c1 c2. write_fields has fs c = (Inr (), c1) \<and> segment 0 (length (all_bytes fs)) c1 = all_bytes fs \<and>
    outside c1 = outside c \<and> rewind c1 = (Inr (), c2) \<and> fst (read_fields fs c2) = Inr (map field_value fs) \<and>
    (\<forall>s. plain_text s \<longrightarrow> field_value (Text s) = Value (JString s))"
proof -
  let ?n = "length (all_bytes fs)"
  let ?p = "poke 0 (all_bytes fs) c"
  have at: "at_byte 0 c" by (rule bytecursor_at [OF assms(1,2)])
  then have p: "at_byte 0 ?p" "segment 0 ?n ?p = all_bytes fs" "outside ?p = outside c"
    using assms(4) by (simp_all add: segment_poke outside_poke)
  have w: "write_fields has fs c = (Inr (), move_to ?n ?p)"
    using write_fields_at [OF assms(3) at, of has] assms(4) by simp
  have r: "rewind (move_to ?n ?p) = (Inr (), ?p)"
    using at by (simp add: rewind_def at_byte_def poke_def move_to_def)
  have "read_fields fs ?p = (Inr (map field_value fs), move_to ?n ?p)"
    using read_fields_at [OF assms(3) p(1)] p(2) assms(4) by simp
  then show ?thesis using w r p(2,3) by (simp add: text_back_plain)
qed

definition demo_fields :: "field list" where
  "demo_fields =
     [Number Int16 (int_num (- 2)) (JBool True), Number Uint8 (int_num 7) JUndefined, Raw [1, 2], Text [65279, 104],
      Float Float32 MinusZero (JBool True)]"

definition demo_cursor :: cursor where
  "demo_cursor = \<lparr>cur_buffer = replicate 16 0, byteOffset = 2, byteLength = 13, position = Fin 0\<rparr>"

lemma demo_cursor_made:
  "bytecursor (JArrayBuffer (replicate 16 0)) (JNumber (Fin 2)) (JNumber (Fin 13)) = Inr demo_cursor"
  using round_nat [of 15]
  by (simp add: bytecursor_def is_array_buffer_def demo_cursor_def Let_def)

lemma demo_fields_fit: "list_all field_ok demo_fields" "length (all_bytes demo_fields) = 13"
proof -
  have "length (utf8_encode [65279, 104]) = 4"
    unfolding encode_bom using utf8_encode_ascii_length [of "[104]"] by simp
  then show "length (all_bytes demo_fields) = 13" by (simp add: demo_fields_def all_bytes_def float.length_repr)
  show "list_all field_ok demo_fields"
    by (simp add: demo_fields_def) (simp add: valid_int_def int_num_def num_leq_def)
qed

theorem cursor_roundtrip_witness:
  "\<exists>c1 c2. write_fields True demo_fields demo_cursor = (Inr (), c1) \<and> segment 0 13 c1 = all_bytes demo_fields \<and>
    outside c1 = outside demo_cursor \<and> rewind c1 = (Inr (), c2) \<and>
    fst (read_fields demo_fields c2) = Inr (map field_value demo_fields)"
  using cursor_roundtrip [OF demo_cursor_made _ demo_fields_fit(1), of True] demo_fields_fit(2)
  by (force simp: demo_cursor_def)

text \<open>
  C23: The cursor stays in its view. Whatever operations are run with whole arguments (or
  arguments that are not numbers), whether they succeed or throw, the position remains a
  whole number within the view, and no byte of the buffer outside the view changes.
\<close>

theorem cursor_confined:
  assumes "bytecursor buffer off len = Inr c" "length (raw_bytes buffer) + 1 < 2 ^ 53"
    and "list_all whole_op ops"
  shows "let c' = fold (run_op has) ops c in
    (\<exists>n \<le> byteLength c. tell c' = js_nat n) \<and> byteOffset c' = byteOffset c \<and> byteLength c' = byteLength c \<and>
    length (cur_buffer c') = length (cur_buffer c) \<and> outside c' = outside c"
proof -
  have "confined c c" using bytecursor_at [OF assms(1,2)] by (auto simp: confined_def well_placed_def)
  moreover have "confined c d \<Longrightarrow> list_all whole_op ops \<Longrightarrow> confined c (fold (run_op has) ops d)" for d
    by (induction ops arbitrary: d) (simp_all add: confined_run)
  ultimately have "confined c (fold (run_op has) ops c)" using assms(3) by blast
  then show ?thesis by (auto simp: confined_def well_placed_def at_byte_def tell_def Let_def)
qed

theorem cursor_confined_witness:
  "outside (fold (run_op True) [Seek (size_of 3), WriteBytes (JUint8Array [9, 9]), Skip (size_of 400)] demo_cursor)
    = outside demo_cursor"
  using cursor_confined [OF demo_cursor_made, of "[Seek (size_of 3), WriteBytes (JUint8Array [9, 9]), Skip (size_of 400)]" True]
  by (simp add: whole_arg_def Let_def)

text \<open>
  A position that is not a number defeats the bounds. \<^verbatim>\<open>seek(NaN)\<close> passes \<open>check\<close>, because
  every comparison with NaN is false; from then on \<open>writeBytes\<close> writes at the start of the
  whole buffer, wherever the view begins and however short it is, without an error.
\<close>

theorem seek_nan_escapes:
  assumes "bytecursor (JArrayBuffer buf) off len = Inr c" "length buf + 1 < 2 ^ 53" "length b \<le> length buf"
  shows "\<exists>c1 c2. seek (JNumber NaN) c = (Inr (), c1) \<and> writeBytes (JUint8Array b) c1 = (Inr (), c2) \<and>
    cur_buffer c2 = b @ drop (length b) buf"
proof -
  have c: "cur_buffer c = buf" using bytecursor_at(2) [OF assms(1)] assms(2) by simp
  have nan: "num_add v NaN = NaN" "\<not> num_less v NaN" for v by (cases v; simp)+
  let ?c1 = "c\<lparr>position := NaN\<rparr>"
  have "seek (JNumber NaN) c = (Inr (), ?c1)" by (simp add: seek_def check_def nan)
  moreover have "advance (size_of (length b)) ?c1 = (Inr NaN, ?c1)"
    by (simp add: advance_def check_def nan)
  moreover have "u8_segment NaN (js_nat (length b)) ?c1 = Inr (0, length b)"
  proof -
    have "to_index (js_nat (length b)) = Inr (length b)" using assms(2,3) by (intro to_index_nat) simp
    moreover have "to_index NaN = Inr 0" by (simp add: to_index_def)
    ultimately show ?thesis using assms(3) by (simp add: u8_segment_def nan c)
  qed
  ultimately show ?thesis
    using assms(3) by (simp add: writeBytes_def is_uint8_array_def Let_def act_simps c buf_copy_def)
qed

theorem seek_nan_escapes_witness:
  "\<exists>c1 c2. seek (JNumber NaN) demo_cursor = (Inr (), c1) \<and> writeBytes (JUint8Array [9, 9, 9]) c1 = (Inr (), c2) \<and>
    cur_buffer c2 = [9, 9, 9] @ replicate 13 0"
  using seek_nan_escapes [OF demo_cursor_made, of "[9, 9, 9]"] by simp

text \<open>
  The two ways to write a string agree. With \<^verbatim>\<open>encodeInto\<close> or through \<open>writeBytes\<close>, a string
  that fits is written the same way, and one that does not fit is rejected with the same
  error at the same position; the first way, however, has by then overwritten part of the
  rest of the view, the second has changed nothing.
\<close>

theorem write_string_paths:
  assumes "at_byte n c"
  shows "fst (writeString True v c) = fst (writeString False v c) \<and>
    position (snd (writeString True v c)) = position (snd (writeString False v c)) \<and>
    outside (snd (writeString True v c)) = outside c \<and>
    (fst (writeString False v c) = Inr () \<longrightarrow> snd (writeString True v c) = snd (writeString False v c)) \<and>
    (fst (writeString False v c) \<noteq> Inr () \<longrightarrow> snd (writeString False v c) = c)"
proof (cases v)
  case (JString s)
  show ?thesis
  proof (cases "n + length (utf8_encode s) \<le> byteLength c")
    case True
    then show ?thesis
      using assms JString writeString_at [OF assms True, of True] writeString_at [OF assms True, of False]
      by (simp add: outside_poke)
  next
    case False
    then show ?thesis
      using JString writeString_short [OF assms, of s] outside_poke [OF assms] by (auto simp: not_le)
  qed
qed (simp_all add: writeString_def)

theorem write_string_paths_witness:
  "fst (writeString True (JString (jstr ''a long string'')) demo_cursor)
    = fst (writeString False (JString (jstr ''a long string'')) demo_cursor)"
proof -
  have "at_byte 0 demo_cursor" by (simp add: at_byte_def demo_cursor_def)
  from write_string_paths [OF this] show ?thesis by blast
qed

end
