(* ===== verification/Client_Codec.thy ===== *)
theory Client_Codec
  imports Message Cursor_Fields
begin

text \<open>
  Frames on the client, \<^verbatim>\<open>client/roomer.js\<close>: \<open>new_message\<close> writes them with the byte cursor,
  the \<^verbatim>\<open>onmessage\<close> listener reads them with it. Both are compared with the server's codec.
\<close>

section \<open>Writing\<close>

definition client_version :: jsval where
  "client_version = JNumber (Fin 1)"

definition client_overhead :: nat where
  "client_overhead = 12"

fun bool_string :: "bool \<Rightarrow> js_string" where
  "bool_string True = jstr ''true''"
| "bool_string False = jstr ''false''"

text \<open>\<^verbatim>\<open>undefined\<close> and \<^verbatim>\<open>null\<close> have become the empty string; a bigint is sent as nothing.\<close>

definition client_payload :: "jsval \<Rightarrow> bytes" where
  "client_payload payload =
     (case payload of
        JUndefined \<Rightarrow> utf8_encode []
      | JNull \<Rightarrow> utf8_encode []
      | JString s \<Rightarrow> utf8_encode s
      | JBuffer b \<Rightarrow> b
      | JUint8Array b \<Rightarrow> b
      | JArrayBuffer b \<Rightarrow> b
      | JObject j \<Rightarrow> utf8_encode (json_stringify j)
      | JNumber n \<Rightarrow> utf8_encode (number_string n)
      | JBool t \<Rightarrow> utf8_encode (bool_string t)
      | JBigInt _ \<Rightarrow> [])"

text \<open>Statements one after the other.\<close>

primrec statements :: "('s, unit) comp list \<Rightarrow> ('s, unit) comp" where
  "statements [] = ret ()"
| "statements (m # ms) = bindS m (\<lambda>_. statements ms)"

definition message_writes ::
  "jsval \<Rightarrow> bytes \<Rightarrow> bytes \<Rightarrow> bytes \<Rightarrow> bytes \<Rightarrow> bytes \<Rightarrow> (cursor, unit) comp list" where
  "message_writes flags room_bytes event_bytes dst_bytes src_bytes payload_buf =
     [writeUint8 client_version,
      writeUint8 (case flags of JNumber n \<Rightarrow> JNumber n | _ \<Rightarrow> JNumber (Fin 0)),
      writeUint16 (size_of (length room_bytes)) JUndefined,
      writeBytes (JUint8Array room_bytes),
      writeUint16 (size_of (length event_bytes)) JUndefined,
      writeBytes (JUint8Array event_bytes),
      writeUint8 (size_of (length dst_bytes)),
      writeBytes (JUint8Array dst_bytes),
      writeUint8 (size_of (length src_bytes)),
      writeBytes (JUint8Array src_bytes),
      writeUint32 (size_of (length payload_buf)) JUndefined]
     @ (if 0 < length payload_buf then [writeBytes (JUint8Array payload_buf)] else [])"

definition new_message :: "jsval \<Rightarrow> jsval \<Rightarrow> jsval \<Rightarrow> jsval \<Rightarrow> jsval \<Rightarrow> jsval \<Rightarrow> bytes result" where
  "new_message room_name event_name dst_id src_id payload_data flags =
     (let room_bytes = utf8_encode (string_or room_name []);
          event_bytes = utf8_encode (string_or event_name []);
          dst_bytes = utf8_encode (string_or dst_id []);
          src_bytes = utf8_encode (string_or src_id []) in
      if 65535 < length room_bytes then Inl room_too_long
      else if 65535 < length event_bytes then Inl event_too_long
      else if 255 < length dst_bytes then Inl dst_too_long
      else if 255 < length src_bytes then Inl src_too_long
      else
        let payload_buf = client_payload payload_data;
            total_bytes = client_overhead + length room_bytes + length event_bytes + length dst_bytes
                          + length src_bytes + length payload_buf in
        bindE (bytecursor (JArrayBuffer (replicate total_bytes 0)) JUndefined JUndefined) (\<lambda>data. fst (
          bindS (statements
            (message_writes flags room_bytes event_bytes dst_bytes src_bytes payload_buf @ [rewind]))
            (\<lambda>_. getBytes JUndefined) data)))"

section \<open>Reading\<close>

record packet =
  p_dst :: js_string
  p_event :: js_string
  p_flags :: jsval
  p_payload :: bytes
  p_room :: js_string
  p_src :: js_string
  p_version :: jsval

text \<open>
  The body of \<^verbatim>\<open>onmessage\<close> up to the packet: nothing for data shorter than a header, an
  exception (which the listener logs) for data that cannot be read.
\<close>

definition parse_frame :: "jsval \<Rightarrow> packet option result" where
  "parse_frame e_data =
     bindE (bytecursor e_data JUndefined JUndefined) (\<lambda>data.
       if byteLength data < client_overhead then Inr None
       else fst (
         bindS getUint8 (\<lambda>version.
         bindS getUint8 (\<lambda>flags.
         bindS (bindS (getUint16 JUndefined) getString) (\<lambda>room_str.
         bindS (bindS (getUint16 JUndefined) getString) (\<lambda>event_str.
         bindS (bindS getUint8 getString) (\<lambda>dst_str.
         bindS (bindS getUint8 getString) (\<lambda>src_str.
         bindS (bindS (getUint32 JUndefined) getBytes) (\<lambda>payload_bytes.
         ret (Some
           \<lparr>p_dst = dst_str, p_event = event_str, p_flags = flags, p_payload = payload_bytes,
            p_room = room_str, p_src = src_str, p_version = version\<rparr>)))))))) data))"

section \<open>What the client writes is the server's wire format\<close>

definition flags_value :: "jsval \<Rightarrow> jsval" where
  "flags_value flags = (case flags of JNumber n \<Rightarrow> JNumber n | _ \<Rightarrow> JNumber (Fin 0))"

definition frame_fields :: "jsval \<Rightarrow> bytes \<Rightarrow> bytes \<Rightarrow> bytes \<Rightarrow> bytes \<Rightarrow> bytes \<Rightarrow> field list" where
  "frame_fields flags room event dst src payload =
     [Number Uint8 client_version JUndefined, Number Uint8 flags JUndefined,
      Number Uint16 (size_of (length room)) JUndefined, Raw room,
      Number Uint16 (size_of (length event)) JUndefined, Raw event,
      Number Uint8 (size_of (length dst)) JUndefined, Raw dst,
      Number Uint8 (size_of (length src)) JUndefined, Raw src,
      Number Uint32 (size_of (length payload)) JUndefined, Raw payload]"

lemma statements_append: "statements (ms @ ns) = bindS (statements ms) (\<lambda>_. statements ns)"
  by (induction ms) (auto simp: fun_eq_iff bindS_def ret_def split: prod.split sum.split)

lemma size_of_int: "size_of n = int_num (int n)"
  by (simp add: int_num_def)

lemma valid_size: "int n \<le> mx \<Longrightarrow> valid_int 0 mx (size_of n)"
proof -
  assume "int n \<le> mx"
  then have "(of_nat n :: rat) \<le> of_int mx" by (metis of_int_le_iff of_int_of_nat_eq)
  then show ?thesis by (auto simp: valid_int_def num_leq_def)
qed

lemma int_repr_size: "n < 256 ^ k \<Longrightarrow> int_repr k (size_of n) = bytes_be k n"
  unfolding size_of_int int_repr_def whole_int_num power_256
  by (simp add: nat_mod_distrib nat_power_eq)

lemma write_fields_statements: "write_fields has fs = statements (map (write_field has) fs)"
  by (induction fs) simp_all

lemma statements_fail:
  "m \<in> set ms \<Longrightarrow> (\<And>c. \<exists>e. m c = (Inl e, c)) \<Longrightarrow> \<exists>e c'. statements ms c = (Inl e, c')"
proof (induction ms arbitrary: c)
  case (Cons a ms)
  show ?case
  proof (cases "a c")
    case (Pair r c')
    show ?thesis
    proof (cases r)
      case (Inr u)
      then have "m \<noteq> a" using Cons.prems(2) [of c] Pair by auto
      then have "m \<in> set ms" using Cons.prems(1) by simp
      from Cons.IH [OF this Cons.prems(2)] show ?thesis using Pair Inr by (simp add: act_simps)
    qed (use Pair in \<open>simp add: act_simps\<close>)
  qed
qed simp

text \<open>Writing fields that fill a fresh buffer and reading the buffer.\<close>

lemma fill_buffer:
  assumes "list_all field_ok fs" "length (all_bytes fs) + 1 < 2 ^ 53"
    and "bytecursor (JArrayBuffer (replicate (length (all_bytes fs)) 0)) JUndefined JUndefined = Inr c"
  shows "fst (bindS (statements (map (write_field has) fs @ [rewind])) (\<lambda>_. getBytes JUndefined) c) = Inr (all_bytes fs)"
proof -
  let ?n = "length (all_bytes fs)"
  let ?p = "poke 0 (all_bytes fs) c"
  have at: "at_byte 0 c" using bytecursor_at [OF assms(3)] assms(2) by simp
  have len: "byteLength c = ?n"
    using assms(3) by (auto simp: bytecursor_def is_array_buffer_def)
  have w: "statements (map (write_field has) fs) c = (Inr (), move_to ?n ?p)"
    using write_fields_at [OF assms(1) at, of has] len by (simp add: write_fields_statements)
  have at_p: "at_byte 0 ?p" using at len by simp
  have "rewind (move_to ?n ?p) = (Inr (), ?p)"
    using at by (simp add: rewind_def at_byte_def poke_def move_to_def)
  moreover have "getBytes JUndefined ?p = (Inr (segment 0 ?n ?p), move_to ?n ?p)"
    using getBytes_rest [OF at_p] len by simp
  moreover have "segment 0 ?n ?p = all_bytes fs" using at len by (simp add: segment_poke)
  ultimately show ?thesis using w by (simp add: statements_append act_simps)
qed

lemma fresh_cursor:
  "\<exists>c. bytecursor (JArrayBuffer (replicate n 0)) JUndefined JUndefined = Inr c"
  by (simp add: bytecursor_def is_array_buffer_def)

lemma frame_fields_bytes:
  assumes "fields_fit room event dst src payload" "valid_int 0 255 flags"
  shows "all_bytes (frame_fields flags room event dst src payload) =
    raw_frame 1 (of_int (whole flags)) room event dst src payload"
proof -
  have one: "bytes_be 1 n = [of_nat (n mod 256)]" for n by simp
  have "int_repr 1 client_version = [1]" by (simp add: int_repr_def client_version_def)
  moreover from assms(2) have "int_repr 1 flags = [of_int (whole flags)]"
    by (elim valid_intE) (simp add: int_repr_def nat_mod_distrib)
  moreover have "int_repr 2 (size_of (length room)) = u16_be (length room)"
      "int_repr 2 (size_of (length event)) = u16_be (length event)"
      "int_repr 4 (size_of (length payload)) = u32_be (length payload)"
      "int_repr 1 (size_of (length dst)) = [of_nat (length dst)]"
      "int_repr 1 (size_of (length src)) = [of_nat (length src)]"
    using assms(1) by (simp_all only: fields_fit_def) (simp_all add: int_repr_size u16_be_bytes u32_be_bytes one)
  ultimately show ?thesis
    by (simp only: frame_fields_def all_bytes_def raw_frame_def list.map concat.simps field_bytes.simps
      width_of.simps swaps_of.simps in_order_def if_False append_assoc append.simps) simp
qed

lemma frame_fields_ok:
  "fields_fit room event dst src payload \<Longrightarrow> valid_int 0 255 flags \<Longrightarrow>
     list_all field_ok (frame_fields flags room event dst src payload)"
  by (simp add: frame_fields_def fields_fit_def valid_size client_version_def)
    (simp add: valid_int_def num_leq_def)

lemma new_message_fits:
  assumes fit: "fields_fit (utf8_encode (string_or room [])) (utf8_encode (string_or event []))
      (utf8_encode (string_or dst [])) (utf8_encode (string_or src [])) (client_payload payload)"
    and flags: "valid_int 0 255 (flags_value flags)"
  shows "new_message room event dst src payload flags =
    Inr (raw_frame 1 (of_int (whole (flags_value flags))) (utf8_encode (string_or room []))
      (utf8_encode (string_or event [])) (utf8_encode (string_or dst [])) (utf8_encode (string_or src []))
      (client_payload payload))"
proof -
  define r e d s p where defs: "r = utf8_encode (string_or room [])" "e = utf8_encode (string_or event [])"
    "d = utf8_encode (string_or dst [])" "s = utf8_encode (string_or src [])" "p = client_payload payload"
  have fits: "fields_fit r e d s p" using fit by (simp add: defs)
  then have lens: "length r \<le> 65535" "length e \<le> 65535" "length d \<le> 255" "length s \<le> 255" "length p < 4294967296"
    by (simp_all add: fields_fit_def)
  define fs where "fs = (let fs = frame_fields (flags_value flags) r e d s p in if p = [] then butlast fs else fs)"
  have all: "all_bytes fs = raw_frame 1 (of_int (whole (flags_value flags))) r e d s p"
    using frame_fields_bytes [OF fits flags]
    by (cases "p = []") (simp_all add: fs_def Let_def frame_fields_def all_bytes_def)
  then have total: "length (all_bytes fs) = client_overhead + length r + length e + length d + length s + length p"
    by (simp add: length_raw_frame HEADER_OVERHEAD_def client_overhead_def)
  have ok: "list_all field_ok fs"
    using frame_fields_ok [OF fits flags] by (auto simp: fs_def Let_def frame_fields_def)
  obtain c where c: "bytecursor (JArrayBuffer (replicate (length (all_bytes fs)) 0)) JUndefined JUndefined = Inr c"
    using fresh_cursor by blast
  have "length (all_bytes fs) + 1 < 2 ^ 53"
    using lens total by (simp add: client_overhead_def)
  note fill = fill_buffer [OF ok this c, of False]
  have stmts: "message_writes flags r e d s p = map (write_field False) fs"
    by (simp add: fs_def frame_fields_def Let_def message_writes_def flags_value_def)
  show ?thesis
    unfolding new_message_def Let_def defs [symmetric] stmts total [symmetric]
    using lens by (simp add: c fill) (simp add: all)
qed

lemma writeUint8_rejects: "\<not> valid_int 0 255 v \<Longrightarrow> \<exists>e. writeUint8 v c = (Inl e, c)"
  unfolding writeUint8_def by (rule put_rejects) (simp add: assert_integer_ok)

lemma writeUint32_rejects: "\<not> valid_int 0 4294967295 v \<Longrightarrow> \<exists>e. writeUint32 v le c = (Inl e, c)"
  unfolding writeUint32_def by (rule put_rejects) (simp add: assert_integer_ok)

lemma size_too_big: "4294967296 \<le> n \<Longrightarrow> \<not> valid_int 0 4294967295 (size_of n)"
proof
  assume n: "4294967296 \<le> n" and v: "valid_int 0 4294967295 (size_of n)"
  from v obtain i where "size_of n = int_num i" "i \<le> 4294967295" by (rule valid_intE)
  then have "int n \<le> 4294967295" by (simp add: size_of_int int_num_def del: of_int_of_nat_eq)
  with n show False by simp
qed

lemma new_message_only_fits:
  assumes "new_message room event dst src payload flags = Inr b"
  shows "fields_fit (utf8_encode (string_or room [])) (utf8_encode (string_or event []))
      (utf8_encode (string_or dst [])) (utf8_encode (string_or src [])) (client_payload payload)"
    and "valid_int 0 255 (flags_value flags)"
proof -
  let ?r = "utf8_encode (string_or room [])" and ?e = "utf8_encode (string_or event [])"
    and ?d = "utf8_encode (string_or dst [])" and ?s = "utf8_encode (string_or src [])"
    and ?p = "client_payload payload" and ?n = "length (client_payload payload)"
  define ms where "ms = message_writes flags ?r ?e ?d ?s ?p"
  have guards: "\<not> 65535 < length (utf8_encode (string_or room []))" "\<not> 65535 < length (utf8_encode (string_or event []))"
    "\<not> 255 < length (utf8_encode (string_or dst []))" "\<not> 255 < length (utf8_encode (string_or src []))"
    using assms by (auto simp: new_message_def Let_def split: if_splits)
  obtain c where c: "fst (bindS (statements (ms @ [rewind])) (\<lambda>_. getBytes JUndefined) c) = Inr b"
    using assms guards unfolding new_message_def Let_def ms_def
    by (simp only: if_False bindE_eq_Inr) blast
  have no: "\<not> (\<forall>c. \<exists>e. m c = (Inl e, c))" if m: "m \<in> set ms" for m
  proof
    assume "\<forall>c. \<exists>e. m c = (Inl e, c)"
    then obtain e c' where "statements (ms @ [rewind]) c = (Inl e, c')"
      using statements_fail [of m "ms @ [rewind]" c] m by auto
    then show False using c by (simp add: act_simps)
  qed
  have "writeUint8 (flags_value flags) \<in> set ms" by (simp add: ms_def message_writes_def flags_value_def)
  then show "valid_int 0 255 (flags_value flags)" using no writeUint8_rejects by blast
  have "writeUint32 (size_of ?n) JUndefined \<in> set ms" by (simp add: ms_def message_writes_def)
  then have "?n < 4294967296" using no writeUint32_rejects [OF size_too_big] not_less by blast
  then show "fields_fit ?r ?e ?d ?s ?p" using guards by (simp add: fields_fit_def)
qed

lemma new_message_iff:
  "new_message room event dst src payload flags = Inr b \<longleftrightarrow>
     fields_fit (utf8_encode (string_or room [])) (utf8_encode (string_or event []))
       (utf8_encode (string_or dst [])) (utf8_encode (string_or src [])) (client_payload payload) \<and>
     valid_int 0 255 (flags_value flags) \<and>
     b = raw_frame 1 (of_int (whole (flags_value flags))) (utf8_encode (string_or room []))
       (utf8_encode (string_or event [])) (utf8_encode (string_or dst [])) (utf8_encode (string_or src []))
       (client_payload payload)"
  using new_message_fits new_message_only_fits by (metis sum.inject(2))

text \<open>The payloads that both sides serialize the same way.\<close>

definition common_payload :: "jsval \<Rightarrow> bool" where
  "common_payload p = (case p of JNumber _ \<Rightarrow> False | JBool _ \<Rightarrow> False | JArrayBuffer _ \<Rightarrow> False | _ \<Rightarrow> True)"

lemma common_payload_bytes: "common_payload p \<Longrightarrow> payload_bytes p = client_payload p"
  by (cases p) (simp_all add: common_payload_def payload_bytes_def client_payload_def utf8_encode_def)

lemma u8_of_int: "0 \<le> n \<Longrightarrow> n \<le> 255 \<Longrightarrow> u8_of_num (Fin (of_int n)) = Inr (of_int n)"
proof -
  assume "0 \<le> n" "n \<le> 255"
  then have "(0 :: rat) \<le> of_int n" "of_int n \<le> (255 :: rat)" by simp_all
  then show ?thesis by (simp add: u8_of_num_def not_less)
qed

lemma encode_iff:
  assumes "u8_of_num (msg_version m) = Inr v" "u8_of_num (msg_flags m) = Inr f"
  shows "msg_encode m = Inr b \<longleftrightarrow>
    fields_fit (utf8_encode (msg_room m)) (utf8_encode (msg_event m)) (utf8_encode (msg_dst m))
      (utf8_encode (msg_src m)) (msg_payload m) \<and>
    b = raw_frame v f (utf8_encode (msg_room m)) (utf8_encode (msg_event m)) (utf8_encode (msg_dst m))
      (utf8_encode (msg_src m)) (msg_payload m)"
  unfolding msg_encode_ref encode_ref_def Let_def assms bindE_simps fields_fit_def by auto

text \<open>
  C21: The client's frames are the server's. For payloads that both sides serialize the same way
  (strings, byte arrays, objects, and values without bytes) and flags of one byte or none,
  \<open>new_message\<close> of the client and \<^verbatim>\<open>create_message(...).encode()\<close> of the server produce the
  same bytes for the same arguments, and reject the same arguments.
\<close>

theorem client_frames_agree:
  assumes "common_payload payload" "flags = JUndefined \<or> valid_int 0 255 flags"
  shows "new_message room event dst src payload flags = Inr b \<longleftrightarrow>
    msg_encode (create_message room event dst src payload JUndefined flags) = Inr b"
proof -
  let ?m = "create_message room event dst src payload JUndefined flags"
  obtain n where n: "flags_value flags = int_num n" "msg_flags ?m = Fin (of_int n)" "0 \<le> n" "n \<le> 255"
  proof (cases "flags = JUndefined")
    case True
    then show ?thesis
      using that [of 0] by (simp add: flags_value_def int_num_def create_message_def DEFAULT_FLAGS_def)
  next
    case False
    then obtain n where "flags = int_num n" "0 \<le> n" "n \<le> 255" using assms(2) valid_intE by metis
    then show ?thesis using that [of n] by (simp add: flags_value_def int_num_def create_message_def)
  qed
  have valid: "valid_int 0 255 (flags_value flags)" using n by (simp add: valid_int_def int_num_def num_leq_def) force
  have v: "u8_of_num (msg_version ?m) = Inr 1"
    by (simp add: create_message_def PROTOCOL_VERSION_def u8_of_num_def)
  have f: "u8_of_num (msg_flags ?m) = Inr (of_int n)" using n by (simp add: u8_of_int)
  have fields: "msg_room ?m = string_or room []" "msg_event ?m = string_or event []" "msg_dst ?m = string_or dst []"
      "msg_src ?m = string_or src []" "msg_payload ?m = client_payload payload"
    using common_payload_bytes [OF assms(1)] by (simp_all add: create_message_def)
  show ?thesis unfolding new_message_iff encode_iff [OF v f] fields using valid n(1) by simp
qed

theorem client_frames_agree_witness:
  "\<forall>b. new_message (JString (jstr ''r'')) (JString (jstr ''e'')) JUndefined JUndefined (JString (jstr ''hi'')) JUndefined = Inr b \<longleftrightarrow>
    msg_encode (create_message (JString (jstr ''r'')) (JString (jstr ''e'')) JUndefined JUndefined
      (JString (jstr ''hi'')) JUndefined JUndefined) = Inr b"
  by (intro allI client_frames_agree) (simp_all add: common_payload_def)

section \<open>What the client reads\<close>

definition cur :: "bytes \<Rightarrow> nat \<Rightarrow> cursor" where
  "cur b n = \<lparr>cur_buffer = b, byteOffset = 0, byteLength = length b, position = js_nat n\<rparr>"

lemma cur_facts [simp]:
  "move_to m (cur b n) = cur b m" "segment n k (cur b m) = subarray b n (n + k)" "byteLength (cur b n) = length b"
  by (simp_all add: cur_def move_to_def segment_def)

lemma at_cur: "n \<le> length b \<Longrightarrow> length b + 1 < 2 ^ 53 \<Longrightarrow> at_byte n (cur b n)"
  by (simp add: at_byte_def cur_def)

abbreviation beyond :: js_error where
  "beyond \<equiv> bounds_error ''Offset + size exceeds view bounds''"

lemma subarray_bytes:
  "n + 1 \<le> length b \<Longrightarrow> subarray b n (n + 1) = [b ! n]"
  "n + 2 \<le> length b \<Longrightarrow> subarray b n (n + 2) = [b ! n, b ! (n + 1)]"
  "n + 4 \<le> length b \<Longrightarrow> subarray b n (n + 4) = [b ! n, b ! (n + 1), b ! (n + 2), b ! (n + 3)]"
  by (simp_all add: subarray_def drop_eq_Cons eval_nat_numeral)

lemma cur_ints:
  assumes n: "n \<le> length b" "length b + 1 < 2 ^ 53"
  shows "getUint8 (cur b n) =
      (case read_u8 b n of Inr k \<Rightarrow> (Inr (size_of k), cur b (n + 1)) | Inl _ \<Rightarrow> (Inl beyond, cur b n))"
    and "getUint16 JUndefined (cur b n) =
      (case read_u16 b n of Inr k \<Rightarrow> (Inr (size_of k), cur b (n + 2)) | Inl _ \<Rightarrow> (Inl beyond, cur b n))"
    and "getUint32 JUndefined (cur b n) =
      (case read_u32 b n of Inr k \<Rightarrow> (Inr (size_of k), cur b (n + 4)) | Inl _ \<Rightarrow> (Inl beyond, cur b n))"
proof -
  have get: "bindS (advance (size_of k)) (\<lambda>pos. bindS (view_get k JUndefined pos) (\<lambda>x. ret (f x))) (cur b n) =
      (if n + k \<le> length b then (Inr (f (be_value (subarray b n (n + k)))), cur b (n + k)) else (Inl beyond, cur b n))"
    for k and f :: "nat \<Rightarrow> jsval"
    using get_shape(1) [OF at_cur [OF n], of k JUndefined f] advance_beyond [OF at_cur [OF n], of k]
    by (auto simp: in_order_def act_simps)
  show "getUint8 (cur b n) =
      (case read_u8 b n of Inr k \<Rightarrow> (Inr (size_of k), cur b (n + 1)) | Inl _ \<Rightarrow> (Inl beyond, cur b n))"
    unfolding getUint8_def get read_u8_def
    by (auto simp: subarray_bytes(1) [simplified] be_value_def int_num_def)
  show "getUint16 JUndefined (cur b n) =
      (case read_u16 b n of Inr k \<Rightarrow> (Inr (size_of k), cur b (n + 2)) | Inl _ \<Rightarrow> (Inl beyond, cur b n))"
    unfolding getUint16_def get read_u16_def
    by (auto simp: subarray_bytes(2) be_value_def int_num_def simp del: add_2_eq_Suc')
  show "getUint32 JUndefined (cur b n) =
      (case read_u32 b n of Inr k \<Rightarrow> (Inr (size_of k), cur b (n + 4)) | Inl _ \<Rightarrow> (Inl beyond, cur b n))"
    unfolding getUint32_def get read_u32_def
    by (auto simp: subarray_bytes(3) be_value_def int_num_def algebra_simps)
qed

lemma cur_reads:
  assumes n: "n \<le> length b" "length b + 1 < 2 ^ 53"
  shows "getString (size_of k) (cur b n) =
      (if n + k \<le> length b then (Inr (text_decode (subarray b n (n + k))), cur b (n + k)) else (Inl beyond, cur b n))"
    and "getBytes (size_of k) (cur b n) =
      (if n + k \<le> length b then (Inr (subarray b n (n + k)), cur b (n + k)) else (Inl beyond, cur b n))"
  using getString_at [OF at_cur [OF n], of k] getBytes_at [OF at_cur [OF n], of k] advance_beyond [OF at_cur [OF n], of k]
  by (auto simp: getString_def getBytes_def act_simps)

text \<open>A length-prefixed string or block: what it takes to read it.\<close>

lemma cur_prefixed:
  assumes n: "n \<le> length b" "length b + 1 < 2 ^ 53"
  shows "bindS getUint8 getString (cur b n) = (Inr s, c) \<longleftrightarrow>
      (\<exists>k. read_u8 b n = Inr k \<and> n + 1 + k \<le> length b \<and>
        s = text_decode (subarray b (n + 1) (n + 1 + k)) \<and> c = cur b (n + 1 + k))"
    and "bindS (getUint16 JUndefined) getString (cur b n) = (Inr s, c) \<longleftrightarrow>
      (\<exists>k. read_u16 b n = Inr k \<and> n + 2 + k \<le> length b \<and>
        s = text_decode (subarray b (n + 2) (n + 2 + k)) \<and> c = cur b (n + 2 + k))"
    and "bindS (getUint32 JUndefined) getBytes (cur b n) = (Inr p, c) \<longleftrightarrow>
      (\<exists>k. read_u32 b n = Inr k \<and> n + 4 + k \<le> length b \<and>
        p = subarray b (n + 4) (n + 4 + k) \<and> c = cur b (n + 4 + k))"
proof -
  have u8: "read_u8 b n = Inr k \<Longrightarrow> n + 1 \<le> length b" for k by (simp add: read_u8_def split: if_splits)
  have u16: "read_u16 b n = Inr k \<Longrightarrow> n + 2 \<le> length b" for k by (simp add: read_u16_def split: if_splits)
  have u32: "read_u32 b n = Inr k \<Longrightarrow> n + 4 \<le> length b" for k by (simp add: read_u32_def split: if_splits)
  show "bindS getUint8 getString (cur b n) = (Inr s, c) \<longleftrightarrow>
      (\<exists>k. read_u8 b n = Inr k \<and> n + 1 + k \<le> length b \<and>
        s = text_decode (subarray b (n + 1) (n + 1 + k)) \<and> c = cur b (n + 1 + k))"
    unfolding bindS_eq_Inr cur_ints(1) [OF n] using cur_reads(1) [OF u8 n(2)] u8
    by (cases "read_u8 b n") auto
  show "bindS (getUint16 JUndefined) getString (cur b n) = (Inr s, c) \<longleftrightarrow>
      (\<exists>k. read_u16 b n = Inr k \<and> n + 2 + k \<le> length b \<and>
        s = text_decode (subarray b (n + 2) (n + 2 + k)) \<and> c = cur b (n + 2 + k))"
    unfolding bindS_eq_Inr cur_ints(2) [OF n] using cur_reads(1) [OF u16 n(2)] u16
    by (cases "read_u16 b n") auto
  show "bindS (getUint32 JUndefined) getBytes (cur b n) = (Inr p, c) \<longleftrightarrow>
      (\<exists>k. read_u32 b n = Inr k \<and> n + 4 + k \<le> length b \<and>
        p = subarray b (n + 4) (n + 4 + k) \<and> c = cur b (n + 4 + k))"
    unfolding bindS_eq_Inr cur_ints(3) [OF n] using cur_reads(2) [OF u32 n(2)] u32
    by (cases "read_u32 b n") auto
qed

lemma cur_byte:
  assumes n: "n \<le> length b" "length b + 1 < 2 ^ 53"
  shows "getUint8 (cur b n) = (Inr x, c) \<longleftrightarrow>
    (\<exists>k. read_u8 b n = Inr k \<and> n + 1 \<le> length b \<and> x = size_of k \<and> c = cur b (n + 1))"
  unfolding cur_ints(1) [OF n] by (cases "read_u8 b n") (auto simp: read_u8_def split: if_splits)

text \<open>What a frame means to the client.\<close>

definition frame_packet :: "byte \<Rightarrow> byte \<Rightarrow> bytes \<Rightarrow> bytes \<Rightarrow> bytes \<Rightarrow> bytes \<Rightarrow> bytes \<Rightarrow> packet" where
  "frame_packet v f room event dst src payload =
     \<lparr>p_dst = text_decode dst, p_event = text_decode event, p_flags = size_of (unat f), p_payload = payload,
      p_room = text_decode room, p_src = text_decode src, p_version = size_of (unat v)\<rparr>"

lemma parse_cur:
  "parse_frame (JArrayBuffer b) =
     (if length b < client_overhead then Inr None
      else fst (
         bindS getUint8 (\<lambda>version.
         bindS getUint8 (\<lambda>flags.
         bindS (bindS (getUint16 JUndefined) getString) (\<lambda>room_str.
         bindS (bindS (getUint16 JUndefined) getString) (\<lambda>event_str.
         bindS (bindS getUint8 getString) (\<lambda>dst_str.
         bindS (bindS getUint8 getString) (\<lambda>src_str.
         bindS (bindS (getUint32 JUndefined) getBytes) (\<lambda>payload_bytes.
         ret (Some
           \<lparr>p_dst = dst_str, p_event = event_str, p_flags = flags, p_payload = payload_bytes,
            p_room = room_str, p_src = src_str, p_version = version\<rparr>)))))))) (cur b 0)))"
proof -
  have "bytecursor (JArrayBuffer b) JUndefined JUndefined = Inr (cur b 0)"
    by (simp add: bytecursor_def is_array_buffer_def cur_def)
  then show ?thesis by (simp add: parse_frame_def)
qed

lemma parse_of_frame:
  assumes fit: "fields_fit room event dst src payload" and b: "b = raw_frame v f room event dst src payload @ rest"
    and small: "length b + 1 < 2 ^ 53"
  shows "parse_frame (JArrayBuffer b) = Inr (Some (frame_packet v f room event dst src payload))"
proof -
  note rd = reads_of_frame [OF fit b]
  let ?o2 = "0 + 1 + 1 + 2 :: nat"
  let ?o3 = "?o2 + length room + 2" let ?o4 = "?o3 + length event + 1"
  let ?o5 = "?o4 + length dst + 1" let ?o6 = "?o5 + length src + 4"
  have len: "?o6 + length payload \<le> length b" "\<not> length b < client_overhead"
    by (simp_all add: b length_raw_frame HEADER_OVERHEAD_def client_overhead_def)
  have s1: "getUint8 (cur b 0) = (Inr (size_of (unat v)), cur b (0 + 1))"
    by (subst cur_byte) (use rd(1) len small in auto)
  have s2: "getUint8 (cur b (0 + 1)) = (Inr (size_of (unat f)), cur b (0 + 1 + 1))"
    by (subst cur_byte) (use rd(2) len small in auto)
  have s3: "bindS (getUint16 JUndefined) getString (cur b (0 + 1 + 1)) = (Inr (text_decode room), cur b (?o2 + length room))"
    by (subst cur_prefixed) (use rd(3,4) len small in auto)
  have s4: "bindS (getUint16 JUndefined) getString (cur b (?o2 + length room)) = (Inr (text_decode event), cur b (?o3 + length event))"
    by (subst cur_prefixed) (use rd(5,6) len small in auto)
  have s5: "bindS getUint8 getString (cur b (?o3 + length event)) = (Inr (text_decode dst), cur b (?o4 + length dst))"
    by (subst cur_prefixed) (use rd(7,8) len small in auto)
  have s6: "bindS getUint8 getString (cur b (?o4 + length dst)) = (Inr (text_decode src), cur b (?o5 + length src))"
    by (subst cur_prefixed) (use rd(9,10) len small in auto)
  have s7: "bindS (getUint32 JUndefined) getBytes (cur b (?o5 + length src)) = (Inr payload, cur b (?o6 + length payload))"
    by (subst cur_prefixed) (use rd(11,12) len small in auto)
  have "parse_frame (JArrayBuffer b) = fst (Inr (Some (frame_packet v f room event dst src payload)), cur b (?o6 + length payload))"
    unfolding parse_cur if_not_P [OF len(2)] frame_packet_def
    by (rule arg_cong [where f = fst], (rule bindS_step, rule s1)+, (rule bindS_step, rule s2)+,
      (rule bindS_step, rule s3)+, (rule bindS_step, rule s4)+, (rule bindS_step, rule s5)+,
      (rule bindS_step, rule s6)+, (rule bindS_step, rule s7)+, rule ret_apply)
  then show ?thesis by simp
qed

lemma fst_Inr: "fst x = Inr y \<longleftrightarrow> (\<exists>s. x = (Inr y, s))"
  by (cases x) simp

lemma parse_only_frames:
  assumes "parse_frame (JArrayBuffer b) = Inr (Some p)" and small: "length b + 1 < 2 ^ 53"
  shows "\<exists>v f room event dst src payload rest. fields_fit room event dst src payload \<and>
    b = raw_frame v f room event dst src payload @ rest \<and> p = frame_packet v f room event dst src payload"
proof -
  obtain x1 c1 x2 c2 s3 c3 s4 c4 s5 c5 s6 c6 s7 c7 where s:
      "getUint8 (cur b 0) = (Inr x1, c1)" "getUint8 c1 = (Inr x2, c2)"
      "bindS (getUint16 JUndefined) getString c2 = (Inr s3, c3)"
      "bindS (getUint16 JUndefined) getString c3 = (Inr s4, c4)"
      "bindS getUint8 getString c4 = (Inr s5, c5)" "bindS getUint8 getString c5 = (Inr s6, c6)"
      "bindS (getUint32 JUndefined) getBytes c6 = (Inr s7, c7)"
    using assms(1) unfolding parse_cur
    by (auto simp: bindS_eq_Inr fst_Inr split: if_splits)
  obtain v where v: "read_u8 b 0 = Inr v" "0 + 1 \<le> length b" "c1 = cur b (0 + 1)"
    using s(1) unfolding cur_byte [OF le0 small] by blast
  obtain f where f: "read_u8 b (0 + 1) = Inr f" "0 + 1 + 1 \<le> length b" "c2 = cur b (0 + 1 + 1)"
    using s(2) unfolding v(3) cur_byte [OF v(2) small] by blast
  obtain rl where rl: "read_u16 b (0 + 1 + 1) = Inr rl" "0 + 1 + 1 + 2 + rl \<le> length b" "c3 = cur b (0 + 1 + 1 + 2 + rl)"
    using s(3) unfolding f(3) cur_prefixed [OF f(2) small] by blast
  obtain el where el: "read_u16 b (0 + 1 + 1 + 2 + rl) = Inr el" "0 + 1 + 1 + 2 + rl + 2 + el \<le> length b"
      "c4 = cur b (0 + 1 + 1 + 2 + rl + 2 + el)"
    using s(4) unfolding rl(3) cur_prefixed [OF rl(2) small] by blast
  obtain dl where dl: "read_u8 b (0 + 1 + 1 + 2 + rl + 2 + el) = Inr dl"
      "0 + 1 + 1 + 2 + rl + 2 + el + 1 + dl \<le> length b" "c5 = cur b (0 + 1 + 1 + 2 + rl + 2 + el + 1 + dl)"
    using s(5) unfolding el(3) cur_prefixed [OF el(2) small] by blast
  obtain sl where sl: "read_u8 b (0 + 1 + 1 + 2 + rl + 2 + el + 1 + dl) = Inr sl"
      "0 + 1 + 1 + 2 + rl + 2 + el + 1 + dl + 1 + sl \<le> length b"
      "c6 = cur b (0 + 1 + 1 + 2 + rl + 2 + el + 1 + dl + 1 + sl)"
    using s(6) unfolding dl(3) cur_prefixed [OF dl(2) small] by blast
  obtain pl where pl: "read_u32 b (0 + 1 + 1 + 2 + rl + 2 + el + 1 + dl + 1 + sl) = Inr pl"
      "0 + 1 + 1 + 2 + rl + 2 + el + 1 + dl + 1 + sl + 4 + pl \<le> length b"
    using s(7) unfolding sl(3) cur_prefixed [OF sl(2) small] by blast
  obtain room event dst src payload rest where fr: "fields_fit room event dst src payload"
      "b = raw_frame (of_nat v) (of_nat f) room event dst src payload @ rest"
    using frame_of_reads [OF v(1) f(1) rl(1) el(1) dl(1) sl(1) pl] by (elim exE conjE) (rule that)
  have "p = frame_packet (of_nat v) (of_nat f) room event dst src payload"
    using parse_of_frame [OF fr small] assms(1) by simp
  with fr show ?thesis by (intro exI conjI)
qed

text \<open>
  What the client accepts. The listener makes a packet of a binary message exactly when it
  begins with a frame of the wire format; unlike the server's decoder it ignores bytes after
  the frame and has no size limit. So every frame the server accepts the client accepts too,
  with the same payload; anything else the client drops, silently when it is shorter than a
  header, with a logged exception otherwise.
\<close>

theorem client_accepts:
  assumes "length b + 1 < 2 ^ 53"
  shows "(\<forall>p. parse_frame (JArrayBuffer b) = Inr (Some p) \<longleftrightarrow>
      (\<exists>v f room event dst src payload rest. fields_fit room event dst src payload \<and>
        b = raw_frame v f room event dst src payload @ rest \<and> p = frame_packet v f room event dst src payload)) \<and>
    (\<forall>m. decode_message (JBuffer b) mx = Inr (Some m) \<longrightarrow>
      (\<exists>p. parse_frame (JArrayBuffer b) = Inr (Some p) \<and> p_payload p = msg_payload m)) \<and>
    (length b < client_overhead \<longleftrightarrow> parse_frame (JArrayBuffer b) = Inr None)"
proof (intro conjI allI impI)
  show "parse_frame (JArrayBuffer b) = Inr (Some p) \<longleftrightarrow>
      (\<exists>v f room event dst src payload rest. fields_fit room event dst src payload \<and>
        b = raw_frame v f room event dst src payload @ rest \<and> p = frame_packet v f room event dst src payload)" for p
    using parse_only_frames [OF _ assms] parse_of_frame [OF _ _ assms] by metis
  show "length b < client_overhead \<longleftrightarrow> parse_frame (JArrayBuffer b) = Inr None"
    unfolding parse_cur by (auto simp: fst_Inr bindS_eq_Inr ret_def)
next
  fix m
  assume "decode_message (JBuffer b) mx = Inr (Some m)"
  then have "decode_buf b mx = Inr (Some m)" by (simp add: decode_message_def)
  then obtain v f room event dst src payload where "fields_fit room event dst src payload"
      "b = raw_frame v f room event dst src payload @ []" "m = frame_message v f room event dst src payload"
    using decode_buf_only_frames by fastforce
  then show "\<exists>p. parse_frame (JArrayBuffer b) = Inr (Some p) \<and> p_payload p = msg_payload m"
    using parse_of_frame [OF _ _ assms] by (force simp: frame_packet_def frame_message_def)
qed

theorem client_accepts_witness:
  "parse_frame (JArrayBuffer [1, 0, 0]) = Inr None \<and> parse_frame (JArrayBuffer (replicate 14 0)) \<noteq> Inr None"
  using client_accepts [of "[1, 0, 0]"] client_accepts [of "replicate 14 0"] by (simp add: client_overhead_def)

lemma fields_small:
  "fields_fit room event dst src payload \<Longrightarrow> length (raw_frame v f room event dst src payload) + 1 < 2 ^ 53"
  by (simp add: fields_fit_def length_raw_frame HEADER_OVERHEAD_def)

text \<open>The frame of a client with readable names, on the server and on the next client.\<close>

lemma client_frame:
  assumes "new_message (JString room) (JString event) (JString dst) (JString src) payload flags = Inr b"
  obtains f where "fields_fit (utf8_encode room) (utf8_encode event) (utf8_encode dst) (utf8_encode src) (client_payload payload)"
    and "b = raw_frame 1 f (utf8_encode room) (utf8_encode event) (utf8_encode dst) (utf8_encode src) (client_payload payload)"
    and "size_of (unat f) = flags_value flags"
proof -
  define f where "f = (of_int (whole (flags_value flags)) :: byte)"
  have valid: "valid_int 0 255 (flags_value flags)" using assms by (simp add: new_message_iff)
  then obtain n where n: "flags_value flags = int_num n" "0 \<le> n" "n \<le> 255" by (rule valid_intE)
  then have "f = of_nat (nat n)" by (simp add: f_def)
  then have "unat f = nat n" using n by (simp add: unat_of_nat_u8 del: of_nat_nat)
  then have "size_of (unat f) = flags_value flags" using n by (simp add: int_num_def)
  then show ?thesis using assms that [of f] by (simp add: new_message_iff f_def)
qed

lemma client_frame_decoded:
  assumes "new_message (JString room) (JString event) (JString dst) (JString src) payload flags = Inr b"
    and "plain_text room" "plain_text event" "plain_text dst" "plain_text src"
    and "\<not> exceeds_max (length b) mx"
  shows "\<exists>m. decode_message (JBuffer b) mx = Inr (Some m) \<and>
    msg_room m = room \<and> msg_event m = event \<and> msg_dst m = dst \<and> msg_src m = src \<and> msg_encode m = Inr b"
proof -
  obtain f where fit: "fields_fit (utf8_encode room) (utf8_encode event) (utf8_encode dst) (utf8_encode src) (client_payload payload)"
    and b: "b = raw_frame 1 f (utf8_encode room) (utf8_encode event) (utf8_encode dst) (utf8_encode src) (client_payload payload)"
    by (rule client_frame [OF assms(1)])
  let ?m = "frame_message 1 f (utf8_encode room) (utf8_encode event) (utf8_encode dst) (utf8_encode src) (client_payload payload)"
  have utf8: "utf8_decode (utf8_encode s) = s" if "plain_text s" for s
    using that by (simp add: plain_text_def utf8_roundtrip)
  have names: "msg_room ?m = room" "msg_event ?m = event" "msg_dst ?m = dst" "msg_src ?m = src"
      "msg_payload ?m = client_payload payload"
    using assms(2-5) by (simp_all add: frame_message_def utf8)
  have dec: "decode_message (JBuffer b) mx = Inr (Some ?m)"
    using decode_raw_frame [OF fit, of 1 f mx] assms(6) by (simp add: decode_message_def b)
  have u8: "u8_of_num (msg_version ?m) = Inr 1" "u8_of_num (msg_flags ?m) = Inr f"
    using u8_of_byte [of 1] u8_of_byte [of f] by (simp_all add: frame_message_def)
  have enc: "msg_encode ?m = Inr b" unfolding encode_iff [OF u8] names using fit b by simp
  with dec names(1-4) show ?thesis by blast
qed

lemma client_frame_parsed:
  assumes "new_message (JString room) (JString event) (JString dst) (JString src) payload flags = Inr b"
    and "plain_text room" "plain_text event" "plain_text dst" "plain_text src"
  shows "parse_frame (JArrayBuffer b) = Inr (Some
      \<lparr>p_dst = dst, p_event = event, p_flags = flags_value flags, p_payload = client_payload payload,
       p_room = room, p_src = src, p_version = client_version\<rparr>)"
proof -
  obtain f where fit: "fields_fit (utf8_encode room) (utf8_encode event) (utf8_encode dst) (utf8_encode src) (client_payload payload)"
    and b: "b = raw_frame 1 f (utf8_encode room) (utf8_encode event) (utf8_encode dst) (utf8_encode src) (client_payload payload)"
    and flags: "size_of (unat f) = flags_value flags"
    by (rule client_frame [OF assms(1)])
  have "parse_frame (JArrayBuffer b) = Inr (Some
      (frame_packet 1 f (utf8_encode room) (utf8_encode event) (utf8_encode dst) (utf8_encode src) (client_payload payload)))"
    by (rule parse_of_frame [OF fit, where rest = "[]"]) (use b fields_small [OF fit] in simp_all)
  then show ?thesis
    using flags assms(2-5) by (simp add: frame_packet_def text_roundtrip client_version_def)
qed

text \<open>
  C10: From client to client. A message that a client encodes, with names free of lone
  surrogates and leading byte order marks, is decoded by the server (unless it is over the
  size limit) to the same names, the server forwards it byte for byte, and the client that
  receives it finds every field as it was sent.
\<close>

theorem client_to_client:
  assumes "new_message (JString room) (JString event) (JString dst) (JString src) payload flags = Inr b"
    and "plain_text room" "plain_text event" "plain_text dst" "plain_text src"
    and "\<not> exceeds_max (length b) mx"
  shows "\<exists>m. decode_message (JBuffer b) mx = Inr (Some m) \<and>
    msg_room m = room \<and> msg_event m = event \<and> msg_dst m = dst \<and> msg_src m = src \<and> msg_encode m = Inr b \<and>
    parse_frame (JArrayBuffer b) = Inr (Some
      \<lparr>p_dst = dst, p_event = event, p_flags = flags_value flags, p_payload = client_payload payload,
       p_room = room, p_src = src, p_version = client_version\<rparr>)"
  using client_frame_decoded [OF assms] client_frame_parsed [OF assms(1-5)] by blast

theorem client_to_client_witness:
  "\<exists>b m. new_message (JString (jstr ''room'')) (JString (jstr ''chat'')) (JString []) (JString (jstr ''A''))
      (JString (jstr ''hi'')) JUndefined = Inr b \<and>
    decode_message (JBuffer b) JUndefined = Inr (Some m) \<and> msg_event m = jstr ''chat'' \<and> msg_encode m = Inr b"
proof -
  have fit: "fields_fit (utf8_encode (jstr ''room'')) (utf8_encode (jstr ''chat'')) (utf8_encode [])
      (utf8_encode (jstr ''A'')) (utf8_encode (jstr ''hi''))"
    by (simp add: fields_fit_def jstr_def utf8_encode_def is_high_def is_low_def enc_scalar_def)
  have "valid_int 0 255 (flags_value JUndefined)"
    by (simp add: flags_value_def valid_int_def num_leq_def)
  then obtain b where b: "new_message (JString (jstr ''room'')) (JString (jstr ''chat'')) (JString [])
      (JString (jstr ''A'')) (JString (jstr ''hi'')) JUndefined = Inr b"
    using fit by (simp add: new_message_iff client_payload_def)
  have plain: "plain_text (jstr ''room'')" "plain_text (jstr ''chat'')" "plain_text []" "plain_text (jstr ''A'')"
    by (simp_all add: plain_text_def) (simp_all add: jstr_def)
  from client_to_client [OF b plain, of JUndefined] show ?thesis using b by fastforce
qed

end
