(* ===== verification/Emitter.thy ===== *)
theory Emitter
  imports JS_Value
begin

text \<open>
  The event emitter, \<^verbatim>\<open>client/emitter.js\<close>. Listeners are functions of the application,
  identified by a number, or the wrappers \<open>once\<close> creates. Calling a listener runs code that
  may use the emitter again, so the operations take the emitter's place in an arbitrary
  state (\<open>lens\<close>) and the functions that call back (\<open>emit\<close>, \<open>call\<close>) as arguments; the recursion
  is closed at the end for an emitter of its own, with fuel for the depth of nested calls.
\<close>

section \<open>Listeners and events\<close>

text \<open>
  \<open>Onetime k type f\<close>: the wrapper number \<open>k\<close>, made by \<open>once\<close> for listener \<open>f\<close>. Equality of
  these values is identity of the functions.
\<close>

datatype listener = Fn nat | Onetime nat js_string nat

fun target :: "listener \<Rightarrow> nat" where
  "target (Fn f) = f"
| "target (Onetime k type f) = f"

fun is_onetime :: "listener \<Rightarrow> bool" where
  "is_onetime (Fn f) = False"
| "is_onetime (Onetime k type f) = True"

datatype arg = Val jsval | Func nat

record emitter =
  events :: "listener list dict"
  next_wrapper :: nat

definition new_emitter :: emitter where
  "new_emitter = \<lparr>events = [], next_wrapper = 0\<rparr>"

type_synonym 's lens = "('s \<Rightarrow> emitter) \<times> ((emitter \<Rightarrow> emitter) \<Rightarrow> 's \<Rightarrow> 's)"

text \<open>\<^verbatim>\<open>events[type]\<close>, no listeners when there is no such property.\<close>

definition listed :: "emitter \<Rightarrow> js_string \<Rightarrow> listener list" where
  "listed e type = (case prop_get (events e) type of None \<Rightarrow> [] | Some ls \<Rightarrow> ls)"

definition newListener :: js_string where
  "newListener = jstr ''newListener''"

definition removeListener :: js_string where
  "removeListener = jstr ''removeListener''"

section \<open>The object\<close>

text \<open>
  \<^verbatim>\<open>create_emitter(target)\<close> copies the target's properties into a new object and puts the methods of
  the emitter over them (\<^verbatim>\<open>Object.assign({}, target, methods)\<close>).
\<close>

definition emitter_methods :: "js_string list" where
  "emitter_methods =
     map jstr [''addListener'', ''emit'', ''listeners'', ''off'', ''on'', ''once'', ''removeAllListeners'', ''removeListener'']"

datatype 'p property = Given 'p | Method js_string

definition object_assign :: "'v dict \<Rightarrow> (js_string \<times> 'v) list \<Rightarrow> 'v dict" where
  "object_assign d ps = foldl (\<lambda>d (k, v). prop_set d k v) d ps"

definition create_emitter :: "(js_string \<times> 'p) list option \<Rightarrow> 'p property dict" where
  "create_emitter given =
     (let methods = map (\<lambda>k. (k, Method k)) emitter_methods in
      case given of
        Some ps \<Rightarrow> object_assign (object_assign [] (map (\<lambda>(k, v). (k, Given v)) ps)) methods
      | None \<Rightarrow> object_assign [] methods)"

section \<open>The operations\<close>

text \<open>
  The type and the listener of a call are any values: a type that is not a string, or a
  listener that is not a function (\<open>None\<close>), makes the call do nothing. Every listener
  registered when \<open>emit\<close> starts is called, in order.
\<close>

definition emit_with :: "'s lens \<Rightarrow> (listener \<Rightarrow> arg list \<Rightarrow> 's act) \<Rightarrow> jsval \<Rightarrow> arg list \<Rightarrow> 's act" where
  "emit_with em invoke type args s =
     (case type of
        JString ty \<Rightarrow> for_each (\<lambda>fn. invoke fn args) (listed (fst em s) ty) s
      | _ \<Rightarrow> skip s)"

definition emit_result :: "emitter \<Rightarrow> jsval \<Rightarrow> bool" where
  "emit_result e type = (case type of JString ty \<Rightarrow> listed e ty \<noteq> [] | _ \<Rightarrow> False)"

definition add_to :: "js_string \<Rightarrow> listener \<Rightarrow> emitter \<Rightarrow> emitter" where
  "add_to ty l e = e\<lparr>events := prop_set (events e) ty (listed e ty @ [l])\<rparr>"

text \<open>\<open>tell em emit name ty l\<close> reports listener \<open>l\<close> of type \<open>ty\<close> to the listeners of \<open>name\<close>, if there are any.\<close>

definition tell ::
  "'s lens \<Rightarrow> (jsval \<Rightarrow> arg list \<Rightarrow> 's act) \<Rightarrow> js_string \<Rightarrow> js_string \<Rightarrow> listener \<Rightarrow> 's act" where
  "tell em emit name ty l s =
     (if listed (fst em s) name \<noteq> []
      then emit (JString name) [Val (JString ty), Func (target l)] s else skip s)"

definition add_listener ::
  "'s lens \<Rightarrow> (jsval \<Rightarrow> arg list \<Rightarrow> 's act) \<Rightarrow> jsval \<Rightarrow> listener option \<Rightarrow> 's act" where
  "add_listener em emit type listener =
     (case (type, listener) of
        (JString ty, Some l) \<Rightarrow> andthen (tell em emit newListener ty l) (modify (snd em (add_to ty l)))
      | _ \<Rightarrow> skip)"

text \<open>\<^verbatim>\<open>v === listener || v.listener === listener\<close>\<close>

definition matches :: "listener \<Rightarrow> listener \<Rightarrow> bool" where
  "matches l v \<longleftrightarrow> v = l \<or> (is_onetime v \<and> l = Fn (target v))"

primrec find_index :: "('a \<Rightarrow> bool) \<Rightarrow> 'a list \<Rightarrow> nat option" where
  "find_index P [] = None"
| "find_index P (x # xs) = (if P x then Some 0 else map_option Suc (find_index P xs))"

definition splice_at :: "js_string \<Rightarrow> nat \<Rightarrow> emitter \<Rightarrow> emitter" where
  "splice_at ty i e =
     (let ls = listed e ty; ls' = take i ls @ drop (Suc i) ls in
      e\<lparr>events := if ls' = [] then prop_del (events e) ty else prop_set (events e) ty ls'\<rparr>)"

definition remove_from ::
  "'s lens \<Rightarrow> (jsval \<Rightarrow> arg list \<Rightarrow> 's act) \<Rightarrow> js_string \<Rightarrow> listener \<Rightarrow> 's act" where
  "remove_from em emit ty l s =
     (case find_index (matches l) (listed (fst em s) ty) of
        None \<Rightarrow> skip s
      | Some index \<Rightarrow>
          andthen (modify (snd em (splice_at ty index)))
            (tell em emit removeListener ty (listed (fst em s) ty ! index)) s)"

definition remove_listener ::
  "'s lens \<Rightarrow> (jsval \<Rightarrow> arg list \<Rightarrow> 's act) \<Rightarrow> jsval \<Rightarrow> listener option \<Rightarrow> 's act" where
  "remove_listener em emit type listener =
     (case (type, listener) of (JString ty, Some l) \<Rightarrow> remove_from em emit ty l | _ \<Rightarrow> skip)"

text \<open>A wrapper first removes itself, then calls its listener.\<close>

definition invoke ::
  "'s lens \<Rightarrow> (jsval \<Rightarrow> arg list \<Rightarrow> 's act) \<Rightarrow> (nat \<Rightarrow> arg list \<Rightarrow> 's act) \<Rightarrow> listener \<Rightarrow> arg list \<Rightarrow> 's act" where
  "invoke em emit call l args =
     (case l of
        Fn f \<Rightarrow> call f args
      | Onetime k type f \<Rightarrow>
          andthen (remove_listener em emit (JString type) (Some (Onetime k type f))) (call f args))"

definition once ::
  "'s lens \<Rightarrow> (jsval \<Rightarrow> arg list \<Rightarrow> 's act) \<Rightarrow> jsval \<Rightarrow> nat option \<Rightarrow> 's act" where
  "once em emit type listener s =
     (case (type, listener) of
        (JString ty, Some f) \<Rightarrow>
          andthen (modify (snd em (\<lambda>e. e\<lparr>next_wrapper := Suc (next_wrapper e)\<rparr>)))
            (add_listener em emit type (Some (Onetime (next_wrapper (fst em s)) ty f))) s
      | _ \<Rightarrow> skip s)"

definition remove_all_of :: "'s lens \<Rightarrow> (jsval \<Rightarrow> arg list \<Rightarrow> 's act) \<Rightarrow> js_string \<Rightarrow> 's act" where
  "remove_all_of em emit ty s =
     for_each (\<lambda>fn. remove_listener em emit (JString ty) (Some fn)) (listed (fst em s) ty) s"

definition remove_all_listeners :: "'s lens \<Rightarrow> (jsval \<Rightarrow> arg list \<Rightarrow> 's act) \<Rightarrow> jsval \<Rightarrow> 's act" where
  "remove_all_listeners em emit type s =
     (case type of
        JUndefined \<Rightarrow>
          if listed (fst em s) removeListener = [] then modify (snd em (events_update (\<lambda>_. []))) s
          else andthen
            (for_each (\<lambda>key. when_act (key \<noteq> removeListener) (remove_all_of em emit key))
               (obj_keys (events (fst em s))))
            (remove_all_of em emit removeListener) s
      | JString ty \<Rightarrow> remove_all_of em emit ty s
      | _ \<Rightarrow> skip s)"

definition listeners :: "emitter \<Rightarrow> jsval \<Rightarrow> nat list" where
  "listeners e type =
     (case type of
        JUndefined \<Rightarrow> concat (map (\<lambda>key. map target (listed e key)) (obj_keys (events e)))
      | JString ty \<Rightarrow> map target (listed e ty)
      | _ \<Rightarrow> [])"

section \<open>An emitter of its own\<close>

text \<open>
  The operations an application calls; a listener that is not a function is \<open>None\<close>. What an
  application function does with its arguments is a script of such calls, and perhaps an
  exception at the end.
\<close>

datatype emitter_op =
    Emit jsval "arg list"
  | AddListener jsval "nat option"
  | RemoveListener jsval "nat option"
  | Once jsval "nat option"
  | RemoveAllListeners jsval

record estate =
  em :: emitter
  called :: "(nat \<times> arg list) list"

type_synonym app = "nat \<Rightarrow> arg list \<Rightarrow> emitter_op list \<times> js_error option"

definition own :: "estate lens" where
  "own = (em, em_update)"

definition call_app :: "(emitter_op \<Rightarrow> estate act) \<Rightarrow> app \<Rightarrow> nat \<Rightarrow> arg list \<Rightarrow> estate act" where
  "call_app run app f args = perform
     [modify (called_update (\<lambda>c. c @ [(f, args)])),
      for_each run (fst (app f args)),
      (case snd (app f args) of None \<Rightarrow> skip | Some e \<Rightarrow> throw e)]"

definition perform_op :: "(emitter_op \<Rightarrow> estate act) \<Rightarrow> app \<Rightarrow> emitter_op \<Rightarrow> estate act" where
  "perform_op run app op =
     (let emit = (\<lambda>type args. run (Emit type args)) in
      case op of
        Emit type args \<Rightarrow> emit_with own (invoke own emit (call_app run app)) type args
      | AddListener type f \<Rightarrow> add_listener own emit type (map_option Fn f)
      | RemoveListener type f \<Rightarrow> remove_listener own emit type (map_option Fn f)
      | Once type f \<Rightarrow> once own emit type f
      | RemoveAllListeners type \<Rightarrow> remove_all_listeners own emit type)"

text \<open>
  The recursion is bounded as the engine bounds it: a listener that emits its own event for
  ever exhausts the call stack.
\<close>

primrec run_op :: "nat \<Rightarrow> app \<Rightarrow> emitter_op \<Rightarrow> estate act" where
  "run_op 0 app op = throw StackOverflow"
| "run_op (Suc depth) app op = perform_op (run_op depth app) app op"

end
