(* ===== verification/Emitter_Facts.thy ===== *)
theory Emitter_Facts
  imports Emitter
begin

text \<open>
  What the event emitter keeps although its listeners may use it while they are called, and
  whom an event reaches.
\<close>

section \<open>Predicates kept in spite of re-entrance\<close>

text \<open>
  A predicate on the state of the emitter's owner, indexed by the list of the wrappers that
  \<open>once\<close> has made and not yet registered. The two functions that call back are assumed to
  keep it; then every operation does.
\<close>

locale emitter_kept =
  fixes em :: "'s lens" and P :: "nat list \<Rightarrow> 's \<Rightarrow> bool"
  assumes kept_fewer: "P (k # K) s \<Longrightarrow> P K s"
    and kept_function: "P K s \<Longrightarrow> P K (snd em (add_to ty (Fn f)) s)"
    and kept_wrapper: "P (k # K) s \<Longrightarrow> P K (snd em (add_to ty (Onetime k ty f)) s)"
    and kept_number: "P K s \<Longrightarrow>
      P (next_wrapper (fst em s) # K) (snd em (\<lambda>e. e\<lparr>next_wrapper := Suc (next_wrapper e)\<rparr>) s)"
    and kept_splice: "P K s \<Longrightarrow> P K (snd em (splice_at ty i) s)"
    and kept_clear: "P K s \<Longrightarrow> P K (snd em (events_update (\<lambda>_. [])) s)"
begin

definition calls_keep :: "(jsval \<Rightarrow> arg list \<Rightarrow> 's act) \<Rightarrow> bool" where
  "calls_keep emit \<longleftrightarrow> (\<forall>K type args. keeps (P K) (emit type args))"

lemma tell_kept: "calls_keep emit \<Longrightarrow> keeps (P K) (tell em emit name ty l)"
  by (simp add: tell_def calls_keep_def keeps_def skip_def)

lemma add_function_kept:
  "calls_keep emit \<Longrightarrow> keeps (P K) (add_listener em emit type (map_option Fn f))"
  by (auto simp: add_listener_def intro!: keeps_intros tell_kept kept_function split: jsval.split option.split)

lemma remove_from_kept: "calls_keep emit \<Longrightarrow> keeps (P K) (remove_from em emit ty l)"
proof (rule keepsI)
  fix s
  assume "calls_keep emit" "P K s"
  moreover have "P K (snd (andthen (modify (snd em (splice_at ty i))) (tell em emit removeListener ty l') s))" for i l'
    using \<open>P K s\<close> by (rule keepsD [rotated]) (intro keeps_intros kept_splice tell_kept \<open>calls_keep emit\<close>)
  ultimately show "P K (snd (remove_from em emit ty l s))"
    by (simp add: remove_from_def skip_def split: option.split)
qed

lemma remove_kept: "calls_keep emit \<Longrightarrow> keeps (P K) (remove_listener em emit type l)"
  by (auto simp: remove_listener_def intro!: keeps_intros remove_from_kept split: jsval.split option.split)

lemma invoke_kept:
  "calls_keep emit \<Longrightarrow> (\<And>f. keeps (P K) (call f args)) \<Longrightarrow> keeps (P K) (invoke em emit call l args)"
  by (auto simp: invoke_def intro!: keeps_intros remove_kept split: listener.split)

lemma emit_kept:
  assumes "\<And>l. keeps (P K) (ivk l args)"
  shows "keeps (P K) (emit_with em ivk type args)"
proof (rule keepsI)
  fix s
  assume "P K s"
  moreover have "keeps (P K) (for_each (\<lambda>fn. ivk fn args) ls)" for ls
    by (intro keeps_for_each assms)
  ultimately show "P K (snd (emit_with em ivk type args s))"
    by (auto simp: emit_with_def skip_def keepsD split: jsval.split)
qed

lemma once_kept: "calls_keep emit \<Longrightarrow> keeps (P K) (once em emit type f)"
proof (rule keepsI)
  fix s
  assume emit: "calls_keep emit" and s: "P K s"
  let ?k = "next_wrapper (fst em s)" and ?bump = "\<lambda>e. e\<lparr>next_wrapper := Suc (next_wrapper e)\<rparr>"
  note [simp] = andthen_modify skip_def
  have told: "P (?k # K) (snd (tell em emit newListener ty l (snd em ?bump s)))" for ty l
    using kept_number [OF s] tell_kept [OF emit] by (rule keepsD [rotated])
  have "P K (snd (andthen (tell em emit newListener ty l) (modify (snd em (add_to ty (Onetime ?k ty g)))) (snd em ?bump s)))"
    for ty l g
  proof (cases "tell em emit newListener ty l (snd em ?bump s)")
    case (Pair r s')
    with told [of ty l] have "P (?k # K) s'" by simp
    then show ?thesis
      using kept_fewer [of ?k K s'] kept_wrapper [of ?k K s' ty g] Pair
      by (cases r) (simp_all add: andthen_def modify_def)
  qed
  with s show "P K (snd (once em emit type f s))"
    by (cases type; cases f) (simp_all add: once_def add_listener_def)
qed

lemma remove_all_of_kept: "calls_keep emit \<Longrightarrow> keeps (P K) (remove_all_of em emit ty)"
  unfolding keeps_def remove_all_of_def
  by (auto intro!: keepsD [OF keeps_for_each] remove_kept)

lemma remove_all_kept: "calls_keep emit \<Longrightarrow> keeps (P K) (remove_all_listeners em emit type)"
proof (rule keepsI)
  fix s
  assume emit: "calls_keep emit" and s: "P K s"
  have "keeps (P K) (andthen (for_each (\<lambda>key. when_act (key \<noteq> removeListener) (remove_all_of em emit key)) ks)
      (remove_all_of em emit removeListener))" for ks
    by (intro keeps_intros remove_all_of_kept emit)
  with s emit show "P K (snd (remove_all_listeners em emit type s))"
    by (auto simp: remove_all_listeners_def skip_def modify_def kept_clear keepsD keepsD [OF remove_all_of_kept]
        split: jsval.split)
qed

lemmas operations_kept = add_function_kept remove_kept once_kept remove_all_kept

end

section \<open>The registry of listeners\<close>

text \<open>
  There is no empty list of listeners, and each wrapper is registered at most once, and
  under the type it removes itself from.
\<close>

fun wrapper :: "listener \<Rightarrow> nat option" where
  "wrapper (Fn f) = None"
| "wrapper (Onetime k type f) = Some k"

definition wrappers :: "emitter \<Rightarrow> js_string \<Rightarrow> nat list" where
  "wrappers e ty = List.map_filter wrapper (listed e ty)"

fun at_home :: "emitter \<Rightarrow> js_string \<Rightarrow> listener \<Rightarrow> bool" where
  "at_home e ty (Fn f) \<longleftrightarrow> True"
| "at_home e ty (Onetime k type f) \<longleftrightarrow> type = ty \<and> k < next_wrapper e"

definition emitter_ok :: "emitter \<Rightarrow> bool" where
  "emitter_ok e \<longleftrightarrow>
     wf_dict (events e) \<and>
     (\<forall>ty. prop_get (events e) ty \<noteq> Some []) \<and>
     (\<forall>ty. \<forall>l\<in>set (listed e ty). at_home e ty l) \<and>
     (\<forall>ty. distinct (wrappers e ty)) \<and>
     (\<forall>k ty ty'. k \<in> set (wrappers e ty) \<longrightarrow> k \<in> set (wrappers e ty') \<longrightarrow> ty = ty')"

definition unregistered :: "nat list \<Rightarrow> emitter \<Rightarrow> bool" where
  "unregistered K e \<longleftrightarrow> distinct K \<and> (\<forall>k\<in>set K. k < next_wrapper e \<and> (\<forall>ty. k \<notin> set (wrappers e ty)))"

lemma listed_add [simp]: "listed (add_to ty l e) t = (if t = ty then listed e ty @ [l] else listed e t)"
  by (simp add: add_to_def listed_def)

lemma listed_splice [simp]:
  "listed (splice_at ty i e) t = (if t = ty then take i (listed e ty) @ drop (Suc i) (listed e ty) else listed e t)"
  by (auto simp: splice_at_def listed_def [of "e\<lparr>events := _\<rparr>"] Let_def) (simp_all add: listed_def)

lemma next_wrapper_same [simp]:
  "next_wrapper (add_to ty l e) = next_wrapper e" "next_wrapper (splice_at ty i e) = next_wrapper e"
  by (simp_all add: add_to_def splice_at_def Let_def)

lemma listed_bump [simp]: "listed (e\<lparr>next_wrapper := n\<rparr>) ty = listed e ty"
  by (simp add: listed_def)

lemma at_home_same [simp]:
  "at_home (add_to t x e) ty l = at_home e ty l" "at_home (splice_at t i e) ty l = at_home e ty l"
  by (cases l; simp)+

lemma at_home_bump: "at_home e ty l \<Longrightarrow> at_home (e\<lparr>next_wrapper := Suc (next_wrapper e)\<rparr>) ty l"
  by (cases l) auto

lemma map_filter_append: "List.map_filter f (xs @ ys) = List.map_filter f xs @ List.map_filter f ys"
  by (simp add: List.map_filter_def)

lemma wrappers_simps [simp]:
  "wrappers (add_to ty l e) t = (if t = ty then wrappers e ty @ List.map_filter wrapper [l] else wrappers e t)"
  "wrappers (e\<lparr>next_wrapper := n\<rparr>) ty = wrappers e ty"
  by (simp_all add: wrappers_def map_filter_append)

lemma wrappers_splice:
  "set (wrappers (splice_at ty i e) t) \<subseteq> set (wrappers e t)"
  "distinct (wrappers e t) \<Longrightarrow> distinct (wrappers (splice_at ty i e) t)"
proof -
  let ?ls = "listed e ty"
  have split: "?ls = take i ?ls @ take 1 (drop i ?ls) @ drop (Suc i) ?ls"
    by (metis append_take_drop_id drop_drop plus_1_eq_Suc)
  then have w: "wrappers e ty = List.map_filter wrapper (take i ?ls) @ List.map_filter wrapper (take 1 (drop i ?ls))
      @ List.map_filter wrapper (drop (Suc i) ?ls)"
    unfolding wrappers_def by (metis map_filter_append)
  have s: "wrappers (splice_at ty i e) t =
      (if t = ty then List.map_filter wrapper (take i ?ls) @ List.map_filter wrapper (drop (Suc i) ?ls) else wrappers e t)"
    by (simp add: wrappers_def map_filter_append)
  show "set (wrappers (splice_at ty i e) t) \<subseteq> set (wrappers e t)" using w s by auto
  show "distinct (wrappers e t) \<Longrightarrow> distinct (wrappers (splice_at ty i e) t)" using w s by (auto split: if_splits)
qed

lemma wrapper_listed: "k \<in> set (wrappers e ty) \<longleftrightarrow> (\<exists>type f. Onetime k type f \<in> set (listed e ty))"
proof -
  have "wrapper l = Some k \<longleftrightarrow> (\<exists>type f. l = Onetime k type f)" for l
    by (cases l) auto
  then show ?thesis by (auto simp: wrappers_def List.map_filter_def image_iff) force+
qed

lemma set_splice: "x \<in> set (take i ls @ drop (Suc i) ls) \<Longrightarrow> x \<in> set ls"
  by (auto dest: in_set_takeD in_set_dropD)

lemma events_add: "events (add_to ty l e) = prop_set (events e) ty (listed e ty @ [l])"
  by (simp add: add_to_def)

lemma ok_function: "emitter_ok e \<Longrightarrow> emitter_ok (add_to ty (Fn f) e)"
  by (auto simp: emitter_ok_def events_add List.map_filter_def)

lemma ok_wrapper:
  assumes "emitter_ok e" "k < next_wrapper e" "\<forall>ty. k \<notin> set (wrappers e ty)"
  shows "emitter_ok (add_to ty (Onetime k ty f) e)"
  using assms unfolding emitter_ok_def by (auto simp: events_add List.map_filter_def)

lemma ok_splice: "emitter_ok e \<Longrightarrow> emitter_ok (splice_at ty i e)"
proof -
  assume ok: "emitter_ok e"
  have "wf_dict (events (splice_at ty i e))" and "\<forall>t. prop_get (events (splice_at ty i e)) t \<noteq> Some []"
    using ok by (auto simp: emitter_ok_def splice_at_def Let_def)
  moreover have "\<forall>t. \<forall>l\<in>set (listed (splice_at ty i e) t). at_home (splice_at ty i e) t l"
    using ok by (auto simp: emitter_ok_def dest!: in_set_takeD in_set_dropD)
  moreover have "\<forall>t. distinct (wrappers (splice_at ty i e) t)"
    using ok by (auto simp: emitter_ok_def intro: wrappers_splice(2))
  moreover have "\<forall>k t t'. k \<in> set (wrappers (splice_at ty i e) t) \<longrightarrow> k \<in> set (wrappers (splice_at ty i e) t') \<longrightarrow> t = t'"
    using ok wrappers_splice(1) [of ty i e] unfolding emitter_ok_def by blast
  ultimately show ?thesis by (simp add: emitter_ok_def)
qed

lemma ok_clear: "emitter_ok (events_update (\<lambda>_. []) e)"
  by (simp add: emitter_ok_def listed_def wrappers_def List.map_filter_def)

lemma ok_number: "emitter_ok e \<Longrightarrow> emitter_ok (e\<lparr>next_wrapper := Suc (next_wrapper e)\<rparr>)"
  by (auto simp: emitter_ok_def intro: at_home_bump)

lemma ok_new: "emitter_ok new_emitter"
  by (simp add: emitter_ok_def new_emitter_def listed_def wrappers_def List.map_filter_def)

lemma ok_below: "emitter_ok e \<Longrightarrow> k \<in> set (wrappers e ty) \<Longrightarrow> k < next_wrapper e"
  by (fastforce simp: emitter_ok_def wrapper_listed)

section \<open>An emitter of its own\<close>

lemma own_simps [simp]: "fst own = em" "snd own = em_update"
  by (simp_all add: own_def)

locale app_kept = emitter_kept own P for P :: "nat list \<Rightarrow> estate \<Rightarrow> bool" +
  assumes kept_called: "P K s \<Longrightarrow> P K (called_update (\<lambda>c. c @ [x]) s)"
begin

lemma call_app_kept: "(\<And>op. keeps (P K) (run op)) \<Longrightarrow> keeps (P K) (call_app run app f args)"
  by (auto simp: call_app_def intro!: keeps_intros kept_called split: option.split)

lemma perform_op_kept:
  assumes "\<And>K op. keeps (P K) (run op)"
  shows "keeps (P K) (perform_op run app op)"
proof -
  have calls: "calls_keep (\<lambda>type args. run (Emit type args))"
    by (simp add: calls_keep_def assms)
  show ?thesis
    by (cases op) (auto simp: perform_op_def Let_def intro!: operations_kept calls emit_kept invoke_kept
        call_app_kept assms)
qed

lemma run_op_kept: "keeps (P K) (run_op depth app op)"
proof (induction depth arbitrary: K op)
  case 0
  show ?case by (simp add: keeps_throw)
next
  case (Suc depth)
  then show ?case by (simp add: perform_op_kept)
qed

end

definition owned :: "nat list \<Rightarrow> estate \<Rightarrow> bool" where
  "owned K s \<longleftrightarrow> emitter_ok (em s) \<and> unregistered K (em s)"

interpretation registry: app_kept owned
proof
  show "owned (k # K) s \<Longrightarrow> owned K s" for k K s
    by (simp add: owned_def unregistered_def)
  show "owned K s \<Longrightarrow> owned K (snd own (add_to ty (Fn f)) s)" for K s ty f
    by (simp add: owned_def unregistered_def ok_function List.map_filter_def)
  show "owned (k # K) s \<Longrightarrow> owned K (snd own (add_to ty (Onetime k ty f)) s)" for k K s ty f
    by (auto simp: owned_def unregistered_def List.map_filter_def intro!: ok_wrapper)
  show "owned K s \<Longrightarrow> owned (next_wrapper (fst own s) # K)
      (snd own (\<lambda>e. e\<lparr>next_wrapper := Suc (next_wrapper e)\<rparr>) s)" for K s
    by (auto simp: owned_def unregistered_def ok_number less_Suc_eq dest: ok_below)
  show "owned K s \<Longrightarrow> owned K (snd own (splice_at ty i) s)" for K s ty i
    using wrappers_splice(1) by (fastforce simp: owned_def unregistered_def ok_splice)
  show "owned K s \<Longrightarrow> owned K (snd own (events_update (\<lambda>_. [])) s)" for K s
    by (simp add: owned_def unregistered_def ok_clear wrappers_def listed_def List.map_filter_def)
  show "owned K s \<Longrightarrow> owned K (called_update (\<lambda>c. c @ [x]) s)" for K s x
    by (simp add: owned_def)
qed

text \<open>
  C16: whatever an application does with an emitter, and whatever its listeners do while they
  are called, the registry stays well formed: no event has an empty list, every wrapper of
  \<open>once\<close> is registered at most once, and under the event it removes itself from.
\<close>

theorem registry_kept:
  "emitter_ok (em (snd (for_each (run_op depth app) ops \<lparr>em = new_emitter, called = []\<rparr>)))"
proof -
  have "keeps (owned []) (for_each (run_op depth app) ops)"
    by (intro keeps_for_each registry.run_op_kept)
  moreover have "owned [] \<lparr>em = new_emitter, called = []\<rparr>"
    by (simp add: owned_def unregistered_def ok_new)
  ultimately have "owned [] (snd (for_each (run_op depth app) ops \<lparr>em = new_emitter, called = []\<rparr>))"
    by (rule keepsD)
  then show ?thesis by (simp add: owned_def)
qed

section \<open>Whom an event reaches\<close>

interpretation calls_grow: app_kept "\<lambda>K s. \<exists>xs. called s = c @ xs" for c
  by unfold_locales auto

lemma calls_only_grow:
  assumes "\<And>c. keeps (\<lambda>s. \<exists>xs. called s = c @ xs) a"
  shows "\<exists>xs. called (snd (a s)) = called s @ xs"
  using keepsD [OF assms [of "called s"], of s] by simp

definition calls_block :: "listener \<Rightarrow> arg list \<Rightarrow> (nat \<times> arg list) list \<Rightarrow> bool" where
  "calls_block l args b \<longleftrightarrow> (target l, args) \<in> set b"

lemma call_app_called:
  "\<exists>xs. called (snd (call_app (run_op d app) app f args s)) = called s @ (f, args) # xs"
proof -
  let ?s = "called_update (\<lambda>c. c @ [(f, args)]) s"
  let ?rest = "perform [for_each (run_op d app) (fst (app f args)),
      case snd (app f args) of None \<Rightarrow> skip | Some e \<Rightarrow> throw e]"
  have "call_app (run_op d app) app f args s = ?rest ?s"
    by (simp add: call_app_def andthen_modify)
  moreover have "\<exists>xs. called (snd (?rest ?s)) = called ?s @ xs"
    by (rule calls_only_grow)
      (auto intro!: keeps_intros calls_grow.run_op_kept split: option.split)
  ultimately show ?thesis by auto
qed

lemma invoke_called:
  assumes "fst (invoke own (\<lambda>type args. run_op d app (Emit type args)) (call_app (run_op d app) app) l args s) = None"
  shows "\<exists>b. calls_block l args b \<and> called (snd (invoke own (\<lambda>type args. run_op d app (Emit type args))
    (call_app (run_op d app) app) l args s)) = called s @ b"
proof (cases l)
  case (Fn f)
  then show ?thesis using call_app_called [of d app f args s] by (auto simp: invoke_def calls_block_def)
next
  case (Onetime k type f)
  let ?r = "remove_listener own (\<lambda>type args. run_op d app (Emit type args)) (JString type) (Some l)"
  have "\<exists>xs. called (snd (?r s)) = called s @ xs"
    by (rule calls_only_grow) (intro calls_grow.remove_kept, simp add: calls_grow.calls_keep_def calls_grow.run_op_kept)
  moreover obtain s' where "?r s = (None, s')" and
    "snd (invoke own (\<lambda>type args. run_op d app (Emit type args)) (call_app (run_op d app) app) l args s)
      = snd (call_app (run_op d app) app f args s')"
    using assms Onetime by (auto simp: invoke_def andthen_def split: prod.splits option.splits)
  ultimately show ?thesis using call_app_called [of d app f args s'] Onetime
    by (auto simp: calls_block_def)
qed

text \<open>
  C15: an event that is emitted without an exception reaches every listener that was registered
  when it started, in the order of registration, whatever the listeners do to the emitter in
  the meantime (removing or adding listeners, emitting again): the calls made fall into
  consecutive blocks, one for each of them, and its own call is in its block.
\<close>

theorem emit_reaches_all:
  assumes "run_op (Suc depth) app (Emit (JString ty) args) s = (None, s')"
  shows "\<exists>blocks. list_all2 (\<lambda>l b. calls_block l args b) (listed (em s) ty) blocks \<and>
    called s' = called s @ concat blocks"
proof -
  let ?ivk = "invoke own (\<lambda>type args. run_op depth app (Emit type args)) (call_app (run_op depth app) app)"
  have "\<exists>blocks. list_all2 (\<lambda>l b. calls_block l args b) ls blocks \<and> called s' = called s @ concat blocks"
    if "for_each (\<lambda>l. ?ivk l args) ls s = (None, s')" for ls s
    using that
  proof (induction ls arbitrary: s)
    case Nil
    then show ?case by simp
  next
    case (Cons l ls)
    then obtain s1 where 1: "?ivk l args s = (None, s1)" and 2: "for_each (\<lambda>l. ?ivk l args) ls s1 = (None, s')"
      by (auto simp: andthen_def split: prod.splits option.splits)
    from Cons.IH [OF 2] obtain blocks where "list_all2 (\<lambda>l b. calls_block l args b) ls blocks"
      "called s' = called s1 @ concat blocks" by blast
    moreover obtain b where "calls_block l args b" "called s1 = called s @ b"
      using invoke_called [of depth app l args s] 1 by auto
    ultimately show ?case by (intro exI [of _ "b # blocks"]) simp
  qed
  with assms show ?thesis by (simp add: perform_op_def emit_with_def)
qed

text \<open>A listener that removes the next one while it is called.\<close>

definition evicting :: app where
  "evicting f args = (if f = 0 then [RemoveListener (JString [120]) (Some 1)] else [], None)"

definition two_listeners :: estate where
  "two_listeners = \<lparr>em = \<lparr>events = [([120], [Fn 0, Fn 1])], next_wrapper = 0\<rparr>, called = []\<rparr>"

lemma evicting_runs:
  "run_op 3 evicting (Emit (JString [120]) []) two_listeners =
     (None, \<lparr>em = \<lparr>events = [([120], [Fn 0])], next_wrapper = 0\<rparr>, called = [(0, []), (1, [])]\<rparr>)"
  by code_simp

theorem emit_reaches_all_witness:
  "\<exists>blocks. list_all2 (\<lambda>l b. calls_block l [] b) [Fn 0, Fn 1] blocks \<and>
    [(0, []), (1, [])] = concat blocks"
  using emit_reaches_all [of 2 evicting "[120]" "[]" two_listeners] evicting_runs
  by (simp add: numeral_3_eq_3 two_listeners_def listed_def prop_get_def)

lemma call_observing:
  "app f args = ([], None) \<Longrightarrow> call_app run app f args s = (None, called_update (\<lambda>c. c @ [(f, args)]) s)"
  proof -
  assume "app f args = ([], None)"
  then have "call_app run app f args s = perform [for_each run [], skip] (called_update (\<lambda>c. c @ [(f, args)]) s)"
    by (simp add: call_app_def andthen_modify)
  then show ?thesis by (simp add: andthen_def skip_def)
qed

lemma find_wrapper:
  "\<forall>l\<in>set pre. \<not> is_onetime l \<Longrightarrow>
     find_index (matches (Onetime k type f)) (pre @ Onetime k type f # ls) = Some (length pre)"
  by (induction pre) (auto simp: matches_def)

lemma find_no_wrapper:
  "\<forall>l\<in>set ls. \<not> is_onetime l \<Longrightarrow> find_index (matches (Onetime k type f)) ls = None"
  by (induction ls) (auto simp: matches_def)

text \<open>A wrapper that is called is gone when its listener runs.\<close>

lemma invoke_wrapper:
  assumes "listed (em s) ty = pre @ Onetime k ty f # ls" "\<forall>l\<in>set pre. \<not> is_onetime l"
    and "listed (em s) removeListener = []" "app f args = ([], None)"
  shows "invoke own emit (call_app run app) (Onetime k ty f) args s =
    (None, called_update (\<lambda>c. c @ [(f, args)]) (em_update (splice_at ty (length pre)) s))"
proof -
  have "listed (splice_at ty (length pre) (em s)) removeListener = []"
    using assms(1,3) by auto
  then show ?thesis
    using assms by (simp add: invoke_def remove_listener_def remove_from_def find_wrapper andthen_modify
        andthen_None tell_def skip_def call_observing)
qed

lemma invoke_gone:
  assumes "\<forall>l\<in>set (listed (em s) ty). \<not> is_onetime l" "app f args = ([], None)"
  shows "invoke own emit (call_app run app) (Onetime k ty f) args s =
    (None, called_update (\<lambda>c. c @ [(f, args)]) s)"
proof -
  have "remove_from own emit ty (Onetime k ty f) s = (None, s)"
    using assms(1) by (simp add: remove_from_def find_no_wrapper skip_def)
  then show ?thesis using assms(2) by (simp add: invoke_def remove_listener_def andthen_None call_observing)
qed

lemma invoke_function:
  "app f args = ([], None) \<Longrightarrow>
     invoke own emit (call_app run app) (Fn f) args s = (None, called_update (\<lambda>c. c @ [(f, args)]) s)"
  by (simp add: invoke_def call_observing)

lemma observed_walk:
  assumes "emitter_ok (em s)" "listed (em s) ty = pre @ ls" "\<forall>l\<in>set pre. \<not> is_onetime l"
    and "\<forall>l\<in>set ls. app (target l) args = ([], None)" "listed (em s) removeListener = []"
    and ivk: "ivk = invoke own (\<lambda>type args. run_op depth app (Emit type args)) (call_app (run_op depth app) app)"
  shows "\<exists>s'. for_each (\<lambda>l. ivk l args) ls s = (None, s') \<and>
      called s' = called s @ map (\<lambda>l. (target l, args)) ls \<and>
      listed (em s') ty = pre @ filter (\<lambda>l. \<not> is_onetime l) ls \<and>
      (\<forall>t. t \<noteq> ty \<longrightarrow> listed (em s') t = listed (em s) t)"
  using assms(1-5)
proof (induction ls arbitrary: pre s)
  case (Cons l ls)
  show ?case
  proof (cases l)
    case (Fn f)
    let ?s = "called_update (\<lambda>c. c @ [(f, args)]) s"
    from Cons.prems Fn Cons.IH [of ?s "pre @ [l]"] show ?thesis
      by (auto simp: andthen_None ivk invoke_function)
  next
    case (Onetime k type f)
    let ?s = "called_update (\<lambda>c. c @ [(f, args)]) (em_update (splice_at ty (length pre)) s)"
    have "l \<in> set (listed (em s) ty)" by (simp add: Cons.prems(2))
    with Cons.prems(1) have "at_home (em s) ty l" by (auto simp only: emitter_ok_def)
    with Onetime have type: "type = ty" by simp
    from Cons.prems(1,3) Onetime have step: "ivk l args s = (None, ?s)"
      using invoke_wrapper [of s ty pre k f ls] Cons.prems(2,4,5) type by (simp add: ivk)
    from Cons.prems Onetime have "\<exists>s'. for_each (\<lambda>l. ivk l args) ls ?s = (None, s') \<and>
        called s' = called ?s @ map (\<lambda>l. (target l, args)) ls \<and>
        listed (em s') ty = pre @ filter (\<lambda>l. \<not> is_onetime l) ls \<and>
        (\<forall>t. t \<noteq> ty \<longrightarrow> listed (em s') t = listed (em ?s) t)"
      by (intro Cons.IH) (simp_all add: ok_splice)
    then obtain s' where s': "for_each (\<lambda>l. ivk l args) ls ?s = (None, s')"
        "called s' = called ?s @ map (\<lambda>l. (target l, args)) ls"
        "listed (em s') ty = pre @ filter (\<lambda>l. \<not> is_onetime l) ls"
        "\<forall>t. t \<noteq> ty \<longrightarrow> listed (em s') t = listed (em ?s) t" by blast
    have "for_each (\<lambda>l. ivk l args) (l # ls) s = (None, s')"
      using step s'(1) by (simp only: for_each.simps andthen_None)
    with s'(2-4) Onetime show ?thesis by (intro exI [of _ s']) simp
  qed
qed simp

text \<open>
  when the registered listeners only observe, an event calls exactly them, in the order of
  registration and with its arguments; afterwards those added by \<open>once\<close> are gone, the others
  and all other events' listeners are as before.
\<close>

theorem emit_observers:
  assumes ok: "emitter_ok (em s)"
    and observe: "\<forall>l\<in>set (listed (em s) ty). app (target l) args = ([], None)"
    and quiet: "listed (em s) removeListener = []"
  shows "\<exists>s'. run_op (Suc depth) app (Emit (JString ty) args) s = (None, s') \<and>
    called s' = called s @ map (\<lambda>l. (target l, args)) (listed (em s) ty) \<and>
    listed (em s') ty = filter (\<lambda>l. \<not> is_onetime l) (listed (em s) ty) \<and>
    (\<forall>t. t \<noteq> ty \<longrightarrow> listed (em s') t = listed (em s) t)"
  using observed_walk [where pre = "[]" and ls = "listed (em s) ty" and s = s and ty = ty and app = app and args = args
      and depth = depth, OF ok _ _ observe quiet HOL.refl]
  by (simp add: perform_op_def emit_with_def)

text \<open>
  a listener registered with \<open>once\<close> can run twice. Its wrapper removes itself when it is
  called, but an event that is already being emitted calls it from its copy of the list: if an
  earlier listener emits the same event again, the inner event calls the listener and the
  outer one calls it once more. (Node.js guards its wrapper with a flag.)
\<close>

theorem once_runs_twice:
  assumes "listed (em s) ty = [Fn g, Onetime k ty f]"
    and "listed (em s) removeListener = []"
    and "app g a = ([Emit (JString ty) b], None)" "app g b = ([], None)"
    and "\<forall>x. app f x = ([], None)"
  shows "\<exists>s'. run_op (Suc (Suc depth)) app (Emit (JString ty) a) s = (None, s') \<and>
    called s' = called s @ [(g, a), (g, b), (f, b), (f, a)]"
proof -
  let ?log = "\<lambda>x s. called_update (\<lambda>c. c @ [x]) s"
  let ?s1 = "?log (g, a) s" and ?s2 = "?log (f, b) (em_update (splice_at ty 1) (?log (g, b) (?log (g, a) s)))"
  have inner: "run_op (Suc depth) app (Emit (JString ty) b) ?s1 = (None, ?s2)"
    using assms invoke_wrapper [of "?log (g, b) ?s1" ty "[Fn g]" k f "[]"]
    by (simp add: perform_op_def emit_with_def andthen_None invoke_function)
  have g: "invoke own emit (call_app (run_op (Suc depth) app) app) (Fn g) a s = (None, ?s2)" for emit
    unfolding invoke_def call_app_def using inner assms(3)
    by (simp only: listener.case fst_conv snd_conv perform.simps for_each.simps)
      (simp add: andthen_modify andthen_None skip_def del: run_op.simps)
  have "listed (em ?s2) ty = [Fn g]" using assms(1) by simp
  then have f: "invoke own emit (call_app run app) (Onetime k ty f) a ?s2 = (None, ?log (f, a) ?s2)" for emit run
    by (intro invoke_gone) (simp_all only: assms(5) list.set ball_simps is_onetime.simps simp_thms)
  have "run_op (Suc (Suc depth)) app (Emit (JString ty) a) s = (None, ?log (f, a) ?s2)"
    unfolding run_op.simps(2) [of "Suc depth"] perform_op_def emit_with_def Let_def emitter_op.case
      jsval.case own_simps assms(1)
    by (simp only: for_each.simps andthen_None [where a = "invoke _ _ _ _ _", OF g]
        andthen_None [where a = "invoke _ _ _ _ _", OF f])
  then show ?thesis by simp
qed

definition re_emitting :: app where
  "re_emitting f args = (if f = 0 \<and> args = [] then [Emit (JString [120]) [Val JNull]] else [], None)"

theorem emit_observers_witness:
  "\<exists>s'. run_op (Suc 0) re_emitting (Emit (JString [120]) [Val JNull])
      \<lparr>em = \<lparr>events = [([120], [Fn 0, Onetime 0 [120] 1])], next_wrapper = 1\<rparr>, called = []\<rparr> = (None, s') \<and>
    called s' = [(0, [Val JNull]), (1, [Val JNull])] \<and> listed (em s') [120] = [Fn 0]"
proof -
  let ?e = "\<lparr>events = [([120], [Fn 0, Onetime 0 [120] 1])], next_wrapper = 1\<rparr>"
  note [simp del] = One_nat_def
  have l: "listed ?e t = (if t = [120] then [Fn 0, Onetime 0 [120] 1] else [])" for t
    by (simp add: listed_def prop_get_def)
  have "emitter_ok ?e"
    by (auto simp: emitter_ok_def l wrappers_def List.map_filter_def prop_get_def wf_dict_def split: if_splits)
  moreover have "removeListener \<noteq> [120]" by code_simp
  ultimately show ?thesis
    using emit_observers [of "\<lparr>em = ?e, called = []\<rparr>" "[120]" re_emitting "[Val JNull]" 0]
    by (auto simp: l re_emitting_def)
qed

theorem once_runs_twice_witness:
  "\<exists>s'. run_op 2 re_emitting (Emit (JString [120]) [])
      \<lparr>em = \<lparr>events = [([120], [Fn 0, Onetime 0 [120] 1])], next_wrapper = 1\<rparr>, called = []\<rparr> = (None, s') \<and>
    called s' = [(0, []), (0, [Val JNull]), (1, [Val JNull]), (1, [])]"
proof -
  have "removeListener \<noteq> [120]" by code_simp
  then show ?thesis
    using once_runs_twice [of "\<lparr>em = \<lparr>events = [([120], [Fn 0, Onetime 0 [120] 1])], next_wrapper = 1\<rparr>,
        called = []\<rparr>" "[120]" 0 0 1 re_emitting "[]" "[Val JNull]" 0]
    by (simp add: listed_def prop_get_def re_emitting_def numeral_2_eq_2)
qed

end
