(* ===== verification/Client.thy ===== *)
theory Client
  imports Client_Codec Emitter_Facts
begin

text \<open>
  The client, \<^verbatim>\<open>client/roomer.js\<close>: the rooms an application holds, the WebSocket below them
  and its reconnection. The variables of the closures are records; room objects live in a heap
  and are named by their place in it, because the application may keep one that is no longer
  registered. The platform (WebSocket, timers, \<^verbatim>\<open>Math.random\<close>) and the
  application are parameters.
\<close>

section \<open>State\<close>

text \<open>\<^verbatim>\<open>get_room\<close>'s variables.\<close>

record croom =
  cr_name :: js_string
  cr_members :: "json list"
  cr_registered :: "unit dict"
  cr_is_open :: bool
  cr_member_id :: js_string
  cr_em :: emitter

text \<open>What the client reads of a WebSocket.\<close>

record wsock =
  ws_state :: ready_state
  ws_url :: js_string
  ws_buffered :: jsnum

datatype client_effect =
    New_socket nat
  | Sent nat bytes
  | Closing nat jsnum js_string
  | Set_timeout nat jsnum
  | Called nat "arg list"
  | Log
  | Escaped js_error

text \<open>
  \<^verbatim>\<open>roomer\<close>'s variables, the sockets it has made, the timeouts the platform still holds, and
  the effects so far.
\<close>

record client =
  objects :: "croom list"
  c_rooms :: "nat dict"
  c_socket :: "nat option"
  manual_close :: bool
  reconnect_delay :: jsnum
  reconnect_timer :: "nat option"
  sockets :: "wsock list"
  attempts :: nat
  timers :: "nat list"
  next_timer :: nat
  c_out :: "client_effect list"

record options =
  initial_delay :: jsnum
  max_delay :: jsnum
  reconnect :: jsval
  should_reconnect :: "(jsnum \<Rightarrow> js_string \<Rightarrow> jsval) option"

text \<open>The application's own \<open>should_reconnect\<close> is a function, or \<open>None\<close> for any other value.\<close>

definition default_should_reconnect :: "jsnum \<Rightarrow> js_string \<Rightarrow> jsval" where
  "default_should_reconnect code reason =
     (if num_eq code (Fin 1000) \<or> num_eq code (Fin 1008)
         \<or> (num_leq (Fin 4000) code \<and> num_less code (Fin 5000))
      then JBool False else JBool True)"

definition default_options :: options where
  "default_options =
     \<lparr>initial_delay = Fin 500, max_delay = Fin 5000, reconnect = JBool True,
      should_reconnect = Some default_should_reconnect\<rparr>"

text \<open>
  The calls an application makes. A room object is given by its place in the heap; a call on an
  object that does not exist cannot happen and does nothing.
\<close>

datatype client_call =
    On nat emitter_op
  | Clear_listeners nat "jsval list option"
  | Force_close nat jsval jsval jsval
  | Join nat jsval
  | Leave nat
  | Parse nat packet
  | Send nat jsval jsval jsval
  | Close nat jsval jsval
  | Purge nat

fun receiver :: "client_call \<Rightarrow> nat" where
  "receiver (On h op) = h"
| "receiver (Clear_listeners h exceptions) = h"
| "receiver (Force_close h d c r) = h"
| "receiver (Join h n) = h"
| "receiver (Leave h) = h"
| "receiver (Parse h p) = h"
| "receiver (Send h e p d) = h"
| "receiver (Close h c r) = h"
| "receiver (Purge h) = h"

text \<open>
  The parameters: the options after \<^verbatim>\<open>Object.assign\<close>, the URL, which calls of the WebSocket
  constructor and of its \<open>close\<close> succeed, random numbers, the property key
  of a value that is not a string, and the application's functions. A function looks at the
  state before each call it makes, and may end in an exception. \<open>stack\<close> is the engine's bound on
  nested calls.
\<close>

record platform =
  opts :: options
  url :: js_string
  ws_new :: "nat \<Rightarrow> bool"
  ws_close_ok :: "jsnum \<Rightarrow> js_string \<Rightarrow> bool"
  random :: "nat \<Rightarrow> jsnum"
  to_key :: "arg option \<Rightarrow> js_string"
  app_function :: "nat \<Rightarrow> arg list \<Rightarrow> (client \<Rightarrow> client_call) list \<times> js_error option"
  stack :: nat

section \<open>The heap of rooms\<close>

definition no_room :: croom where
  "no_room = \<lparr>cr_name = [], cr_members = [], cr_registered = [], cr_is_open = False, cr_member_id = [],
     cr_em = new_emitter\<rparr>"

definition obj :: "client \<Rightarrow> nat \<Rightarrow> croom" where
  "obj s h = (if h < length (objects s) then objects s ! h else no_room)"

definition upd_obj :: "nat \<Rightarrow> (croom \<Rightarrow> croom) \<Rightarrow> client \<Rightarrow> client" where
  "upd_obj h f s = s\<lparr>objects := (objects s)[h := f (obj s h)]\<rparr>"

definition room_lens :: "nat \<Rightarrow> client lens" where
  "room_lens h = ((\<lambda>s. cr_em (obj s h)), (\<lambda>f. upd_obj h (cr_em_update f)))"

definition effect :: "client_effect \<Rightarrow> client act" where
  "effect e = modify (\<lambda>s. s\<lparr>c_out := c_out s @ [e]\<rparr>)"

text \<open>\<^verbatim>\<open>try { a } catch (err) { console.error(...) }\<close>\<close>

definition try_log :: "client act \<Rightarrow> client act" where
  "try_log a s = (case a s of (None, s') \<Rightarrow> (None, s') | (Some e, s') \<Rightarrow> effect Log s')"

section \<open>The socket\<close>

definition socket_state :: "client \<Rightarrow> ready_state option" where
  "socket_state s =
     (case c_socket s of Some i \<Rightarrow> if i < length (sockets s) then Some (ws_state (sockets s ! i)) else None
      | None \<Rightarrow> None)"

definition upd_sock :: "nat \<Rightarrow> (wsock \<Rightarrow> wsock) \<Rightarrow> client \<Rightarrow> client" where
  "upd_sock i f s = (if i < length (sockets s) then s\<lparr>sockets := (sockets s)[i := f (sockets s ! i)]\<rparr> else s)"

text \<open>
  \<^verbatim>\<open>socket.send(new_message(...))\<close> where exceptions are logged: those of \<open>new_message\<close>, of a
  socket that is not there and of one that is still connecting. A closing socket drops the data.
\<close>

definition send_frame :: "bytes result \<Rightarrow> client act" where
  "send_frame frame s =
     (case frame of
        Inl e \<Rightarrow> effect Log s
      | Inr b \<Rightarrow>
          (case (c_socket s, socket_state s) of
             (Some i, Some OPEN) \<Rightarrow> effect (Sent i b) s
           | (Some i, Some CLOSING) \<Rightarrow> skip s
           | (Some i, Some CLOSED) \<Rightarrow> skip s
           | _ \<Rightarrow> effect Log s))"

abbreviation (input) str :: "string \<Rightarrow> jsval" where
  "str s \<equiv> JString (jstr s)"

definition join_frame :: "js_string \<Rightarrow> bytes result" where
  "join_frame name = new_message (JString name) (str ''join'') (JString []) (JString []) (JString []) JUndefined"

definition leave_frame :: "js_string \<Rightarrow> bytes result" where
  "leave_frame name = new_message (JString name) (str ''leave'') (JString []) (JString []) (JString []) JUndefined"

section \<open>Rooms\<close>

text \<open>
  The functions below call the application through \<open>emit\<close>, given as an argument: room, type
  and arguments.
\<close>

type_synonym emits = "nat \<Rightarrow> jsval \<Rightarrow> arg list \<Rightarrow> client act"

text \<open>
  Function numbers are even for the application's functions; \<open>tracker h\<close> is the function
  with which room \<open>h\<close> notes the types of its listeners.
\<close>

definition tracker :: "nat \<Rightarrow> nat" where
  "tracker h = 2 * h + 1"

definition track :: "platform \<Rightarrow> nat \<Rightarrow> arg list \<Rightarrow> client act" where
  "track pf h args =
     (let event_type = (case args of Val (JString ty) # _ \<Rightarrow> ty | [] \<Rightarrow> to_key pf None | a # _ \<Rightarrow> to_key pf (Some a)) in
      when_act (args = [] \<or> hd args \<noteq> Val (JString newListener))
        (modify (upd_obj h (cr_registered_update (\<lambda>r. prop_set r event_type ())))))"

definition new_room :: "nat \<Rightarrow> js_string \<Rightarrow> croom" where
  "new_room h name =
     \<lparr>cr_name = name, cr_members = [], cr_registered = [], cr_is_open = False, cr_member_id = [],
      cr_em = add_to newListener (Fn (tracker h)) new_emitter\<rparr>"

definition root :: js_string where
  "root = jstr ''root''"

text \<open>The properties of a room's object; the root has three more.\<close>

definition room_methods :: "js_string \<Rightarrow> js_string list" where
  "room_methods name =
     map jstr [''bufferedAmount'', ''clearListeners'', ''forceClose'', ''id'', ''join'', ''leave'', ''members'', ''name'',
       ''open'', ''parse'', ''readyState'', ''send'', ''url'']
     @ (if name = root then map jstr [''close'', ''purge'', ''rooms''] else [])"

definition room_object :: "js_string \<Rightarrow> js_string property dict" where
  "room_object name = create_emitter (Some (map (\<lambda>k. (k, k)) (room_methods name)))"

definition get_room :: "jsval \<Rightarrow> (client, nat) comp" where
  "get_room name s =
     (case name of
        JString n \<Rightarrow>
          (case prop_get (c_rooms s) n of
             Some h \<Rightarrow> (Inr h, s)
           | None \<Rightarrow>
               let h = length (objects s);
                   s = s\<lparr>objects := objects s @ [new_room h n], c_rooms := prop_set (c_rooms s) n h\<rparr> in
               (Inr h,
                if n \<noteq> root \<and> socket_state s = Some OPEN then snd (send_frame (join_frame n) s) else s))
      | _ \<Rightarrow> (Inl (TypeError (jstr ''Room name must be a string'')), s))"

definition force_close :: "emits \<Rightarrow> nat \<Rightarrow> jsval \<Rightarrow> jsval \<Rightarrow> jsval \<Rightarrow> client act" where
  "force_close emit h is_disconnect code reason =
     (let close_code = number_or code (Fin 1000); close_reason = string_or reason [] in
      perform
        [\<lambda>s. if cr_is_open (obj s h)
             then andthen (modify (upd_obj h (\<lambda>r. r\<lparr>cr_is_open := False, cr_members := []\<rparr>)))
               (emit h (str ''close'') [Val (JNumber close_code), Val (JString close_reason)]) s
             else skip s,
         when_act (is_disconnect \<noteq> JBool True)
           (modify (\<lambda>s. (upd_obj h (cr_member_id_update (\<lambda>_. [])) s)
              \<lparr>c_rooms := prop_del (c_rooms s) (cr_name (obj s h))\<rparr>))])"

definition room_closed :: "string \<Rightarrow> js_error" where
  "room_closed verb = PlainError (jstr (''Cannot '' @ verb @ '': '' @
     (if verb = ''send'' then ''socket is closed.'' else ''room is closed.'')))"

definition join :: "nat \<Rightarrow> jsval \<Rightarrow> (client, nat) comp" where
  "join h room_name s =
     (if \<not> cr_is_open (obj s h) then (Inl (room_closed ''join''), s)
      else case room_name of
        JString n \<Rightarrow> get_room room_name s
      | _ \<Rightarrow> (Inl (TypeError (jstr ''Room name must be a string.'')), s))"

definition leave :: "nat \<Rightarrow> client act" where
  "leave h s =
     (if \<not> cr_is_open (obj s h) then throw (room_closed ''leave'') s
      else if socket_state s = Some OPEN then send_frame (leave_frame (cr_name (obj s h))) s
      else skip s)"

definition set_members :: "nat \<Rightarrow> (json list \<Rightarrow> json list) \<Rightarrow> client act" where
  "set_members h f = modify (upd_obj h (cr_members_update f))"

text \<open>\<^verbatim>\<open>join_ack\<close> carries a JSON array of the members; anything else leaves the list empty.\<close>

definition parse :: "emits \<Rightarrow> nat \<Rightarrow> packet \<Rightarrow> client act" where
  "parse emit h packet =
     (let event = p_event packet; payload_text = text_decode (p_payload packet) in
      if event = jstr ''join_ack'' then perform
        [modify (upd_obj h (\<lambda>r. r\<lparr>cr_member_id := p_src packet, cr_members := []\<rparr>)),
         (case parse_json payload_text of
            Some (JsArr parsed) \<Rightarrow> set_members h (\<lambda>ms. ms @ parsed)
          | _ \<Rightarrow> skip),
         modify (upd_obj h (cr_is_open_update (\<lambda>_. True))),
         emit h (str ''open'') []]
      else if event = jstr ''new_member'' then
        (\<lambda>s. if JsStr payload_text \<in> set (cr_members (obj s h)) then skip s
             else andthen (set_members h (\<lambda>ms. ms @ [JsStr payload_text]))
               (emit h (str ''new_member'') [Val (JString payload_text)]) s)
      else if event = jstr ''leave_ack'' then perform
        [emit h (str ''close'') [Val (JNumber (Fin 1000)), Val (str ''Left room'')],
         modify (upd_obj h (\<lambda>r. r\<lparr>cr_is_open := False, cr_members := [], cr_member_id := []\<rparr>)),
         modify (\<lambda>s. s\<lparr>c_rooms := prop_del (c_rooms s) (cr_name (obj s h))\<rparr>)]
      else if event = jstr ''member_left'' then
        (\<lambda>s. if JsStr payload_text \<in> set (cr_members (obj s h))
             then andthen (set_members h (remove1 (JsStr payload_text)))
               (emit h (str ''member_left'') [Val (JString payload_text)]) s
             else skip s)
      else emit h (JString event) [Val (JUint8Array (p_payload packet)), Val (JString (p_src packet))])"

definition reserved_events :: "js_string list" where
  "reserved_events =
     map jstr [''close'', ''join'', ''join_ack'', ''leave'', ''leave_ack'', ''member_left'', ''new_member'', ''open'']"

definition send :: "nat \<Rightarrow> jsval \<Rightarrow> jsval \<Rightarrow> jsval \<Rightarrow> client act" where
  "send h event payload dst s =
     (if \<not> cr_is_open (obj s h) then throw (room_closed ''send'') s
      else case event of
        JString ev \<Rightarrow>
          if ev \<in> set reserved_events then throw (PlainError (jstr ''Reserved event: '' @ ev)) s
          else if socket_state s = Some OPEN
          then send_frame (new_message (JString (cr_name (obj s h))) event dst
                 (JString (cr_member_id (obj s h))) payload JUndefined) s
          else skip s
      | _ \<Rightarrow> throw (PlainError (jstr ''Event name must be a string.'')) s)"

definition clear_listeners :: "emits \<Rightarrow> nat \<Rightarrow> jsval list option \<Rightarrow> client act" where
  "clear_listeners emit h exceptions s =
     (let exc_list = (case exceptions of Some xs \<Rightarrow> xs | None \<Rightarrow> []) in
      for_each (\<lambda>event_type. when_act (JString event_type \<notin> set exc_list)
        (andthen (remove_all_listeners (room_lens h) (emit h) (JString event_type))
          (modify (upd_obj h (cr_registered_update (\<lambda>r. prop_del r event_type))))))
        (obj_keys (cr_registered (obj s h))) s)"

text \<open>What a room tells about itself.\<close>

definition getReadyState :: "client \<Rightarrow> js_string" where
  "getReadyState s =
     (if manual_close s then jstr ''closed''
      else case socket_state s of
        Some CONNECTING \<Rightarrow> jstr ''connecting''
      | Some OPEN \<Rightarrow> jstr ''open''
      | Some CLOSING \<Rightarrow> jstr ''closing''
      | _ \<Rightarrow> jstr ''closed'')"

definition getBufferedAmount :: "client \<Rightarrow> jsnum" where
  "getBufferedAmount s = (case c_socket s of Some i \<Rightarrow> ws_buffered (sockets s ! i) | None \<Rightarrow> Fin 0)"

definition getUrl :: "platform \<Rightarrow> client \<Rightarrow> js_string" where
  "getUrl pf s =
     (case c_socket s of
        Some i \<Rightarrow> if ws_url (sockets s ! i) \<noteq> [] then ws_url (sockets s ! i) else url pf
      | None \<Rightarrow> url pf)"

definition getId :: "client \<Rightarrow> nat \<Rightarrow> js_string" where
  "getId s h = cr_member_id (obj s h)"

definition getMembers :: "client \<Rightarrow> nat \<Rightarrow> json list" where
  "getMembers s h = cr_members (obj s h)"

definition getIsOpen :: "client \<Rightarrow> nat \<Rightarrow> bool" where
  "getIsOpen s h = cr_is_open (obj s h)"

section \<open>The root room\<close>

text \<open>\<^verbatim>\<open>Object.keys(rooms).forEach(...)\<close> with \<open>forceClose\<close>, in three places of the code.\<close>

definition close_all :: "emits \<Rightarrow> jsval \<Rightarrow> jsval \<Rightarrow> jsval \<Rightarrow> client act" where
  "close_all emit is_disconnect code reason s =
     for_each (\<lambda>r_name s. case prop_get (c_rooms s) r_name of
          Some h \<Rightarrow> force_close emit h is_disconnect code reason s
        | None \<Rightarrow> skip s)
       (obj_keys (c_rooms s)) s"

definition clear_reconnect_timer :: "client \<Rightarrow> client" where
  "clear_reconnect_timer s =
     (case reconnect_timer s of
        Some k \<Rightarrow> s\<lparr>timers := removeAll k (timers s), reconnect_timer := None\<rparr>
      | None \<Rightarrow> s)"

definition not_a_function :: js_error where
  "not_a_function = TypeError (jstr ''is not a function'')"

definition close_socket :: "platform \<Rightarrow> jsnum \<Rightarrow> js_string \<Rightarrow> client act" where
  "close_socket pf code reason s =
     (case c_socket s of
        Some i \<Rightarrow>
          if socket_state s = Some OPEN \<or> socket_state s = Some CONNECTING
          then if ws_close_ok pf code reason
               then andthen (effect (Closing i code reason)) (modify (upd_sock i (ws_state_update (\<lambda>_. CLOSING)))) s
               else effect Log s
          else skip s
      | None \<Rightarrow> skip s)"

definition close :: "platform \<Rightarrow> emits \<Rightarrow> nat \<Rightarrow> jsval \<Rightarrow> jsval \<Rightarrow> client act" where
  "close pf emit h code reason s =
     (if cr_name (obj s h) \<noteq> root then throw not_a_function s
      else
        let status_code = number_or code (Fin 1000); reason_str = string_or reason (jstr ''Client closed'') in
        perform
          [modify (\<lambda>s. clear_reconnect_timer (s\<lparr>manual_close := True\<rparr>)),
           close_socket pf status_code reason_str,
           close_all emit (JBool False) (JNumber status_code) (JString reason_str)] s)"

definition undefined_leave :: js_error where
  "undefined_leave = TypeError (jstr ''Cannot read properties of undefined (reading 'leave')'')"

definition purge :: "nat \<Rightarrow> client act" where
  "purge h s =
     (if cr_name (obj s h) \<noteq> root then throw not_a_function s
      else for_each (\<lambda>r_name s. when_act (r_name \<noteq> root)
          (case prop_get (c_rooms s) r_name of Some h' \<Rightarrow> leave h' | None \<Rightarrow> throw undefined_leave) s)
        (obj_keys (c_rooms s)) s)"

text \<open>\<^verbatim>\<open>root.rooms()\<close>: the copy has the same properties, in the order of \<^verbatim>\<open>Object.keys\<close>.\<close>

definition rooms_copy :: "client \<Rightarrow> nat dict" where
  "rooms_copy s =
     foldl (\<lambda>copy r_key. case prop_get (c_rooms s) r_key of Some h \<Rightarrow> prop_set copy r_key h | None \<Rightarrow> copy)
       [] (obj_keys (c_rooms s))"

section \<open>Calls of the application\<close>

definition room_emitter_op :: "(nat \<Rightarrow> arg list \<Rightarrow> client act) \<Rightarrow> emits \<Rightarrow> nat \<Rightarrow> emitter_op \<Rightarrow> client act" where
  "room_emitter_op call emit h op =
     (case op of
        Emit type args \<Rightarrow> emit_with (room_lens h) (invoke (room_lens h) (emit h) call) type args
      | AddListener type f \<Rightarrow> add_listener (room_lens h) (emit h) type (map_option Fn f)
      | RemoveListener type f \<Rightarrow> remove_listener (room_lens h) (emit h) type (map_option Fn f)
      | Once type f \<Rightarrow> once (room_lens h) (emit h) type f
      | RemoveAllListeners type \<Rightarrow> remove_all_listeners (room_lens h) (emit h) type)"

definition call_function :: "(client_call \<Rightarrow> client act) \<Rightarrow> platform \<Rightarrow> nat \<Rightarrow> arg list \<Rightarrow> client act" where
  "call_function run pf f args =
     (if odd f then track pf (f div 2) args
      else perform
        [effect (Called f args),
         for_each (\<lambda>pick s. run (pick s) s) (fst (app_function pf f args)),
         (case snd (app_function pf f args) of None \<Rightarrow> skip | Some e \<Rightarrow> throw e)])"

definition no_result :: "('s, 'a) comp \<Rightarrow> 's act" where
  "no_result m s = (case m s of (Inl e, s') \<Rightarrow> (Some e, s') | (Inr x, s') \<Rightarrow> (None, s'))"

definition perform_call :: "(client_call \<Rightarrow> client act) \<Rightarrow> platform \<Rightarrow> client_call \<Rightarrow> client act" where
  "perform_call run pf call =
     (let emit = (\<lambda>h type args. run (On h (Emit type args))) in
      case call of
        On h op \<Rightarrow> room_emitter_op (call_function run pf) emit h op
      | Clear_listeners h exceptions \<Rightarrow> clear_listeners emit h exceptions
      | Force_close h is_disconnect code reason \<Rightarrow> force_close emit h is_disconnect code reason
      | Join h room_name \<Rightarrow> no_result (join h room_name)
      | Leave h \<Rightarrow> leave h
      | Parse h packet \<Rightarrow> parse emit h packet
      | Send h event payload dst \<Rightarrow> send h event payload dst
      | Close h code reason \<Rightarrow> close pf emit h code reason
      | Purge h \<Rightarrow> purge h)"

primrec run_call :: "nat \<Rightarrow> platform \<Rightarrow> client_call \<Rightarrow> client act" where
  "run_call 0 pf call = throw StackOverflow"
| "run_call (Suc depth) pf call =
     (\<lambda>s. if receiver call < length (objects s) then perform_call (run_call depth pf) pf call s else skip s)"

definition emit_room :: "platform \<Rightarrow> emits" where
  "emit_room pf h type args = run_call (stack pf) pf (On h (Emit type args))"

section \<open>Connecting\<close>

text \<open>\<^verbatim>\<open>Math.min\<close>\<close>

definition num_min :: "jsnum \<Rightarrow> jsnum \<Rightarrow> jsnum" where
  "num_min a b = (if a = NaN \<or> b = NaN then NaN else if num_less a b then a else b)"

definition wants_reconnect :: "platform \<Rightarrow> bool" where
  "wants_reconnect pf \<longleftrightarrow> reconnect (opts pf) = JBool True"

definition schedule_reconnect :: "platform \<Rightarrow> client act" where
  "schedule_reconnect pf s =
     (if manual_close s \<or> \<not> wants_reconnect pf then skip s
      else
        let s = clear_reconnect_timer s;
            jitter = num_mul (random pf (next_timer s)) (Fin 200);
            k = next_timer s in
        effect (Set_timeout k (num_add (reconnect_delay s) jitter))
          (s\<lparr>timers := timers s @ [k], next_timer := Suc k, reconnect_timer := Some k\<rparr>))"

definition connect :: "platform \<Rightarrow> client act" where
  "connect pf s =
     (if manual_close s then skip s
      else
        let s = (clear_reconnect_timer s)\<lparr>attempts := Suc (attempts s)\<rparr> in
        if ws_new pf (attempts s)
        then effect (New_socket (length (sockets s)))
          (s\<lparr>c_socket := Some (length (sockets s)),
             sockets := sockets s @ [\<lparr>ws_state = CONNECTING, ws_url = url pf, ws_buffered = Fin 0\<rparr>]\<rparr>)
        else
          let is_reconnecting = (\<not> manual_close s \<and> wants_reconnect pf) in
          perform
            [effect Log,
             close_all (emit_room pf) (JBool is_reconnecting) (JNumber (Fin 1006)) (str ''Connection error''),
             when_act is_reconnecting (schedule_reconnect pf)] s)"

definition on_timeout :: "platform \<Rightarrow> client act" where
  "on_timeout pf = andthen
     (modify (\<lambda>s. s\<lparr>reconnect_timer := None,
        reconnect_delay := num_min (num_mul (reconnect_delay s) (Fin (3 / 2))) (max_delay (opts pf))\<rparr>))
     (connect pf)"

definition on_open :: "platform \<Rightarrow> client act" where
  "on_open pf = andthen
     (modify (\<lambda>s. s\<lparr>reconnect_delay := initial_delay (opts pf)\<rparr>))
     (\<lambda>s. for_each (\<lambda>r_name. when_act (r_name \<noteq> root) (send_frame (join_frame r_name)))
        (obj_keys (c_rooms s)) s)"

definition on_message :: "platform \<Rightarrow> jsval \<Rightarrow> client act" where
  "on_message pf e_data s =
     (case parse_frame e_data of
        Inl e \<Rightarrow> effect Log s
      | Inr None \<Rightarrow> skip s
      | Inr (Some packet) \<Rightarrow>
          (case prop_get (c_rooms s) (p_room packet) of
             Some h \<Rightarrow> try_log (run_call (stack pf) pf (Parse h packet)) s
           | None \<Rightarrow> skip s))"

definition should_retry :: "platform \<Rightarrow> jsnum \<Rightarrow> js_string \<Rightarrow> bool" where
  "should_retry pf code reason =
     (case should_reconnect (opts pf) of Some f \<Rightarrow> f code reason = JBool True | None \<Rightarrow> True)"

definition on_close :: "platform \<Rightarrow> jsval \<Rightarrow> jsval \<Rightarrow> client act" where
  "on_close pf e_code e_reason s =
     (let code = number_or e_code (Fin 1006); reason = string_or e_reason [];
          is_reconnecting = (\<not> manual_close s \<and> wants_reconnect pf \<and> should_retry pf code reason) in
      andthen (close_all (emit_room pf) (JBool is_reconnecting) (JNumber code) (JString reason))
        (when_act is_reconnecting (schedule_reconnect pf)) s)"

section \<open>Runs\<close>

text \<open>\<^verbatim>\<open>roomer(url, options)\<close> makes the socket and the root room.\<close>

definition initial :: "platform \<Rightarrow> client" where
  "initial pf =
     \<lparr>objects = [], c_rooms = [], c_socket = None, manual_close = False,
      reconnect_delay = initial_delay (opts pf), reconnect_timer = None, sockets = [], attempts = 0,
      timers = [], next_timer = 0, c_out = []\<rparr>"

definition roomer :: "platform \<Rightarrow> client" where
  "roomer pf = snd (get_room (JString root) (snd (connect pf (initial pf))))"

text \<open>
  The call itself: \<^verbatim>\<open>Object.assign\<close> puts the application's options over the defaults, and the
  URL must be a string.
\<close>

record given_options =
  given_initial_delay :: "jsnum option"
  given_max_delay :: "jsnum option"
  given_reconnect :: "jsval option"
  given_should_reconnect :: "(jsnum \<Rightarrow> js_string \<Rightarrow> jsval) option option"

definition given_or :: "'a option \<Rightarrow> 'a \<Rightarrow> 'a" where
  "given_or v d = (case v of Some x \<Rightarrow> x | None \<Rightarrow> d)"

definition assign_options :: "given_options \<Rightarrow> options" where
  "assign_options u =
     \<lparr>initial_delay = given_or (given_initial_delay u) (initial_delay default_options),
      max_delay = given_or (given_max_delay u) (max_delay default_options),
      reconnect = given_or (given_reconnect u) (reconnect default_options),
      should_reconnect = given_or (given_should_reconnect u) (should_reconnect default_options)\<rparr>"

definition create_client :: "platform \<Rightarrow> jsval \<Rightarrow> given_options \<Rightarrow> client result" where
  "create_client pf u given =
     (case u of
        JString s \<Rightarrow> Inr (roomer (pf\<lparr>url := s, opts := assign_options given\<rparr>))
      | _ \<Rightarrow> Inl (TypeError (jstr ''WebSocket URL must be a string.'')))"

text \<open>
  One turn of the browser's event loop: an event of a socket, a timeout, or the application
  calling by itself. A socket opens once, delivers messages while it is open and closes once;
  a timeout fires once, unless it has been cleared.
\<close>

datatype client_event =
    Ws_open nat
  | Ws_message nat jsval
  | Ws_close nat jsval jsval
  | Ws_error nat
  | Ws_buffer nat jsnum
  | Timeout nat
  | Use client_call

fun possible :: "client_event \<Rightarrow> client \<Rightarrow> bool" where
  "possible (Ws_open i) s \<longleftrightarrow> i < length (sockets s) \<and> ws_state (sockets s ! i) = CONNECTING"
| "possible (Ws_message i data) s \<longleftrightarrow> i < length (sockets s) \<and> ws_state (sockets s ! i) = OPEN"
| "possible (Ws_close i code reason) s \<longleftrightarrow> i < length (sockets s) \<and> ws_state (sockets s ! i) \<noteq> CLOSED"
| "possible (Ws_error i) s \<longleftrightarrow> i < length (sockets s)"
| "possible (Ws_buffer i n) s \<longleftrightarrow> i < length (sockets s)"
| "possible (Timeout k) s \<longleftrightarrow> k \<in> set (timers s)"
| "possible (Use call) s \<longleftrightarrow> True"

fun react :: "platform \<Rightarrow> client_event \<Rightarrow> client act" where
  "react pf (Ws_open i) = andthen (modify (upd_sock i (ws_state_update (\<lambda>_. OPEN)))) (on_open pf)"
| "react pf (Ws_message i data) = on_message pf data"
| "react pf (Ws_close i code reason) =
     andthen (modify (upd_sock i (ws_state_update (\<lambda>_. CLOSED)))) (on_close pf code reason)"
| "react pf (Ws_error i) = effect Log"
| "react pf (Ws_buffer i n) = modify (upd_sock i (ws_buffered_update (\<lambda>_. n)))"
| "react pf (Timeout k) = andthen (modify (\<lambda>s. s\<lparr>timers := removeAll k (timers s)\<rparr>)) (on_timeout pf)"
| "react pf (Use call) = run_call (stack pf) pf call"

definition client_turn :: "platform \<Rightarrow> client_event \<Rightarrow> client \<Rightarrow> client" where
  "client_turn pf ev s =
     (case react pf ev s of (None, s') \<Rightarrow> s' | (Some e, s') \<Rightarrow> snd (effect (Escaped e) s'))"

inductive client_step :: "platform \<Rightarrow> client \<Rightarrow> client \<Rightarrow> bool" for pf where
  turn: "possible ev s \<Longrightarrow> client_step pf s (client_turn pf ev s)"

inductive client_steps :: "platform \<Rightarrow> client \<Rightarrow> client \<Rightarrow> bool" for pf where
  none: "client_steps pf s s"
| later: "client_steps pf s s' \<Longrightarrow> client_step pf s' s'' \<Longrightarrow> client_steps pf s s''"

inductive_cases client_stepE: "client_step pf s s'"

end
