(* ===== verification/Client_Kept.thy ===== *)
theory Client_Kept
  imports Client
begin

text \<open>
  What the client keeps although the application's listeners call it back at any point. The
  locale \<open>client_kept\<close> is about one call of the application, \<open>run_kept\<close> about a whole run; the
  invariants of the client are their interpretations.
\<close>

section \<open>The frames a client sends\<close>

text \<open>
  A frame of the application has an event that is not reserved; the client's own frames are joins
  and leaves, without destination, source and payload.
\<close>

definition own_frame :: "bytes \<Rightarrow> bool" where
  "own_frame b \<longleftrightarrow> (\<exists>name. join_frame name = Inr b \<or> leave_frame name = Inr b)"

definition application_frame :: "bytes \<Rightarrow> bool" where
  "application_frame b \<longleftrightarrow>
     (\<exists>name ev dst src payload. ev \<notin> set reserved_events \<and>
        new_message (JString name) (JString ev) dst (JString src) payload JUndefined = Inr b)"

text \<open>The effects a call of the application can have.\<close>

fun call_effect :: "client_effect \<Rightarrow> bool" where
  "call_effect (Sent i b) \<longleftrightarrow> own_frame b \<or> application_frame b"
| "call_effect (Closing i code reason) \<longleftrightarrow> True"
| "call_effect (Called f args) \<longleftrightarrow> True"
| "call_effect Log \<longleftrightarrow> True"
| "call_effect _ \<longleftrightarrow> False"

section \<open>Fields\<close>

lemma upd_sock_fields [simp]:
  "c_socket (upd_sock i f s) = c_socket s" "timers (upd_sock i f s) = timers s"
  "reconnect_timer (upd_sock i f s) = reconnect_timer s" "manual_close (upd_sock i f s) = manual_close s"
  "length (sockets (upd_sock i f s)) = length (sockets s)" "c_out (upd_sock i f s) = c_out s"
  "reconnect_delay (upd_sock i f s) = reconnect_delay s" "c_rooms (upd_sock i f s) = c_rooms s"
  "objects (upd_sock i f s) = objects s"
  by (simp_all add: upd_sock_def)

lemma obj_upd [simp]:
  "obj (upd_obj h f s) h' = (if h' = h \<and> h < length (objects s) then f (obj s h) else obj s h')"
  by (auto simp: obj_def upd_obj_def nth_list_update)

lemma obj_cong [simp]:
  "obj (s\<lparr>c_rooms := d\<rparr>) h = obj s h" "obj (s\<lparr>c_out := xs\<rparr>) h = obj s h"
  "obj (s\<lparr>sockets := ws\<rparr>) h = obj s h" "obj (upd_sock i f s) h = obj s h"
  "obj (clear_reconnect_timer s) h = obj s h" "obj (s\<lparr>manual_close := m\<rparr>) h = obj s h"
  by (simp_all add: obj_def clear_reconnect_timer_def split: option.split)

lemma upd_obj_fields [simp]:
  "c_rooms (upd_obj h f s) = c_rooms s" "c_out (upd_obj h f s) = c_out s" "sockets (upd_obj h f s) = sockets s"
  "c_socket (upd_obj h f s) = c_socket s" "manual_close (upd_obj h f s) = manual_close s"
  "timers (upd_obj h f s) = timers s" "reconnect_timer (upd_obj h f s) = reconnect_timer s"
  "length (objects (upd_obj h f s)) = length (objects s)" "reconnect_delay (upd_obj h f s) = reconnect_delay s"
  "next_timer (upd_obj h f s) = next_timer s" "attempts (upd_obj h f s) = attempts s"
  by (simp_all add: upd_obj_def)

lemma clear_fields [simp]:
  "c_rooms (clear_reconnect_timer s) = c_rooms s" "objects (clear_reconnect_timer s) = objects s"
  "c_socket (clear_reconnect_timer s) = c_socket s"
  by (simp_all add: clear_reconnect_timer_def split: option.split)

section \<open>One call\<close>

lemma emit_unheard:
  "h < length (objects s) \<Longrightarrow> listed (cr_em (obj s h)) ty = [] \<Longrightarrow>
     run_call (Suc depth) pf (On h (Emit (JString ty) args)) s = (None, s)"
  by (simp add: perform_call_def Let_def room_emitter_op_def emit_with_def room_lens_def)

locale client_kept =
  fixes P :: "client \<Rightarrow> bool"
  assumes kept_obj: "P s \<Longrightarrow> (\<And>r. cr_name (f r) = cr_name r) \<Longrightarrow> P (upd_obj h f s)"
    and kept_new: "P s \<Longrightarrow> prop_get (c_rooms s) n = None \<Longrightarrow>
      P (s\<lparr>objects := objects s @ [new_room (length (objects s)) n],
           c_rooms := prop_set (c_rooms s) n (length (objects s))\<rparr>)"
    and kept_gone: "P s \<Longrightarrow> P (s\<lparr>c_rooms := prop_del (c_rooms s) n\<rparr>)"
    and kept_effect: "P s \<Longrightarrow> call_effect e \<Longrightarrow> P (s\<lparr>c_out := c_out s @ [e]\<rparr>)"
    and kept_manual: "P s \<Longrightarrow> P (clear_reconnect_timer (s\<lparr>manual_close := True\<rparr>))"
    and kept_closing: "P s \<Longrightarrow> i < length (sockets s) \<Longrightarrow> ws_state (sockets s ! i) \<noteq> CLOSED \<Longrightarrow>
      P (upd_sock i (ws_state_update (\<lambda>_. CLOSING)) s)"
begin

lemma effect_kept: "call_effect e \<Longrightarrow> keeps P (effect e)"
  by (simp add: effect_def keeps_modify kept_effect)

lemma log_kept: "keeps P (effect Log)"
  by (simp add: effect_kept)

lemma obj_kept: "(\<And>r. cr_name (f r) = cr_name r) \<Longrightarrow> keeps P (modify (upd_obj h f))"
  by (simp add: keeps_modify kept_obj)

lemma try_log_kept: "keeps P a \<Longrightarrow> keeps P (try_log a)"
  using log_kept by (auto simp: keeps_def try_log_def split: prod.split option.split)

end

sublocale client_kept < room: emitter_kept "room_lens h" "\<lambda>K. P" for h
  by unfold_locales (simp_all add: room_lens_def kept_obj)

context client_kept
begin

lemma send_frame_kept:
  assumes "\<And>b. frame = Inr b \<Longrightarrow> own_frame b \<or> application_frame b"
  shows "keeps P (send_frame frame)"
proof (rule keepsI)
  fix s
  assume "P s"
  then have "P (snd (effect (Sent i b) s))" if "frame = Inr b" for i b
    using assms [OF that] by (simp add: keepsD [OF effect_kept])
  then show "P (snd (send_frame frame s))"
    using \<open>P s\<close> keepsD [OF log_kept \<open>P s\<close>]
    by (auto simp: send_frame_def skip_def split: sum.split option.split ready_state.split)
qed

lemma join_frame_kept: "keeps P (send_frame (join_frame name))"
  by (rule send_frame_kept) (auto simp: own_frame_def)

lemma get_room_kept: "P s \<Longrightarrow> P (snd (get_room name s))"
  by (auto simp: get_room_def Let_def split: jsval.split option.split
      intro!: keepsD [OF join_frame_kept] kept_new)

definition emits_keep :: "emits \<Rightarrow> bool" where
  "emits_keep emit \<longleftrightarrow> (\<forall>h type args. keeps P (emit h type args))"

lemma emits_calls: "emits_keep emit \<Longrightarrow> room.calls_keep (emit h)"
  by (simp add: emits_keep_def room.calls_keep_def)

lemma force_close_kept:
  assumes "emits_keep emit"
  shows "keeps P (force_close emit h is_disconnect code reason)"
proof -
  have "keeps P (\<lambda>s. if cr_is_open (obj s h)
      then andthen (modify (upd_obj h (\<lambda>r. r\<lparr>cr_is_open := False, cr_members := []\<rparr>))) (emit h type args) s
      else skip s)" for type args
    using assms by (intro keeps_intros kept_obj) (auto simp: emits_keep_def)
  moreover have "keeps P (modify (\<lambda>s. (upd_obj h (cr_member_id_update f) s)\<lparr>c_rooms := prop_del (c_rooms s) (g s)\<rparr>))" for f g
    using kept_gone [of "upd_obj h (cr_member_id_update f) s" for s]
    by (intro keeps_modify) (simp add: kept_obj)
  ultimately show ?thesis
    unfolding force_close_def Let_def by (intro keeps_perform) (auto intro!: keeps_when)
qed

lemma leave_kept: "keeps P (leave h)"
proof -
  have "keeps P (send_frame (leave_frame name))" for name
    by (rule send_frame_kept) (auto simp: own_frame_def)
  then show ?thesis
    by (auto simp: keeps_def leave_def skip_def throw_def)
qed

lemma send_kept: "keeps P (send h event payload dst)"
proof (rule keepsI)
  fix s
  assume "P s"
  moreover have "keeps P (send_frame (new_message (JString name) (JString ev) dst (JString src) payload JUndefined))"
    if "ev \<notin> set reserved_events" for name ev src
    using that by (intro send_frame_kept disjI2) (unfold application_frame_def, blast)
  ultimately show "P (snd (send h event payload dst s))"
    by (auto simp: send_def skip_def throw_def keepsD split: jsval.split)
qed

lemma parse_kept:
  assumes "emits_keep emit"
  shows "keeps P (parse emit h packet)"
proof -
  have emit: "keeps P (emit h type args)" for type args
    using assms by (simp add: emits_keep_def)
  have m: "keeps P (set_members h f)" for f
    by (simp add: set_members_def obj_kept)
  have r: "keeps P (modify (\<lambda>s. s\<lparr>c_rooms := prop_del (c_rooms s) (g s)\<rparr>))" for g
    by (intro keeps_modify kept_gone)
  show ?thesis
    unfolding parse_def Let_def
    by (auto intro!: keeps_intros emit m r obj_kept split: option.split json.split)
qed

lemma clear_listeners_kept:
  assumes "emits_keep emit"
  shows "keeps P (clear_listeners emit h exceptions)"
proof -
  have "keeps P (for_each (\<lambda>event_type. when_act (c event_type)
        (andthen (remove_all_listeners (room_lens h) (emit h) (JString event_type))
          (modify (upd_obj h (cr_registered_update (f event_type)))))) keys)" for c f keys
    by (intro keeps_intros obj_kept room.remove_all_kept emits_calls assms kept_obj) simp
  then show ?thesis by (simp add: clear_listeners_def keeps_def Let_def)
qed

lemma close_all_kept:
  assumes "emits_keep emit"
  shows "keeps P (close_all emit is_disconnect code reason)"
proof -
  have "keeps P (for_each (\<lambda>r_name s. case prop_get (c_rooms s) r_name of
          Some h \<Rightarrow> force_close emit h is_disconnect code reason s | None \<Rightarrow> skip s) keys)" for keys
    using keepsD [OF force_close_kept [OF assms]]
    by (intro keeps_for_each keepsI) (auto simp: skip_def split: option.split)
  then show ?thesis by (simp add: close_all_def keeps_def)
qed

lemma close_socket_kept: "keeps P (close_socket pf code reason)"
proof (rule keepsI)
  fix s
  assume s: "P s"
  have "P (snd (andthen (effect (Closing i code reason)) (modify (upd_sock i (ws_state_update (\<lambda>_. CLOSING)))) s))"
    if "i < length (sockets s)" "ws_state (sockets s ! i) \<noteq> CLOSED" for i
    using that s kept_closing [of "s\<lparr>c_out := c_out s @ [Closing i code reason]\<rparr>" i]
      kept_effect [of s "Closing i code reason"]
    by (simp add: effect_def andthen_modify modify_def)
  with s keepsD [OF log_kept s] show "P (snd (close_socket pf code reason s))"
    by (auto simp: close_socket_def skip_def socket_state_def split: option.split if_splits)
qed

lemma close_kept:
  assumes "emits_keep emit"
  shows "keeps P (close pf emit h code reason)"
proof -
  have "keeps P (perform
      [modify (\<lambda>s. clear_reconnect_timer (s\<lparr>manual_close := True\<rparr>)), close_socket pf c r, close_all emit d c' r'])"
    for c r d c' r'
    by (auto intro!: keeps_perform keeps_modify kept_manual close_socket_kept close_all_kept assms)
  then show ?thesis by (simp add: close_def keeps_def Let_def throw_def)
qed

lemma purge_kept: "keeps P (purge h)"
proof -
  have "keeps P (for_each (\<lambda>r_name s. when_act (r_name \<noteq> root)
          (case prop_get (c_rooms s) r_name of Some h' \<Rightarrow> leave h' | None \<Rightarrow> throw undefined_leave) s) keys)" for keys
    using keepsD [OF leave_kept]
    by (intro keeps_for_each keepsI) (auto simp: when_act_def throw_def split: option.split)
  then show ?thesis by (simp add: purge_def keeps_def throw_def)
qed

lemma call_function_kept:
  assumes "\<And>call. keeps P (run call)"
  shows "keeps P (call_function run pf f args)"
proof -
  have "keeps P (for_each (\<lambda>pick s. run (pick s) s) script)" for script
    using keepsD [OF assms] by (intro keeps_for_each keepsI)
  moreover have "keeps P (track pf h args)" for h
    by (simp add: track_def Let_def keeps_when obj_kept)
  ultimately show ?thesis
    by (auto simp: call_function_def intro!: keeps_perform effect_kept keeps_skip keeps_throw split: option.split)
qed

lemma room_emitter_op_kept:
  assumes "emits_keep emit" "\<And>f args. keeps P (call f args)"
  shows "keeps P (room_emitter_op call emit h op)"
  by (cases op) (auto simp: room_emitter_op_def assms
      intro!: room.operations_kept room.emit_kept room.invoke_kept emits_calls)

lemma no_result_kept: "(\<And>s. P s \<Longrightarrow> P (snd (m s))) \<Longrightarrow> keeps P (no_result m)"
  by (rule keepsI) (auto simp: no_result_def split: prod.split sum.split, (metis snd_conv)+)

lemma join_kept: "P s \<Longrightarrow> P (snd (join h room_name s))"
  by (auto simp: join_def get_room_kept split: jsval.split)

lemma perform_call_kept:
  assumes "\<And>call. keeps P (run call)"
  shows "keeps P (perform_call run pf call)"
proof -
  have "emits_keep (\<lambda>h type args. run (On h (Emit type args)))"
    by (simp add: emits_keep_def assms)
  then show ?thesis
    by (cases call) (auto simp: perform_call_def Let_def intro!: room_emitter_op_kept call_function_kept assms
        clear_listeners_kept force_close_kept no_result_kept join_kept leave_kept parse_kept send_kept
        close_kept purge_kept)
qed

lemma run_call_kept: "keeps P (run_call depth pf call)"
proof (induction depth arbitrary: call)
  case 0
  show ?case by (simp add: keeps_throw)
next
  case (Suc depth)
  then have "keeps P (perform_call (run_call depth pf) pf call)" by (rule perform_call_kept)
  then show ?case by (simp add: keeps_def skip_def)
qed

lemma emit_room_kept: "emits_keep (emit_room pf)"
  by (simp add: emits_keep_def emit_room_def run_call_kept)

end

section \<open>Whole runs\<close>

lemma cleared_none [simp]: "reconnect_timer (clear_reconnect_timer s) = None"
  by (simp add: clear_reconnect_timer_def split: option.split)

lemma cleared_same [simp]:
  "manual_close (clear_reconnect_timer s) = manual_close s"
  "reconnect_delay (clear_reconnect_timer s) = reconnect_delay s"
  "next_timer (clear_reconnect_timer s) = next_timer s"
  "sockets (clear_reconnect_timer s) = sockets s"
  "attempts (clear_reconnect_timer s) = attempts s"
  "c_out (clear_reconnect_timer s) = c_out s"
  by (simp_all add: clear_reconnect_timer_def split: option.split)

text \<open>
  \<open>P\<close> holds between turns; \<open>Q\<close> is stronger and holds while no socket is alive: from the moment
  a socket has closed or a timeout fires until the next socket is made or scheduled.
\<close>

locale run_kept = between: client_kept P + idle: client_kept Q
    for P :: "client \<Rightarrow> bool" and Q :: "client \<Rightarrow> bool" +
  fixes pf :: platform
  assumes idle_between: "Q s \<Longrightarrow> P s"
    and kept_open: "P s \<Longrightarrow> possible (Ws_open i) s \<Longrightarrow>
      P ((upd_sock i (ws_state_update (\<lambda>_. OPEN)) s)\<lparr>reconnect_delay := initial_delay (opts pf)\<rparr>)"
    and kept_closed: "P s \<Longrightarrow> possible (Ws_close i code reason) s \<Longrightarrow>
      Q (upd_sock i (ws_state_update (\<lambda>_. CLOSED)) s)"
    and kept_buffer: "P s \<Longrightarrow> P (upd_sock i (ws_buffered_update f) s)"
    and kept_fired: "P s \<Longrightarrow> k \<in> set (timers s) \<Longrightarrow>
      Q (s\<lparr>timers := removeAll k (timers s), reconnect_timer := None,
           reconnect_delay := num_min (num_mul (reconnect_delay s) (Fin (3 / 2))) (max_delay (opts pf))\<rparr>)"
    and kept_cleared: "Q s \<Longrightarrow> Q (clear_reconnect_timer s)"
    and kept_attempt: "Q s \<Longrightarrow> Q (s\<lparr>attempts := n\<rparr>)"
    and kept_made: "Q s \<Longrightarrow> \<not> manual_close s \<Longrightarrow> reconnect_timer s = None \<Longrightarrow>
      P (s\<lparr>c_socket := Some (length (sockets s)),
           sockets := sockets s @ [\<lparr>ws_state = CONNECTING, ws_url = u, ws_buffered = Fin 0\<rparr>],
           c_out := c_out s @ [New_socket (length (sockets s))]\<rparr>)"
    and kept_scheduled: "Q s \<Longrightarrow> \<not> manual_close s \<Longrightarrow> reconnect_timer s = None \<Longrightarrow>
      P (s\<lparr>timers := timers s @ [next_timer s], next_timer := Suc (next_timer s),
           reconnect_timer := Some (next_timer s),
           c_out := c_out s @ [Set_timeout (next_timer s)
             (num_add (reconnect_delay s) (num_mul (random pf (next_timer s)) (Fin 200)))]\<rparr>)"
    and kept_escaped: "P s \<Longrightarrow> P (s\<lparr>c_out := c_out s @ [Escaped e]\<rparr>)"
begin

lemma schedule_kept: "Q s \<Longrightarrow> P (snd (schedule_reconnect pf s))"
  using kept_scheduled [OF kept_cleared, of s] idle_between [of s]
  by (simp add: schedule_reconnect_def skip_def effect_def modify_def Let_def)

lemma close_then_schedule:
  assumes "Q s"
  shows "P (snd (andthen (close_all (emit_room pf) d code reason) (when_act c (schedule_reconnect pf)) s))"
proof -
  have "Q (snd (close_all (emit_room pf) d code reason s))"
    by (rule keepsD [OF idle.close_all_kept [OF idle.emit_room_kept] assms])
  then show ?thesis
    using idle_between schedule_kept
    by (auto simp: andthen_def when_act_def split: prod.split option.split)
qed

lemma connect_kept:
  assumes "Q s"
  shows "P (snd (connect pf s))"
proof -
  let ?s = "(clear_reconnect_timer s)\<lparr>attempts := Suc (attempts (clear_reconnect_timer s))\<rparr>"
  have q: "Q ?s" by (intro kept_attempt kept_cleared assms)
  have "P (snd (perform [effect Log, close_all (emit_room pf) d code reason, when_act c (schedule_reconnect pf)] ?s))"
    for d code reason c
    using close_then_schedule [OF idle.kept_effect [OF q, of Log]]
    by (simp add: effect_def andthen_modify)
  then show ?thesis
    using q assms kept_made [OF q]
    by (simp add: connect_def skip_def idle_between effect_def modify_def Let_def)
qed

lemma on_open_kept:
  assumes "P s" "possible (Ws_open i) s"
  shows "P (snd (react pf (Ws_open i) s))"
proof -
  let ?s = "(upd_sock i (ws_state_update (\<lambda>_. OPEN)) s)\<lparr>reconnect_delay := initial_delay (opts pf)\<rparr>"
  have "keeps P (for_each (\<lambda>r_name. when_act (r_name \<noteq> root) (send_frame (join_frame r_name))) keys)" for keys
    by (intro keeps_intros between.join_frame_kept)
  then show ?thesis
    using kept_open [OF assms] by (simp add: on_open_def andthen_modify keepsD)
qed

lemma on_message_kept: "P s \<Longrightarrow> P (snd (on_message pf data s))"
proof -
  assume s: "P s"
  have "P (snd (try_log (run_call (stack pf) pf (Parse h packet)) s))" for h packet
    by (rule keepsD [OF between.try_log_kept [OF between.run_call_kept] s])
  with s keepsD [OF between.log_kept s] show ?thesis
    by (auto simp: on_message_def skip_def split: sum.split option.split)
qed

lemma react_kept:
  assumes "P s" "possible ev s"
  shows "P (snd (react pf ev s))"
proof (cases ev)
  case (Ws_open i)
  then show ?thesis using assms on_open_kept by simp
next
  case (Ws_message i data)
  then show ?thesis using assms by (simp add: on_message_kept)
next
  case (Ws_close i code reason)
  then show ?thesis
    using kept_closed assms
    by (simp add: andthen_modify on_close_def Let_def close_then_schedule del: possible.simps)
next
  case (Ws_error i)
  then show ?thesis using assms by (simp add: keepsD [OF between.log_kept])
next
  case (Ws_buffer i n)
  then show ?thesis using assms by (simp add: modify_def kept_buffer)
next
  case (Timeout k)
  then show ?thesis
    using assms kept_fired [of s k] by (simp add: andthen_modify on_timeout_def connect_kept)
next
  case (Use call)
  then show ?thesis using assms by (simp add: keepsD [OF between.run_call_kept])
qed

lemma turn_kept: "P s \<Longrightarrow> possible ev s \<Longrightarrow> P (client_turn pf ev s)"
  using react_kept [of s ev] kept_escaped
  by (auto simp: client_turn_def effect_def modify_def split: prod.split option.split)

lemma steps_kept: "client_steps pf s s' \<Longrightarrow> P s \<Longrightarrow> P s'"
  by (induction rule: client_steps.induct) (auto elim!: client_stepE intro: turn_kept)

lemma roomer_kept: "Q (initial pf) \<Longrightarrow> P (roomer pf)"
  by (simp add: roomer_def between.get_room_kept connect_kept)

end

end
