(* ===== verification/Reconnection.thy ===== *)
theory Reconnection
  imports Client_Kept
begin

text \<open>
  The client's connection over whole runs: one socket or one timer, silence after \<open>close\<close>, the
  bounds of the backoff, the frames that are sent, and what a reconnection sends again.
\<close>

section \<open>One socket or one timer\<close>

definition alive :: "wsock \<Rightarrow> bool" where
  "alive w \<longleftrightarrow> ws_state w \<noteq> CLOSED"

definition sole_socket :: "wsock list \<Rightarrow> nat option \<Rightarrow> bool" where
  "sole_socket ws r \<longleftrightarrow>
     (\<forall>i < length ws. alive (ws ! i) \<longrightarrow> r = Some i) \<and> (\<forall>i. r = Some i \<longrightarrow> i < length ws)"

definition none_alive :: "wsock list \<Rightarrow> bool" where
  "none_alive ws \<longleftrightarrow> list_all (\<lambda>w. \<not> alive w) ws"

definition sole_timer :: "nat list \<Rightarrow> nat option \<Rightarrow> bool" where
  "sole_timer ts r \<longleftrightarrow> ts = (case r of None \<Rightarrow> [] | Some k \<Rightarrow> [k])"

definition conn_ok :: "client \<Rightarrow> bool" where
  "conn_ok s \<longleftrightarrow>
     sole_socket (sockets s) (c_socket s) \<and> sole_timer (timers s) (reconnect_timer s) \<and>
     (timers s \<noteq> [] \<longrightarrow> none_alive (sockets s)) \<and> (manual_close s \<longrightarrow> timers s = [])"

definition conn_idle :: "client \<Rightarrow> bool" where
  "conn_idle s \<longleftrightarrow> conn_ok s \<and> none_alive (sockets s)"

lemma sole_timer_simps [simp]: "sole_timer ts None \<longleftrightarrow> ts = []" "sole_timer ts (Some k) \<longleftrightarrow> ts = [k]"
  by (simp_all add: sole_timer_def)

lemma sockets_upd: "i < length (sockets s) \<Longrightarrow> sockets (upd_sock i f s) = (sockets s)[i := f (sockets s ! i)]"
  by (simp add: upd_sock_def)

text \<open>A change of a socket that revives none keeps both predicates.\<close>

lemma sole_upd:
  "sole_socket ws r \<Longrightarrow> i < length ws \<Longrightarrow> (alive w \<Longrightarrow> alive (ws ! i)) \<Longrightarrow> sole_socket (ws[i := w]) r"
  unfolding sole_socket_def by (metis length_list_update nth_list_update)

lemma none_alive_upd:
  "none_alive ws \<Longrightarrow> i < length ws \<Longrightarrow> (alive w \<Longrightarrow> alive (ws ! i)) \<Longrightarrow> none_alive (ws[i := w])"
  by (auto simp: none_alive_def list_all_length nth_list_update)

lemma none_alive_closed:
  "sole_socket ws r \<Longrightarrow> i < length ws \<Longrightarrow> alive (ws ! i) \<Longrightarrow> \<not> alive w \<Longrightarrow> none_alive (ws[i := w])"
  unfolding none_alive_def sole_socket_def list_all_length
  by (metis length_list_update nth_list_update option.inject)

lemma sole_new: "none_alive ws \<Longrightarrow> sole_socket (ws @ [w]) (Some (length ws))"
  by (auto simp: none_alive_def sole_socket_def list_all_length nth_append less_Suc_eq)

lemma none_alive_nth: "none_alive ws \<Longrightarrow> i < length ws \<Longrightarrow> \<not> alive (ws ! i)"
  by (simp add: none_alive_def list_all_length)

lemma conn_ok_upd:
  "conn_ok s \<Longrightarrow> (i < length (sockets s) \<Longrightarrow> alive (f (sockets s ! i)) \<Longrightarrow> alive (sockets s ! i)) \<Longrightarrow>
     conn_ok (upd_sock i f s)"
  by (cases "i < length (sockets s)") (auto simp: conn_ok_def sockets_upd sole_upd none_alive_upd upd_sock_def)

lemma conn_ok_cleared: "conn_ok s \<Longrightarrow> conn_ok (clear_reconnect_timer s)"
  by (cases "reconnect_timer s") (simp_all add: conn_ok_def clear_reconnect_timer_def)

lemma conn_ok_manual: "conn_ok s \<Longrightarrow> conn_ok (clear_reconnect_timer (s\<lparr>manual_close := True\<rparr>))"
  by (cases "reconnect_timer s") (simp_all add: conn_ok_def clear_reconnect_timer_def)

interpretation connection: run_kept conn_ok conn_idle pf for pf
proof
  show "conn_ok s \<Longrightarrow> conn_ok (upd_obj h f s)" for s h f by (simp add: conn_ok_def)
  show "conn_idle s \<Longrightarrow> conn_idle (upd_obj h f s)" for s h f by (simp add: conn_ok_def conn_idle_def)
  show "conn_ok s \<Longrightarrow> conn_ok (s\<lparr>objects := objects s @ [new_room (length (objects s)) n],
      c_rooms := prop_set (c_rooms s) n (length (objects s))\<rparr>)" for s n by (simp add: conn_ok_def)
  show "conn_idle s \<Longrightarrow> conn_idle (s\<lparr>objects := objects s @ [new_room (length (objects s)) n],
      c_rooms := prop_set (c_rooms s) n (length (objects s))\<rparr>)" for s n by (simp add: conn_ok_def conn_idle_def)
  show "conn_ok s \<Longrightarrow> conn_ok (s\<lparr>c_rooms := prop_del (c_rooms s) n\<rparr>)" for s n by (simp add: conn_ok_def)
  show "conn_idle s \<Longrightarrow> conn_idle (s\<lparr>c_rooms := prop_del (c_rooms s) n\<rparr>)" for s n
    by (simp add: conn_ok_def conn_idle_def)
  show "conn_ok s \<Longrightarrow> conn_ok (s\<lparr>c_out := c_out s @ [e]\<rparr>)" for s e by (simp add: conn_ok_def)
  show "conn_idle s \<Longrightarrow> conn_idle (s\<lparr>c_out := c_out s @ [e]\<rparr>)" for s e by (simp add: conn_ok_def conn_idle_def)
  then show "conn_ok s \<Longrightarrow> conn_ok (s\<lparr>c_out := c_out s @ [Escaped e]\<rparr>)" for s e by (simp add: conn_ok_def)
  show "conn_ok s \<Longrightarrow> conn_ok (clear_reconnect_timer (s\<lparr>manual_close := True\<rparr>))" for s by (rule conn_ok_manual)
  show "conn_idle s \<Longrightarrow> conn_idle (clear_reconnect_timer (s\<lparr>manual_close := True\<rparr>))" for s
    by (simp add: conn_idle_def conn_ok_manual)
  show "conn_ok s \<Longrightarrow> i < length (sockets s) \<Longrightarrow> ws_state (sockets s ! i) \<noteq> CLOSED \<Longrightarrow>
      conn_ok (upd_sock i (ws_state_update (\<lambda>_. CLOSING)) s)" for s i
    by (rule conn_ok_upd) (simp_all add: alive_def)
  show "conn_idle s \<Longrightarrow> i < length (sockets s) \<Longrightarrow> ws_state (sockets s ! i) \<noteq> CLOSED \<Longrightarrow>
      conn_idle (upd_sock i (ws_state_update (\<lambda>_. CLOSING)) s)" for s i
    using none_alive_nth [of "sockets s" i] by (simp add: conn_idle_def alive_def)
  show "conn_idle s \<Longrightarrow> conn_ok s" for s by (simp add: conn_idle_def)
  show "conn_ok s \<Longrightarrow> possible (Ws_open i) s \<Longrightarrow>
      conn_ok ((upd_sock i (ws_state_update (\<lambda>_. OPEN)) s)\<lparr>reconnect_delay := initial_delay (opts pf)\<rparr>)" for s i pf
    using conn_ok_upd [of s i "ws_state_update (\<lambda>_. OPEN)"] by (simp add: alive_def conn_ok_def)
  show "conn_ok s \<Longrightarrow> possible (Ws_close i code reason) s \<Longrightarrow> conn_idle (upd_sock i (ws_state_update (\<lambda>_. CLOSED)) s)"
    for s i code reason
    using conn_ok_upd [of s i "ws_state_update (\<lambda>_. CLOSED)"] none_alive_closed [of "sockets s" "c_socket s" i]
    by (simp add: conn_idle_def alive_def sockets_upd conn_ok_def)
  show "conn_ok s \<Longrightarrow> conn_ok (upd_sock i (ws_buffered_update f) s)" for s i f
    by (rule conn_ok_upd) (simp_all add: alive_def)
  show "conn_ok s \<Longrightarrow> k \<in> set (timers s) \<Longrightarrow>
      conn_idle (s\<lparr>timers := removeAll k (timers s), reconnect_timer := None,
        reconnect_delay := num_min (num_mul (reconnect_delay s) (Fin (3 / 2))) (max_delay (opts pf))\<rparr>)" for s k pf
    by (cases "reconnect_timer s") (auto simp: conn_ok_def conn_idle_def)
  show "conn_idle s \<Longrightarrow> conn_idle (clear_reconnect_timer s)" for s
    by (simp add: conn_idle_def conn_ok_cleared)
  show "conn_idle s \<Longrightarrow> conn_idle (s\<lparr>attempts := n\<rparr>)" for s n by (simp add: conn_ok_def conn_idle_def)
  show "conn_idle s \<Longrightarrow> \<not> manual_close s \<Longrightarrow> reconnect_timer s = None \<Longrightarrow>
      conn_ok (s\<lparr>c_socket := Some (length (sockets s)),
        sockets := sockets s @ [\<lparr>ws_state = CONNECTING, ws_url = u, ws_buffered = Fin 0\<rparr>],
        c_out := c_out s @ [New_socket (length (sockets s))]\<rparr>)" for s u
    by (simp add: conn_ok_def conn_idle_def sole_new)
  show "conn_idle s \<Longrightarrow> \<not> manual_close s \<Longrightarrow> reconnect_timer s = None \<Longrightarrow>
      conn_ok (s\<lparr>timers := timers s @ [next_timer s], next_timer := Suc (next_timer s),
        reconnect_timer := Some (next_timer s),
        c_out := c_out s @ [Set_timeout (next_timer s)
          (num_add (reconnect_delay s) (num_mul (random pf (next_timer s)) (Fin 200)))]\<rparr>)" for s pf
    by (simp add: conn_ok_def conn_idle_def)
qed

lemma sole_socketD: "sole_socket ws r \<Longrightarrow> i < length ws \<Longrightarrow> alive (ws ! i) \<Longrightarrow> r = Some i"
  unfolding sole_socket_def by blast

lemma one_alive: "sole_socket ws r \<Longrightarrow> length (filter alive ws) \<le> 1"
proof -
  assume s: "sole_socket ws r"
  have "length (filter alive ws) = card {i. i < length ws \<and> alive (ws ! i)}"
    by (rule length_filter_conv_card)
  also have "\<dots> \<le> card (set_option r)"
    by (rule card_mono, simp) (use sole_socketD [OF s] in force)
  also have "\<dots> \<le> 1" by (cases r) simp_all
  finally show ?thesis .
qed

lemma initial_idle: "conn_idle (initial pf)"
  by (simp add: conn_idle_def conn_ok_def initial_def sole_socket_def none_alive_def)

lemma conn_reachable: "client_steps pf (roomer pf) s \<Longrightarrow> conn_ok s"
  by (rule connection.steps_kept) (auto intro: connection.roomer_kept initial_idle)

text \<open>
  C12: at every moment of every run there is at most one socket that is not closed or one
  reconnection timer, never two sockets and never both: a socket that is still alive is the one
  the client uses, and the pending timer is the one it can still clear.
\<close>

theorem single_connection:
  assumes "client_steps pf (roomer pf) s"
  shows "length (filter alive (sockets s)) + length (timers s) \<le> 1 \<and>
    (\<forall>i < length (sockets s). alive (sockets s ! i) \<longrightarrow> c_socket s = Some i) \<and>
    set (timers s) = set_option (reconnect_timer s)"
proof -
  have ok: "conn_ok s" by (rule conn_reachable [OF assms])
  then have "length (filter alive (sockets s)) \<le> 1" using one_alive [of "sockets s" "c_socket s"] by (simp add: conn_ok_def)
  moreover have "filter alive (sockets s) = []" if "timers s \<noteq> []"
    using ok that by (simp add: conn_ok_def none_alive_def list_all_iff filter_empty_conv)
  moreover have "length (timers s) \<le> 1" "set (timers s) = set_option (reconnect_timer s)"
    using ok by (cases "reconnect_timer s"; simp add: conn_ok_def)+
  moreover have "\<forall>i < length (sockets s). alive (sockets s ! i) \<longrightarrow> c_socket s = Some i"
    using ok sole_socketD unfolding conn_ok_def by blast
  ultimately show ?thesis by (cases "timers s = []") simp_all
qed

section \<open>Silence after close\<close>

definition shut :: "nat \<Rightarrow> client \<Rightarrow> bool" where
  "shut n s \<longleftrightarrow> manual_close s \<and> length (sockets s) = n \<and> timers s = []"

interpretation silence: run_kept "shut n" "shut n" pf for n pf
  by unfold_locales (auto simp: shut_def clear_reconnect_timer_def split: option.split)

lemma close_shuts:
  assumes "conn_ok s" "cr_name (obj s h) = root" "h < length (objects s)" "0 < stack pf"
  shows "shut (length (sockets s)) (client_turn pf (Use (Close h code reason)) s)"
proof -
  let ?P = "shut (length (sockets s))"
  let ?s = "clear_reconnect_timer (s\<lparr>manual_close := True\<rparr>)"
  obtain depth where depth: "stack pf = Suc depth" using assms(4) by (cases "stack pf") simp_all
  let ?emit = "\<lambda>h type args. run_call depth pf (On h (Emit type args))"
  have start: "?P ?s"
    using conn_ok_manual [OF assms(1)] by (simp add: conn_ok_def shut_def)
  have "silence.between.emits_keep (length (sockets s)) ?emit"
    by (simp add: silence.between.emits_keep_def silence.between.run_call_kept)
  then have "keeps ?P (andthen (close_socket pf c r) (close_all ?emit d c' r'))" for c r d c' r'
    by (intro keeps_andthen silence.between.close_socket_kept silence.between.close_all_kept)
  from keepsD [OF this start] have "?P (snd (run_call (stack pf) pf (Close h code reason) s))"
    using assms(2,3) by (simp add: depth perform_call_def close_def Let_def andthen_modify)
  then show ?thesis
    by (auto simp: client_turn_def effect_def modify_def shut_def split: prod.split option.split)
qed

text \<open>
  C13: after the root room's \<open>close\<close> the client never connects again, whatever the application's
  listeners do, then or later, and even if they throw: no socket is made, no reconnection is
  scheduled, the timer that was pending is cleared, and every room reports the connection
  closed.
\<close>

theorem closed_for_good:
  assumes "client_steps pf (roomer pf) s"
    and "cr_name (obj s h) = root" "h < length (objects s)" "0 < stack pf"
    and "client_steps pf (client_turn pf (Use (Close h code reason)) s) s'"
  shows "manual_close s' \<and> length (sockets s') = length (sockets s) \<and> timers s' = [] \<and>
    getReadyState s' = jstr ''closed''"
proof -
  have "shut (length (sockets s)) (client_turn pf (Use (Close h code reason)) s)"
    by (rule close_shuts [OF conn_reachable [OF assms(1)] assms(2-4)])
  then have "shut (length (sockets s)) s'"
    by (rule silence.steps_kept [OF assms(5)])
  then show ?thesis by (simp add: shut_def getReadyState_def)
qed

section \<open>The backoff\<close>

text \<open>The options are finite doubles in order, and \<^verbatim>\<open>Math.random()\<close> is between 0 and 1.\<close>

definition sane :: "platform \<Rightarrow> rat \<Rightarrow> rat \<Rightarrow> bool" where
  "sane pf lo hi \<longleftrightarrow>
     initial_delay (opts pf) = Fin lo \<and> max_delay (opts pf) = Fin hi \<and> 0 \<le> lo \<and> lo \<le> hi \<and>
     finite_double lo \<and> finite_double (hi + 200) \<and> finite_double hi \<and>
     (\<forall>k. \<exists>x. random pf k = Fin x \<and> 0 \<le> x \<and> x \<le> 1)"

definition delay_in :: "rat \<Rightarrow> rat \<Rightarrow> jsnum \<Rightarrow> bool" where
  "delay_in lo hi d \<longleftrightarrow> (\<exists>x. d = Fin x \<and> lo \<le> x \<and> x \<le> hi)"

lemma round_in:
  assumes "lo \<le> x" "x \<le> hi" "0 \<le> lo" "finite_double lo" "finite_double hi"
  shows "delay_in lo hi (round_num x)"
proof -
  obtain y where y: "round_num x = Fin y" "y \<le> hi"
    using round_between [of x hi] assms by auto
  have "lo \<le> fl64 x" using fl64_mono [OF assms(1)] assms(4) by (simp add: finite_double_def is_double_def)
  moreover have "y = fl64 x" using y(1) by (auto simp: round_num_def Let_def split: if_splits)
  ultimately show ?thesis using y by (simp add: delay_in_def)
qed

lemma delay_grows:
  assumes "delay_in lo hi d" "0 \<le> lo" "finite_double lo" "finite_double hi"
  shows "delay_in lo hi (num_min (num_mul d (Fin (3 / 2))) (Fin hi))"
proof -
  obtain x where x: "d = Fin x" "lo \<le> x" "x \<le> hi" using assms(1) by (auto simp: delay_in_def)
  let ?y = "fl64 (x * (3 / 2))"
  have le: "lo \<le> ?y"
    using fl64_mono [of lo "x * (3 / 2)"] x assms by (simp add: finite_double_def is_double_def)
  then have "\<not> ?y \<le> - (2 ^ 1024)" using assms(2) by (meson le_less_trans less_le_not_le neg_less_0_iff_less order_trans zero_less_numeral zero_less_power)
  with le x assms show ?thesis
    by (auto simp: delay_in_def num_min_def round_num_def Let_def)
qed

lemma timeout_in:
  assumes "sane pf lo hi" "delay_in lo hi d"
  shows "delay_in lo (hi + 200) (num_add d (num_mul (random pf k) (Fin 200)))"
proof -
  obtain x r where x: "d = Fin x" "lo \<le> x" "x \<le> hi" and r: "random pf k = Fin r" "0 \<le> r" "r \<le> 1"
    using assms unfolding sane_def delay_in_def by metis
  have "fl64 200 = 200" using fl64_of_int [of 200] by simp
  then have "delay_in 0 200 (round_num (r * 200))"
    using r by (intro round_in) (simp_all add: finite_double_def is_double_def)
  then obtain j where j: "round_num (r * 200) = Fin j" "0 \<le> j" "j \<le> 200" by (auto simp: delay_in_def)
  with x have "delay_in lo (hi + 200) (round_num (x + j))"
    using assms(1) by (intro round_in) (simp_all add: sane_def)
  with x r j show ?thesis by simp
qed

definition backoff_ok :: "platform \<Rightarrow> rat \<Rightarrow> rat \<Rightarrow> client \<Rightarrow> bool" where
  "backoff_ok pf lo hi s \<longleftrightarrow> sane pf lo hi \<and> delay_in lo hi (reconnect_delay s) \<and>
     (\<forall>k d. Set_timeout k d \<in> set (c_out s) \<longrightarrow> delay_in lo (hi + 200) d)"

lemma not_timeout: "call_effect e \<Longrightarrow> Set_timeout k d \<noteq> e"
  by auto

interpretation backoff: run_kept "backoff_ok pf lo hi" "backoff_ok pf lo hi" pf for pf lo hi
proof
  note [simp] = backoff_ok_def
  show "backoff_ok pf lo hi s \<Longrightarrow> call_effect e \<Longrightarrow> backoff_ok pf lo hi (s\<lparr>c_out := c_out s @ [e]\<rparr>)" for s e
    by (auto dest: not_timeout)
  show "backoff_ok pf lo hi s \<Longrightarrow> possible (Ws_open i) s \<Longrightarrow> backoff_ok pf lo hi
      ((upd_sock i (ws_state_update (\<lambda>_. OPEN)) s)\<lparr>reconnect_delay := initial_delay (opts pf)\<rparr>)" for s i
    by (auto simp: sane_def delay_in_def)
  show "backoff_ok pf lo hi s \<Longrightarrow> k \<in> set (timers s) \<Longrightarrow> backoff_ok pf lo hi
      (s\<lparr>timers := removeAll k (timers s), reconnect_timer := None,
         reconnect_delay := num_min (num_mul (reconnect_delay s) (Fin (3 / 2))) (max_delay (opts pf))\<rparr>)" for s k
    using delay_grows [of lo hi "reconnect_delay s"] by (simp add: sane_def)
  show "backoff_ok pf lo hi s \<Longrightarrow> \<not> manual_close s \<Longrightarrow> reconnect_timer s = None \<Longrightarrow> backoff_ok pf lo hi
      (s\<lparr>timers := timers s @ [next_timer s], next_timer := Suc (next_timer s), reconnect_timer := Some (next_timer s),
         c_out := c_out s @ [Set_timeout (next_timer s)
           (num_add (reconnect_delay s) (num_mul (random pf (next_timer s)) (Fin 200)))]\<rparr>)" for s
    using timeout_in [of pf lo hi "reconnect_delay s" "next_timer s"] by auto
qed (simp_all add: backoff_ok_def)

lemma sane_order: "sane pf lo hi \<Longrightarrow> delay_in lo hi (Fin lo)"
  by (simp add: sane_def delay_in_def)

text \<open>
  C20: with ordered, finite delay options the reconnection delay never leaves the interval from
  \<open>initial_delay\<close> to \<open>max_delay\<close>, under IEEE rounding and however many attempts fail, and every
  timeout the client sets is between \<open>initial_delay\<close> and \<open>max_delay + 200\<close> milliseconds.
\<close>

theorem backoff_bounded:
  assumes "sane pf lo hi" "client_steps pf (roomer pf) s"
  shows "delay_in lo hi (reconnect_delay s) \<and>
    (\<forall>k d. Set_timeout k d \<in> set (c_out s) \<longrightarrow> delay_in lo (hi + 200) d)"
proof -
  have "backoff_ok pf lo hi (initial pf)"
    using assms(1) sane_order [OF assms(1)] by (auto simp: backoff_ok_def initial_def sane_def)
  then have "backoff_ok pf lo hi s"
    by (intro backoff.steps_kept [OF assms(2)] backoff.roomer_kept)
  then show ?thesis by (simp add: backoff_ok_def)
qed

section \<open>The frames\<close>

definition frames_ok :: "client \<Rightarrow> bool" where
  "frames_ok s \<longleftrightarrow> (\<forall>i b. Sent i b \<in> set (c_out s) \<longrightarrow> own_frame b \<or> application_frame b)"

interpretation frames: run_kept frames_ok frames_ok pf for pf
  by unfold_locales (auto simp: frames_ok_def)

text \<open>
  C18: every frame a client sends in any run is a join or a leave of its own, with neither
  destination nor source nor payload, or a frame of the application whose event is none of the
  reserved ones. No use of the public interface makes it send an acknowledgement under its own
  name; an event that hides one behind a byte order mark is not among the reserved ones.
\<close>

theorem frames_honest:
  assumes "client_steps pf (roomer pf) s" "Sent i b \<in> set (c_out s)"
  shows "own_frame b \<or> application_frame b"
proof -
  have "frames_ok (initial pf)" by (simp add: frames_ok_def initial_def)
  then have "frames_ok s" by (intro frames.steps_kept [OF assms(1)] frames.roomer_kept)
  with assms(2) show ?thesis by (auto simp: frames_ok_def)
qed

section \<open>Joining again\<close>

definition join_effect :: "nat \<Rightarrow> js_string \<Rightarrow> client_effect" where
  "join_effect i r = (case join_frame r of Inl e \<Rightarrow> Log | Inr b \<Rightarrow> Sent i b)"

lemma send_join_open:
  "c_socket s = Some i \<Longrightarrow> socket_state s = Some OPEN \<Longrightarrow>
     send_frame (join_frame r) s = (None, s\<lparr>c_out := c_out s @ [join_effect i r]\<rparr>)"
  by (simp add: send_frame_def join_effect_def effect_def modify_def split: sum.split)

lemma send_joins:
  assumes "c_socket s = Some i" "socket_state s = Some OPEN"
  shows "for_each (\<lambda>r_name. when_act (r_name \<noteq> root) (send_frame (join_frame r_name))) rs s =
    (None, s\<lparr>c_out := c_out s @ map (join_effect i) (filter (\<lambda>r. r \<noteq> root) rs)\<rparr>)"
  using assms
proof (induction rs arbitrary: s)
  case (Cons r rs)
  let ?s = "s\<lparr>c_out := c_out s @ [join_effect i r]\<rparr>"
  have "c_socket ?s = Some i" "socket_state ?s = Some OPEN"
    using Cons.prems by (simp_all add: socket_state_def split: if_splits)
  then show ?case
    using Cons.IH [of ?s] Cons.IH [of s] Cons.prems send_join_open [OF Cons.prems, of r]
    by (cases "r = root") (simp_all add: andthen_def when_act_def)
qed simp

text \<open>
  C19: when a socket opens, the client asks again for every room it holds except the root: it
  sends one join frame for each of them (a name too long for a frame is logged instead), in the
  order of \<^verbatim>\<open>Object.keys\<close>, resets the delay of the backoff, and changes nothing else.
\<close>

theorem open_joins_again:
  assumes "client_steps pf (roomer pf) s" "possible (Ws_open i) s"
  shows "client_turn pf (Ws_open i) s = (upd_sock i (ws_state_update (\<lambda>_. OPEN)) s)
    \<lparr>reconnect_delay := initial_delay (opts pf),
     c_out := c_out s @ map (join_effect i) (filter (\<lambda>r. r \<noteq> root) (obj_keys (c_rooms s)))\<rparr>"
proof -
  let ?s = "(upd_sock i (ws_state_update (\<lambda>_. OPEN)) s)\<lparr>reconnect_delay := initial_delay (opts pf)\<rparr>"
  have sole: "sole_socket (sockets s) (c_socket s)" using conn_reachable [OF assms(1)] by (simp add: conn_ok_def)
  have i: "i < length (sockets s)" and "alive (sockets s ! i)" using assms(2) by (simp_all add: alive_def)
  then have c: "c_socket s = Some i" by (rule sole_socketD [OF sole])
  then have "socket_state ?s = Some OPEN" using i by (simp add: socket_state_def sockets_upd)
  then show ?thesis
    using c by (simp add: client_turn_def on_open_def andthen_modify send_joins)
qed

section \<open>A run\<close>

text \<open>The application's function 0 throws, the others do nothing.\<close>

definition demo :: platform where
  "demo =
     \<lparr>opts = default_options, url = jstr ''ws://localhost'', ws_new = \<lambda>_. True,
      ws_close_ok = \<lambda>code reason. num_eq code (Fin 1000) \<or> (num_leq (Fin 3000) code \<and> num_leq code (Fin 4999)),
      random = \<lambda>_. Fin 0, to_key = \<lambda>_. [],
      app_function = \<lambda>f args. ([], if f = 0 then Some (PlainError []) else None), stack = 5\<rparr>"

definition dropped :: client where
  "dropped = client_turn demo (Ws_close 0 JUndefined JUndefined) (roomer demo)"

lemma demo_simps [simp]:
  "opts demo = default_options" "ws_new demo n" "random demo k = Fin 0" "stack demo = 5"
  "app_function demo f args = ([], if f = 0 then Some (PlainError []) else None)" "url demo = jstr ''ws://localhost''"
  by (simp_all add: demo_def)

lemma options_simps [simp]:
  "initial_delay default_options = Fin 500" "max_delay default_options = Fin 5000"
  "reconnect default_options = JBool True" "should_reconnect default_options = Some default_should_reconnect"
  by (simp_all add: default_options_def)

lemma roomer_demo:
  "roomer demo =
     \<lparr>objects = [new_room 0 root], c_rooms = [(root, 0)], c_socket = Some 0, manual_close = False,
      reconnect_delay = Fin 500, reconnect_timer = None,
      sockets = [\<lparr>ws_state = CONNECTING, ws_url = jstr ''ws://localhost'', ws_buffered = Fin 0\<rparr>], attempts = 1,
      timers = [], next_timer = 0, c_out = [New_socket 0]\<rparr>"
  by (simp add: roomer_def connect_def initial_def clear_reconnect_timer_def effect_def modify_def get_room_def
      prop_set_def prop_get_def Let_def)

lemma retries_1006: "should_retry demo (Fin 1006) []"
  by (simp add: should_retry_def default_should_reconnect_def num_leq_def)

lemma obj_keys_root: "obj_keys [(root, h)] = [root]"
  by code_simp

lemma dropped_facts:
  "timers dropped = [0]" "c_rooms dropped = [(root, 0)]" "length (sockets dropped) = 1" "objects dropped = [new_room 0 root]"
proof -
  have d: "dropped = (roomer demo)
      \<lparr>sockets := [\<lparr>ws_state = CLOSED, ws_url = jstr ''ws://localhost'', ws_buffered = Fin 0\<rparr>],
       timers := [0], next_timer := 1, reconnect_timer := Some 0,
       c_out := [New_socket 0, Set_timeout 0 (num_add (Fin 500) (Fin 0))]\<rparr>"
    using retries_1006
    by (simp add: dropped_def roomer_demo client_turn_def andthen_modify upd_sock_def on_close_def wants_reconnect_def
        close_all_def obj_keys_root force_close_def obj_def new_room_def skip_def andthen_None when_act_def
        schedule_reconnect_def clear_reconnect_timer_def effect_def modify_def Let_def prop_get_def round_num_def)
  show "timers dropped = [0]" "c_rooms dropped = [(root, 0)]" "length (sockets dropped) = 1" "objects dropped = [new_room 0 root]"
    by (simp_all only: d roomer_demo client.simps list.size One_nat_def add_0)
qed

lemma dropped_reachable: "client_steps demo (roomer demo) dropped"
  unfolding dropped_def
  by (rule client_steps.later [OF client_steps.none client_step.turn]) (simp add: roomer_demo)

theorem single_connection_witness:
  "length (filter alive (sockets dropped)) + length [0 :: nat] \<le> 1"
  using single_connection [OF dropped_reachable] by (simp add: dropped_facts)

theorem backoff_bounded_witness:
  "delay_in 500 5000 (reconnect_delay dropped) \<and> timers dropped = [0]"
proof -
  have "fl64 500 = 500" "fl64 5000 = 5000" "fl64 5200 = 5200"
    using fl64_of_int [of 500] fl64_of_int [of 5000] fl64_of_int [of 5200] by simp_all
  then have "sane demo 500 5000"
    by (simp add: sane_def finite_double_def is_double_def)
  from backoff_bounded [OF this dropped_reachable] show ?thesis by (simp add: dropped_facts)
qed

theorem closed_for_good_witness:
  "manual_close (client_turn demo (Use (Close 0 JUndefined JUndefined)) dropped) \<and>
   timers (client_turn demo (Use (Close 0 JUndefined JUndefined)) dropped) = [] \<and> timers dropped = [0]"
proof -
  have "cr_name (obj dropped 0) = root" "0 < length (objects dropped)"
    by (simp_all add: dropped_facts obj_def new_room_def)
  then show ?thesis
    using closed_for_good [OF dropped_reachable _ _ _ client_steps.none, of 0 JUndefined JUndefined]
    by (simp add: dropped_facts)
qed

text \<open>The socket opens, the root is acknowledged, and the application joins the room \<^verbatim>\<open>x\<close>.\<close>

definition opened :: client where
  "opened = client_turn demo (Ws_open 0) (roomer demo)"

definition root_ack :: packet where
  "root_ack = \<lparr>p_dst = [], p_event = jstr ''join_ack'', p_flags = JNumber (Fin 0), p_payload = [],
     p_room = root, p_src = jstr ''A'', p_version = JNumber (Fin 1)\<rparr>"

definition acked :: client where
  "acked = client_turn demo (Use (Parse 0 root_ack)) opened"

definition joined :: client where
  "joined = client_turn demo (Use (Join 0 (JString [120]))) acked"

lemma run_call_5:
  "receiver call < length (objects s) \<Longrightarrow> run_call 5 pf call s = perform_call (run_call 4 pf) pf call s"
  using run_call.simps(2) [of 4] by (simp del: run_call.simps(2))

lemma emit_unheard_4:
  "h < length (objects s) \<Longrightarrow> listed (cr_em (obj s h)) ty = [] \<Longrightarrow>
     run_call 4 pf (On h (Emit (JString ty) args)) s = (None, s)"
  "h < length (objects s) \<Longrightarrow> listed (cr_em (obj s h)) ty = [] \<Longrightarrow>
     run_call 5 pf (On h (Emit (JString ty) args)) s = (None, s)"
  using emit_unheard [of h s ty 3] emit_unheard [of h s ty 4] by (simp_all del: run_call.simps(2))

lemma opened_facts:
  "opened = (roomer demo)\<lparr>sockets := [\<lparr>ws_state = OPEN, ws_url = jstr ''ws://localhost'', ws_buffered = Fin 0\<rparr>]\<rparr>"
  by (simp add: opened_def roomer_demo client_turn_def on_open_def andthen_modify upd_sock_def obj_keys_root when_act_def)

definition open_root :: croom where
  "open_root = (new_room 0 root)\<lparr>cr_member_id := jstr ''A'', cr_is_open := True\<rparr>"

lemma new_room_listeners [simp]:
  "listed (cr_em (new_room h name)) ty = (if ty = newListener then [Fn (tracker h)] else [])"
  "cr_name (new_room h name) = name" "cr_is_open (new_room h name) = False"
  "cr_members (new_room h name) = []"
  by (simp_all add: new_room_def) (simp_all add: new_emitter_def listed_def)

lemma listed_open_root: "listed (cr_em open_root) ty = (if ty = newListener then [Fn (tracker 0)] else [])"
  by (simp add: open_root_def)

lemma text_decode_Nil [simp]: "text_decode [] = []"
  by (simp add: text_decode_def utf8_decode_def utf8_scalars_def dec.simps)

lemma acked_facts: "acked = opened\<lparr>objects := [open_root]\<rparr>"
  by (simp add: acked_def client_turn_def run_call_5 perform_call_def parse_def root_ack_def Let_def andthen_modify
      opened_facts roomer_demo upd_obj_def obj_def skip_def andthen_None open_root_def emit_unheard_4 newListener_def)

lemma joined_facts:
  assumes "join_frame [120] = Inr b"
  shows "joined = acked\<lparr>objects := [open_root, new_room 1 [120]], c_rooms := [(root, 0), ([120], 1)],
    c_out := [New_socket 0, Sent 0 b]\<rparr>"
proof -
  have "root \<noteq> [120]" by code_simp
  then show ?thesis
    using assms by (simp add: joined_def client_turn_def run_call_5 perform_call_def no_result_def join_def get_room_def
        acked_facts opened_facts roomer_demo obj_def open_root_def Let_def prop_get_def prop_set_def
        send_frame_def socket_state_def effect_def modify_def)
qed

lemma join_frame_x: "\<exists>b. join_frame [120] = Inr b"
proof -
  have "fields_fit (utf8_encode [120]) (utf8_encode (jstr ''join'')) (utf8_encode []) (utf8_encode []) (utf8_encode [])"
    by (simp add: fields_fit_def jstr_def utf8_encode_def is_high_def is_low_def enc_scalar_def)
  moreover have "valid_int 0 255 (flags_value JUndefined)"
    by (simp add: flags_value_def valid_int_def num_leq_def)
  ultimately show ?thesis by (simp add: join_frame_def new_message_iff client_payload_def)
qed

lemma joined_reachable: "client_steps demo (roomer demo) joined"
  unfolding joined_def acked_def opened_def
  by (intro client_steps.later [OF _ client_step.turn] client_steps.none) (simp_all add: roomer_demo)

theorem frames_honest_witness:
  "\<exists>b. Sent 0 b \<in> set (c_out joined) \<and> (own_frame b \<or> application_frame b)"
  using join_frame_x frames_honest [OF joined_reachable] by (auto simp: joined_facts)

text \<open>The connection drops and is made again: the room \<^verbatim>\<open>x\<close> is asked for a second time.\<close>

definition lost :: client where
  "lost = client_turn demo (Ws_close 0 JUndefined JUndefined) joined"

definition remade :: client where
  "remade = client_turn demo (Timeout 0) lost"

lemma keys_root_x: "obj_keys [(root, 0 :: nat), ([120], 1)] = [root, [120]]"
  by code_simp

lemma close_all_joined:
  assumes "objects s = [open_root, new_room 1 [120]]" "c_rooms s = [(root, 0), ([120], 1)]"
  shows "close_all (emit_room demo) (JBool True) (JNumber code) (JString reason) s =
    (None, s\<lparr>objects := [open_root\<lparr>cr_is_open := False\<rparr>, new_room 1 [120]]\<rparr>)"
proof -
  let ?s = "s\<lparr>objects := [open_root\<lparr>cr_is_open := False\<rparr>, new_room 1 [120]]\<rparr>"
  have "root \<noteq> [120]" "jstr ''close'' \<noteq> newListener" by code_simp+
  moreover have open_root: "cr_members open_root = []" "cr_is_open open_root" by (simp_all add: open_root_def)
  moreover have "upd_obj 0 (\<lambda>r. r\<lparr>cr_is_open := False, cr_members := []\<rparr>) s = ?s"
    using assms open_root by (simp add: upd_obj_def obj_def)
  moreover have "emit_room demo 0 (JString (jstr ''close'')) args ?s = (None, ?s)" for args
    using emit_unheard_4(2) [of 0 ?s "jstr ''close''"] \<open>jstr ''close'' \<noteq> newListener\<close>
    by (simp add: emit_room_def obj_def listed_open_root)
  ultimately show ?thesis
    using assms by (simp add: close_all_def keys_root_x force_close_def prop_get_def obj_def andthen_modify
        andthen_None when_act_def skip_def Let_def del: One_nat_def)
qed

lemma lost_facts:
  assumes "join_frame [120] = Inr b"
  shows "lost = joined\<lparr>objects := [open_root\<lparr>cr_is_open := False\<rparr>, new_room 1 [120]],
    sockets := [\<lparr>ws_state = CLOSED, ws_url = jstr ''ws://localhost'', ws_buffered = Fin 0\<rparr>],
    timers := [0], next_timer := 1, reconnect_timer := Some 0,
    c_out := [New_socket 0, Sent 0 b, Set_timeout 0 (num_add (Fin 500) (Fin 0))]\<rparr>"
proof -
  let ?s = "joined\<lparr>sockets := [\<lparr>ws_state = CLOSED, ws_url = jstr ''ws://localhost'', ws_buffered = Fin 0\<rparr>]\<rparr>"
  note j = joined_facts [OF assms] acked_facts opened_facts roomer_demo
  have "upd_sock 0 (ws_state_update (\<lambda>_. CLOSED)) joined = ?s" by (simp add: j upd_sock_def)
  moreover have "close_all (emit_room demo) (JBool True) (JNumber (Fin 1006)) (JString []) ?s =
      (None, ?s\<lparr>objects := [open_root\<lparr>cr_is_open := False\<rparr>, new_room 1 [120]]\<rparr>)"
    by (rule close_all_joined) (simp_all add: j)
  moreover have "manual_close ?s = False" by (simp add: j)
  ultimately have r: "react demo (Ws_close 0 JUndefined JUndefined) joined =
        when_act True (schedule_reconnect demo) (?s\<lparr>objects := [open_root\<lparr>cr_is_open := False\<rparr>, new_room 1 [120]]\<rparr>)"
    using retries_1006 by (simp add: andthen_modify on_close_def wants_reconnect_def andthen_None Let_def)
  show ?thesis
    unfolding lost_def client_turn_def r
    by (simp add: when_act_def schedule_reconnect_def wants_reconnect_def clear_reconnect_timer_def
        effect_def modify_def j Let_def round_num_def)
qed

lemma remade_facts:
  assumes "join_frame [120] = Inr b"
  shows "c_rooms remade = [(root, 0), ([120], 1)]" "possible (Ws_open 1) remade"
    "c_out remade = [New_socket 0, Sent 0 b, Set_timeout 0 (num_add (Fin 500) (Fin 0)), New_socket 1]"
  by (simp_all add: remade_def client_turn_def andthen_modify on_timeout_def connect_def clear_reconnect_timer_def
      effect_def modify_def lost_facts [OF assms] joined_facts [OF assms] acked_facts opened_facts roomer_demo Let_def)

lemma remade_reachable: "client_steps demo (roomer demo) remade"
proof -
  obtain b where b: "join_frame [120] = Inr b" using join_frame_x by blast
  have "possible (Ws_close 0 JUndefined JUndefined) joined" "possible (Timeout 0) lost"
    by (simp_all add: lost_facts [OF b] joined_facts [OF b] acked_facts opened_facts roomer_demo)
  then show ?thesis
    unfolding remade_def lost_def
    by (intro client_steps.later [OF _ client_step.turn] joined_reachable) (simp_all only: lost_def)
qed

theorem open_joins_again_witness:
  "\<exists>b d. c_out (client_turn demo (Ws_open 1) remade) =
    [New_socket 0, Sent 0 b, Set_timeout 0 d, New_socket 1, Sent 1 b]"
proof -
  obtain b where b: "join_frame [120] = Inr b" using join_frame_x by blast
  have "root \<noteq> [120]" by code_simp
  then show ?thesis
    using open_joins_again [OF remade_reachable remade_facts(2) [OF b]] b
    by (simp add: remade_facts [OF b] keys_root_x join_effect_def del: One_nat_def)
qed

end
