(* ===== verification/Client_Rooms.thy ===== *)
theory Client_Rooms
  imports Reconnection
begin

text \<open>
  What happens to a room on the client: who hears of its end, what a listener that joins again
  gets, and what an exception or a rejected close code leaves behind.
\<close>

section \<open>Listeners of a room\<close>

lemma emit_one:
  "h < length (objects s) \<Longrightarrow> listed (cr_em (obj s h)) ty = [Fn f] \<Longrightarrow>
     run_call (Suc depth) pf (On h (Emit (JString ty) args)) s = call_function (run_call depth pf) pf f args s"
  by (simp add: perform_call_def Let_def room_emitter_op_def emit_with_def room_lens_def invoke_def)

lemma call_throws:
  assumes "even f" "app_function pf f args = ([], Some e)"
  shows "call_function run pf f args s = (Some e, s\<lparr>c_out := c_out s @ [Called f args]\<rparr>)"
  using assms by (simp add: call_function_def effect_def andthen_modify throw_def)

section \<open>Joining again from a close listener\<close>

text \<open>
  an application that joins a room again as soon as it has left it loses the room. When the
  server confirms the leave, the room's \<^verbatim>\<open>close\<close> listeners run while the room is still registered
  and open; \<^verbatim>\<open>join\<close> finds it there and returns it without sending anything; then it is cleared and
  removed. The application holds a dead room, and the server was not asked.
\<close>

theorem rejoin_on_close_lost:
  assumes "h < length (objects s)" "cr_name (obj s h) = n" "prop_get (c_rooms s) n = Some h"
    and "p_event packet = jstr ''leave_ack''"
    and "listed (cr_em (obj s h)) (jstr ''close'') = [Fn f]" "even f"
    and "\<And>args. app_function pf f args = ([\<lambda>_. Join r (JString n)], None)"
    and "r < length (objects s)" "cr_is_open (obj s r)"
  shows "\<exists>s' args. run_call (Suc (Suc (Suc depth))) pf (Parse h packet) s = (None, s') \<and>
    c_out s' = c_out s @ [Called f args] \<and> prop_get (c_rooms s') n = None \<and>
    \<not> cr_is_open (obj s' h) \<and> cr_members (obj s' h) = []"
proof -
  let ?args = "[Val (JNumber (Fin 1000)), Val (str ''Left room'')]"
  let ?s = "s\<lparr>c_out := c_out s @ [Called f ?args]\<rparr>"
  have "run_call (Suc depth) pf (Join r (JString n)) ?s = (None, ?s)"
    using assms by (simp add: perform_call_def Let_def no_result_def join_def get_room_def)
  then have "call_function (run_call (Suc depth) pf) pf f ?args s = (None, ?s)"
    using assms(6,7) by (simp add: call_function_def effect_def andthen_modify andthen_None skip_def del: run_call.simps(2))
  then have "run_call (Suc (Suc depth)) pf (On h (Emit (str ''close'') ?args)) s = (None, ?s)"
    by (simp only: emit_one [OF assms(1,5)])
  then show ?thesis
    using assms(1-4) run_call.simps(2) [of "Suc (Suc depth)" pf "Parse h packet"]
    by (simp add: perform_call_def parse_def Let_def andthen_None andthen_modify modify_apply del: run_call.simps(2))
qed

text \<open>A connected client with an open root and an open room \<^verbatim>\<open>x\<close>, which has one \<^verbatim>\<open>close\<close> listener.\<close>

definition room_x :: croom where
  "room_x = \<lparr>cr_name = [120], cr_members = [], cr_registered = [], cr_is_open = True, cr_member_id = jstr ''A'',
     cr_em = \<lparr>events = [(jstr ''close'', [Fn 0])], next_wrapper = 0\<rparr>\<rparr>"

definition two_rooms :: client where
  "two_rooms = acked\<lparr>objects := [open_root, room_x], c_rooms := [(root, 0), ([120], 1)]\<rparr>"

definition rejoining :: platform where
  "rejoining = demo\<lparr>app_function := \<lambda>f args. ([\<lambda>_. Join 0 (JString [120])], None)\<rparr>"

lemma two_rooms_facts [simp]:
  "length (objects two_rooms) = 2" "obj two_rooms 0 = open_root" "obj two_rooms 1 = room_x"
  "c_rooms two_rooms = [(root, 0), ([120], 1)]" "c_out two_rooms = [New_socket 0]"
  "manual_close two_rooms = False" "c_socket two_rooms = Some 0" "timers two_rooms = []"
  "sockets two_rooms = [\<lparr>ws_state = OPEN, ws_url = jstr ''ws://localhost'', ws_buffered = Fin 0\<rparr>]"
  "reconnect_timer two_rooms = None"
  by (simp_all add: two_rooms_def obj_def acked_facts opened_facts roomer_demo)

lemma room_x_facts [simp]:
  "cr_name room_x = [120]" "cr_is_open room_x" "listed (cr_em room_x) (jstr ''close'') = [Fn 0]"
  by (simp_all add: room_x_def listed_def prop_get_def)

lemma root_not_x: "root \<noteq> [120]"
  by code_simp

theorem rejoin_on_close_lost_witness:
  "\<exists>s' args. run_call 3 rejoining (Parse 1 (root_ack\<lparr>p_event := jstr ''leave_ack''\<rparr>)) two_rooms = (None, s') \<and>
    c_out s' = [New_socket 0, Called 0 args] \<and> prop_get (c_rooms s') [120] = None"
proof -
  have "prop_get (c_rooms two_rooms) [120] = Some 1" using root_not_x by (simp add: prop_get_def)
  then show ?thesis
    using rejoin_on_close_lost [of 1 two_rooms "[120]" "root_ack\<lparr>p_event := jstr ''leave_ack''\<rparr>" 0 rejoining 0 0]
    by (auto simp: rejoining_def open_root_def numeral_3_eq_3 simp del: run_call.simps(2) One_nat_def)
qed

section \<open>An exception in a close listener\<close>

text \<open>No socket and no timer: nothing the client does or hears brings one back.\<close>

definition stranded :: "nat \<Rightarrow> client \<Rightarrow> bool" where
  "stranded n s \<longleftrightarrow> none_alive (sockets s) \<and> length (sockets s) = n \<and> timers s = []"

lemma stranded_dead: "stranded n s \<Longrightarrow> i < length (sockets s) \<Longrightarrow> \<not> alive (sockets s ! i)"
  by (auto simp: stranded_def none_alive_def list_all_length)

interpretation stranding: run_kept "stranded n" "\<lambda>_. False" pf for n pf
proof
  show "stranded n s \<Longrightarrow> i < length (sockets s) \<Longrightarrow> ws_state (sockets s ! i) \<noteq> CLOSED \<Longrightarrow>
      stranded n (upd_sock i (ws_state_update (\<lambda>_. CLOSING)) s)" for s i
    using stranded_dead [of n s i] by (simp add: alive_def)
  show "stranded n s \<Longrightarrow> stranded n (upd_sock i (ws_buffered_update f) s)" for s i f
    by (auto simp: stranded_def upd_sock_def alive_def intro!: none_alive_upd)
  show "stranded n s \<Longrightarrow> stranded n (clear_reconnect_timer (s\<lparr>manual_close := True\<rparr>))" for s
    by (simp add: stranded_def clear_reconnect_timer_def split: option.split)
qed (use stranded_dead in \<open>auto simp: stranded_def alive_def\<close>)

text \<open>
  C40: an exception in a \<^verbatim>\<open>close\<close> listener ends the reconnection for good. When a socket
  closes, the rooms are told before the next attempt is scheduled; if a listener of the first
  open room throws, the exception leaves the handler. No socket is alive then and no timer is
  pending, although the application never closed the client and the options ask for
  reconnection; and whatever happens later, no socket is made and no timer is set again.
\<close>

theorem throwing_listener_strands:
  assumes "client_steps pf (roomer pf) s" "possible (Ws_close i code reason) s"
    and "obj_keys (c_rooms s) = n # ns" "prop_get (c_rooms s) n = Some h" "h < length (objects s)"
    and "cr_is_open (obj s h)" "listed (cr_em (obj s h)) (jstr ''close'') = [Fn f]" "even f"
    and "\<And>args. app_function pf f args = ([], Some e)" "1 < stack pf"
  shows "none_alive (sockets (client_turn pf (Ws_close i code reason) s)) \<and>
    timers (client_turn pf (Ws_close i code reason) s) = [] \<and>
    manual_close (client_turn pf (Ws_close i code reason) s) = manual_close s \<and>
    Escaped e \<in> set (c_out (client_turn pf (Ws_close i code reason) s)) \<and>
    (\<forall>t. client_steps pf (client_turn pf (Ws_close i code reason) s) t \<longrightarrow>
      none_alive (sockets t) \<and> length (sockets t) = length (sockets s) \<and> timers t = [])"
proof -
  let ?s = "upd_sock i (ws_state_update (\<lambda>_. CLOSED)) s"
  let ?c = "upd_obj h (\<lambda>r. r\<lparr>cr_is_open := False, cr_members := []\<rparr>) ?s"
  define depth where "depth = stack pf - 2"
  then have depth: "stack pf = Suc (Suc depth)" using assms(10) by simp
  have ok: "conn_ok s" by (rule conn_reachable [OF assms(1)])
  have idle: "conn_idle ?s" by (rule connection.kept_closed [OF ok assms(2)])
  have "i < length (sockets s)" "alive (sockets s ! i)" using assms(2) by (simp_all add: alive_def)
  then have "timers s = []"
    using conjunct1 [OF conjunct2 [OF conjunct2 [OF ok [unfolded conn_ok_def]]]] none_alive_nth by blast
  moreover have "emit_room pf h (str ''close'') args ?c = (Some e, ?c\<lparr>c_out := c_out s @ [Called f args]\<rparr>)" for args
    unfolding emit_room_def depth using assms(5,7,8,9)
    by (subst emit_one [where f = f]) (simp_all add: call_throws)
  then have closing: "force_close (emit_room pf) h d (JNumber c) (JString r) ?s =
      (Some e, ?c\<lparr>c_out := c_out s @ [Called f [Val (JNumber c), Val (JString r)]]\<rparr>)" for d c r
    using assms(5,6) by (simp add: force_close_def Let_def andthen_def modify_def)
  have "close_all (emit_room pf) d (JNumber c) (JString r) ?s =
      (Some e, ?c\<lparr>c_out := c_out s @ [Called f [Val (JNumber c), Val (JString r)]]\<rparr>)" for d c r
    using assms(3,4) closing by (simp add: close_all_def andthen_def)
  ultimately have now: "none_alive (sockets (client_turn pf (Ws_close i code reason) s)) \<and>
      timers (client_turn pf (Ws_close i code reason) s) = [] \<and>
      manual_close (client_turn pf (Ws_close i code reason) s) = manual_close s \<and>
      Escaped e \<in> set (c_out (client_turn pf (Ws_close i code reason) s)) \<and>
      length (sockets (client_turn pf (Ws_close i code reason) s)) = length (sockets s)"
    using idle by (simp add: client_turn_def andthen_modify on_close_def andthen_Some Let_def effect_def modify_def
        conn_idle_def upd_sock_def)
  then have "stranded (length (sockets s)) (client_turn pf (Ws_close i code reason) s)" by (simp add: stranded_def)
  from stranding.steps_kept [OF _ this] have "stranded (length (sockets s)) t"
    if "client_steps pf (client_turn pf (Ws_close i code reason) s) t" for t using that by blast
  then show ?thesis using now by (simp add: stranded_def)
qed

text \<open>The application listens to \<^verbatim>\<open>close\<close> with a function that throws.\<close>

definition listening :: client where
  "listening = client_turn demo (Use (On 0 (AddListener (str ''close'') (Some 0)))) acked"

definition tracked_root :: croom where
  "tracked_root = cr_registered_update (\<lambda>_. [(jstr ''close'', ())]) open_root"

lemma emit_one_4:
  "h < length (objects s) \<Longrightarrow> listed (cr_em (obj s h)) ty = [Fn f] \<Longrightarrow>
     run_call 4 pf (On h (Emit (JString ty) args)) s = call_function (run_call 3 pf) pf f args s"
  using emit_one [of h s ty f 3] by (simp del: run_call.simps(2))

lemma listed_new [simp]: "listed new_emitter ty = []"
  by (simp add: new_emitter_def listed_def)

lemma listening_facts:
  "listening = acked\<lparr>objects := [cr_em_update (add_to (jstr ''close'') (Fn 0)) tracked_root]\<rparr>"
proof -
  have tracked: "run_call 4 demo (On 0 (Emit (JString newListener) [Val (str ''close''), Func 0])) acked =
      (None, acked\<lparr>objects := [tracked_root]\<rparr>)"
    by (subst emit_one_4 [where f = "tracker 0"])
      (simp_all add: acked_facts obj_def listed_open_root call_function_def tracker_def track_def when_act_def
        modify_def upd_obj_def tracked_root_def open_root_def new_room_def prop_set_def newListener_def Let_def)
  have "tell (room_lens 0) (\<lambda>type args. run_call 4 demo (On 0 (Emit type args))) newListener (jstr ''close'') (Fn 0) acked =
      (None, acked\<lparr>objects := [tracked_root]\<rparr>)"
    using tracked by (simp add: tell_def room_lens_def listed_open_root acked_facts obj_def)
  then show ?thesis
    by (simp add: listening_def client_turn_def run_call_5 acked_facts perform_call_def Let_def room_emitter_op_def
        add_listener_def andthen_None modify_def)
      (simp add: room_lens_def upd_obj_def obj_def)
qed

lemma listening_reachable: "client_steps demo (roomer demo) listening"
  unfolding listening_def acked_def opened_def
  by (intro client_steps.later [OF _ client_step.turn] client_steps.none) (simp_all add: roomer_demo)

theorem throwing_listener_strands_witness:
  "timers (client_turn demo (Ws_close 0 JUndefined JUndefined) listening) = [] \<and>
   none_alive (sockets (client_turn demo (Ws_close 0 JUndefined JUndefined) listening)) \<and>
   \<not> manual_close (client_turn demo (Ws_close 0 JUndefined JUndefined) listening)"
proof -
  have "root \<noteq> [120]" "jstr ''close'' \<noteq> newListener" by code_simp+
  then show ?thesis
    using throwing_listener_strands [OF listening_reachable, of 0 JUndefined JUndefined root "[]" 0 0 "PlainError []"]
    by (simp add: listening_facts acked_facts opened_facts roomer_demo obj_keys_root prop_get_def obj_def
        tracked_root_def open_root_def)
qed

section \<open>A close code the browser rejects\<close>

text \<open>When no room listens to \<^verbatim>\<open>close\<close>, closing the rooms one after the other has no further effect.\<close>

definition unheard :: "client \<Rightarrow> bool" where
  "unheard s \<longleftrightarrow> (\<forall>h. listed (cr_em (obj s h)) (jstr ''close'') = [])"

lemma force_close_unheard:
  assumes "unheard s" "h < length (objects s)"
  shows "\<exists>s'. force_close (\<lambda>h type args. run_call (Suc depth) pf (On h (Emit type args))) h (JBool False) code reason s = (None, s') \<and>
    unheard s' \<and> sockets s' = sockets s \<and> c_socket s' = c_socket s \<and> manual_close s' = manual_close s \<and>
    c_rooms s' = prop_del (c_rooms s) (cr_name (obj s h)) \<and> length (objects s') = length (objects s) \<and>
    (\<forall>h. cr_name (obj s' h) = cr_name (obj s h)) \<and> \<not> cr_is_open (obj s' h) \<and> c_out s' = c_out s"
proof -
  let ?c = "if cr_is_open (obj s h) then upd_obj h (\<lambda>r. r\<lparr>cr_is_open := False, cr_members := []\<rparr>) s else s"
  have c: "unheard ?c" "h < length (objects ?c)" using assms by (simp_all add: unheard_def)
  have "run_call (Suc depth) pf (On h (Emit (str ''close'') args)) ?c = (None, ?c)" for args
    by (rule emit_unheard [OF c(2)]) (use c(1) in \<open>simp add: unheard_def\<close>)
  then have "force_close (\<lambda>h type args. run_call (Suc depth) pf (On h (Emit type args))) h (JBool False) code reason s =
      (None, (upd_obj h (cr_member_id_update (\<lambda>_. [])) ?c)\<lparr>c_rooms := prop_del (c_rooms ?c) (cr_name (obj ?c h))\<rparr>)"
    by (cases "cr_is_open (obj s h)")
      (simp_all add: force_close_def Let_def andthen_modify andthen_None skip_def when_act_def modify_def del: run_call.simps(2))
  then show ?thesis using assms by (auto simp: unheard_def)
qed

section \<open>The registry of rooms\<close>

definition rooms_named :: "client \<Rightarrow> bool" where
  "rooms_named s \<longleftrightarrow> wf_dict (c_rooms s) \<and>
     (\<forall>n h. prop_get (c_rooms s) n = Some h \<longrightarrow> h < length (objects s) \<and> cr_name (obj s h) = n)"

lemma rooms_named_new:
  "rooms_named s \<Longrightarrow> rooms_named (s\<lparr>objects := objects s @ [new_room (length (objects s)) n],
     c_rooms := prop_set (c_rooms s) n (length (objects s))\<rparr>)"
  by (auto simp: rooms_named_def obj_def nth_append less_Suc_eq split: if_splits)

lemma rooms_named_cong:
  "rooms_named s \<Longrightarrow> c_rooms s' = c_rooms s \<Longrightarrow> objects s' = objects s \<Longrightarrow> rooms_named s'"
proof -
  assume "rooms_named s" "c_rooms s' = c_rooms s" "objects s' = objects s"
  moreover from this have "obj s' h = obj s h" for h by (simp add: obj_def)
  ultimately show "rooms_named s'" by (simp add: rooms_named_def)
qed

interpretation registry_of_rooms: run_kept rooms_named rooms_named pf for pf
proof
  show "rooms_named s \<Longrightarrow> (\<And>r. cr_name (f r) = cr_name r) \<Longrightarrow> rooms_named (upd_obj h f s)" for s f h
    by (simp add: rooms_named_def)
  show "rooms_named s \<Longrightarrow> rooms_named (s\<lparr>c_rooms := prop_del (c_rooms s) n\<rparr>)" for s n
    by (auto simp: rooms_named_def split: if_splits)
  show "rooms_named s \<Longrightarrow> rooms_named (s\<lparr>objects := objects s @ [new_room (length (objects s)) n],
      c_rooms := prop_set (c_rooms s) n (length (objects s))\<rparr>)" for s n by (rule rooms_named_new)
qed (erule rooms_named_cong; simp)+

text \<open>
  C17: the client's table of rooms is exact in every reachable state: each name it holds leads to
  an existing room object of that name, so no two names share an object and \<open>get_room\<close> never
  returns another room's object, whatever the application's listeners did.
\<close>

theorem rooms_registered:
  assumes "client_steps pf (roomer pf) s"
  shows "(\<forall>n h. prop_get (c_rooms s) n = Some h \<longrightarrow> h < length (objects s) \<and> cr_name (obj s h) = n) \<and>
    distinct (obj_keys (c_rooms s)) \<and>
    (\<forall>n h s'. get_room (JString n) s = (Inr h, s') \<longrightarrow> prop_get (c_rooms s') n = Some h \<and> cr_name (obj s' h) = n)"
proof -
  have named: "rooms_named s"
    by (rule registry_of_rooms.steps_kept [OF assms], rule registry_of_rooms.roomer_kept)
      (simp add: rooms_named_def initial_def)
  moreover have "prop_get (c_rooms s') n = Some h \<and> cr_name (obj s' h) = n" if "get_room (JString n) s = (Inr h, s')" for n h s'
  proof -
    have "rooms_named s'"
      using registry_of_rooms.between.get_room_kept [OF named, of "JString n"] that by simp
    moreover have "c_rooms (snd (send_frame b t)) = c_rooms t" for b t
      by (simp add: send_frame_def effect_def modify_def skip_def split: sum.split option.split ready_state.split)
    then have "prop_get (c_rooms s') n = Some h"
      using that by (auto simp: get_room_def Let_def split: option.splits if_splits)
    ultimately show ?thesis by (simp add: rooms_named_def)
  qed
  ultimately show ?thesis by (simp add: rooms_named_def distinct_obj_keys)
qed

theorem rooms_registered_witness:
  "cr_name (obj joined 1) = [120] \<and> prop_get (c_rooms joined) [120] = Some 1"
proof -
  obtain b where b: "join_frame [120] = Inr b" using join_frame_x by blast
  have "prop_get (c_rooms joined) [120] = Some 1" using root_not_x by (simp add: joined_facts [OF b] prop_get_def)
  then show ?thesis using rooms_registered [OF joined_reachable] by simp
qed

text \<open>
  The object of a room has all of its methods and all of the emitter's: no name of one hides one
  of the other. Only the root's has \<^verbatim>\<open>close\<close>, \<^verbatim>\<open>purge\<close> and \<^verbatim>\<open>rooms\<close>.
\<close>

lemma assigned:
  "prop_get (object_assign d (map (\<lambda>k. (k, f k)) ks)) k = (if k \<in> set ks then Some (f k) else prop_get d k)"
  by (induction ks arbitrary: d) (auto simp: object_assign_def)

lemma room_interface:
  "prop_get (room_object name) k =
     (if k \<in> set (room_methods name) then Some (Given k)
      else if k \<in> set emitter_methods then Some (Method k) else None)"
proof -
  have "set (room_methods name) \<inter> set emitter_methods = {}"
    by (simp add: room_methods_def emitter_methods_def jstr_def)
  moreover have "prop_get [] k = (None :: js_string property option)" by (simp add: prop_get_def)
  ultimately show ?thesis by (auto simp: room_object_def create_emitter_def Let_def comp_def assigned)
qed

text \<open>\<^verbatim>\<open>purge\<close> stops at the first room that is not open yet, and leaves none of those after it.\<close>

lemma purge_stops:
  assumes "cr_name (obj s h) = root" "obj_keys (c_rooms s) = root # r # rs" "r \<noteq> root"
    and "prop_get (c_rooms s) r = Some k" "\<not> cr_is_open (obj s k)"
  shows "purge h s = (Some (room_closed ''leave''), s)"
  using assms by (simp add: purge_def when_act_def skip_def andthen_def leave_def throw_def)

lemma run_call_Suc:
  "receiver call < length (objects s) \<Longrightarrow> run_call (Suc d) pf call s = perform_call (run_call d pf) pf call s"
  by simp

declare run_call.simps(2) [simp del]

section \<open>Closing with a code the browser rejects\<close>

lemma close_all_unheard:
  assumes "unheard s" "rooms_named s"
  shows "\<exists>s'. close_all (\<lambda>h type args. run_call (Suc depth) pf (On h (Emit type args))) (JBool False) code reason s = (None, s') \<and>
    sockets s' = sockets s \<and> c_socket s' = c_socket s \<and> manual_close s' = manual_close s \<and>
    c_rooms s' = [] \<and> c_out s' = c_out s"
proof -
  let ?close = "\<lambda>r_name s. case prop_get (c_rooms s) r_name of
      Some h \<Rightarrow> force_close (\<lambda>h type args. run_call (Suc depth) pf (On h (Emit type args))) h (JBool False) code reason s
    | None \<Rightarrow> skip s"
  have "\<exists>s'. for_each ?close ks s = (None, s') \<and> sockets s' = sockets s \<and> c_socket s' = c_socket s \<and>
      manual_close s' = manual_close s \<and> c_out s' = c_out s \<and>
      (\<forall>n. prop_has (c_rooms s') n \<longleftrightarrow> prop_has (c_rooms s) n \<and> n \<notin> set ks)"
    if "unheard s" "rooms_named s" for ks s
    using that
  proof (induction ks arbitrary: s)
    case Nil
    then show ?case by simp
  next
    case (Cons k ks)
    show ?case
    proof (cases "prop_get (c_rooms s) k")
      case None
      then show ?thesis using Cons.IH [OF Cons.prems] by (auto simp: andthen_None skip_def prop_has_get)
    next
      case (Some h)
      then have h: "h < length (objects s)" "cr_name (obj s h) = k" using Cons.prems by (auto simp: rooms_named_def)
      obtain s1 where s1: "force_close (\<lambda>h type args. run_call (Suc depth) pf (On h (Emit type args))) h (JBool False) code reason s = (None, s1)"
          "unheard s1" "sockets s1 = sockets s" "c_socket s1 = c_socket s" "manual_close s1 = manual_close s"
          "c_rooms s1 = prop_del (c_rooms s) k" "length (objects s1) = length (objects s)"
          "\<forall>h. cr_name (obj s1 h) = cr_name (obj s h)" "c_out s1 = c_out s"
        using force_close_unheard [OF Cons.prems(1) h(1), of depth pf code reason] h(2) by blast
      have "rooms_named s1"
        using Cons.prems(2) s1 by (auto simp: rooms_named_def split: if_splits)
      from Cons.IH [OF s1(2) this] show ?thesis
        using Some s1 by (auto simp: andthen_None)
    qed
  qed
  from this [OF assms, of "obj_keys (c_rooms s)"] show ?thesis
    by (auto simp: close_all_def dict_empty_iff)
qed

text \<open>
  a close code the browser rejects (anything but 1000 and 3000 to 4999: WebSocket.close then
  throws) leaves the connection open behind the application's back. The exception is only
  logged: the socket is untouched and stays open, so the server goes on delivering to it, while
  every room is closed and forgotten and the client reports itself closed.
\<close>

theorem rejected_close_leaks:
  assumes "client_steps pf (roomer pf) s" "h < length (objects s)" "cr_name (obj s h) = root"
    and "socket_state s = Some OPEN" "\<not> ws_close_ok pf code reason" "unheard s" "1 < stack pf"
  shows "socket_state (client_turn pf (Use (Close h (JNumber code) (JString reason))) s) = Some OPEN \<and>
    c_rooms (client_turn pf (Use (Close h (JNumber code) (JString reason))) s) = [] \<and>
    getReadyState (client_turn pf (Use (Close h (JNumber code) (JString reason))) s) = jstr ''closed'' \<and>
    c_out (client_turn pf (Use (Close h (JNumber code) (JString reason))) s) = c_out s @ [Log]"
proof -
  define depth where "depth = stack pf - 2"
  then have depth: "stack pf = Suc (Suc depth)" using assms(7) by simp
  let ?s = "(clear_reconnect_timer (s\<lparr>manual_close := True\<rparr>))\<lparr>c_out := c_out s @ [Log]\<rparr>"
  have named: "rooms_named s"
    by (rule registry_of_rooms.steps_kept [OF assms(1)], rule registry_of_rooms.roomer_kept)
      (simp add: rooms_named_def initial_def)
  have "unheard ?s" "rooms_named ?s" using assms(6) named by (simp_all add: unheard_def rooms_named_def)
  from close_all_unheard [OF this, of depth pf "JNumber code" "JString reason"] obtain s' where s':
      "close_all (\<lambda>h type args. run_call (Suc depth) pf (On h (Emit type args))) (JBool False) (JNumber code) (JString reason) ?s = (None, s')"
      "sockets s' = sockets s" "c_socket s' = c_socket s" "manual_close s'" "c_rooms s' = []" "c_out s' = c_out s @ [Log]"
    by auto
  have "close_socket pf code reason (clear_reconnect_timer (s\<lparr>manual_close := True\<rparr>)) = (None, ?s)"
    using assms(4,5) by (simp add: close_socket_def socket_state_def effect_def modify_def split: option.splits if_splits)
  then have "react pf (Use (Close h (JNumber code) (JString reason))) s = (None, s')"
    using assms(2,3) s'(1) by (simp add: depth run_call_Suc perform_call_def close_def Let_def andthen_modify andthen_None)
  moreover have "socket_state s' = socket_state s" using s'(2,3) by (simp add: socket_state_def split: option.split)
  ultimately show ?thesis
    using s' assms(4) by (simp add: client_turn_def getReadyState_def del: react.simps)
qed

theorem rejected_close_leaks_witness:
  "socket_state (client_turn demo (Use (Close 0 (JNumber (Fin 1001)) (JString []))) acked) = Some OPEN \<and>
   c_rooms (client_turn demo (Use (Close 0 (JNumber (Fin 1001)) (JString []))) acked) = []"
proof -
  have "jstr ''close'' \<noteq> newListener" by code_simp
  then have "unheard acked"
    by (auto simp: unheard_def acked_facts obj_def listed_open_root no_room_def)
  moreover have "\<not> ws_close_ok demo (Fin 1001) []" by (simp add: demo_def num_leq_def)
  moreover have "client_steps demo (roomer demo) acked"
    unfolding acked_def opened_def
    by (intro client_steps.later [OF _ client_step.turn] client_steps.none) (simp_all add: roomer_demo)
  ultimately show ?thesis
    using rejected_close_leaks [of demo acked 0 "Fin 1001" "[]"]
    by (simp add: acked_facts opened_facts roomer_demo obj_def open_root_def socket_state_def)
qed

end
