(* ===== verification/Json_Text.thy ===== *)
theory Json_Text
  imports Client_Codec Json_Roundtrip
begin

text \<open>
  The text of \<^verbatim>\<open>JSON.stringify\<close> has no lone surrogates, whatever strings it prints: it survives
  UTF-8. So the member lists of the server reach the client, and JSON payloads the server's
  \<^verbatim>\<open>payloadJSON\<close>.
\<close>

definition plain_unit :: "16 word \<Rightarrow> bool" where
  "plain_unit u \<longleftrightarrow> \<not> is_high u \<and> \<not> is_low u"

lemma well_formed_units: "list_all plain_unit s \<Longrightarrow> well_formed s"
  by (induction s rule: well_formed.induct) (simp_all add: plain_unit_def)

lemma plain_small: "unat u < 55296 \<Longrightarrow> plain_unit u"
  by (simp add: plain_unit_def is_high_def is_low_def)

lemma plain_hex: "n < 16 \<Longrightarrow> plain_unit (hex_digit n)"
proof (rule plain_small)
  assume "n < 16"
  then have "hex_digit n = of_nat (if n < 10 then 48 + n else 87 + n)" by (simp add: hex_digit_def)
  moreover have "m < 55296 \<Longrightarrow> unat (of_nat m :: 16 word) < 55296" for m by simp
  ultimately show "unat (hex_digit n) < 55296" using \<open>n < 16\<close> by simp
qed

lemma plain_unicode: "list_all plain_unit (unicode_escape u)"
proof -
  have "unat u div 4096 < 16" using unat_lt_u16 [of u] by (simp add: less_mult_imp_div_less)
  then show ?thesis by (simp add: unicode_escape_def plain_hex plain_small)
qed

lemma plain_escape: "plain_unit u \<Longrightarrow> list_all plain_unit (escape_unit u)"
  using plain_unicode [of u] by (simp add: escape_unit_def plain_small)

lemma well_formed_escape: "well_formed (escape_string s)"
proof (induction s rule: escape_string.induct)
  case (2 u)
  then show ?case
    using plain_unicode [of u] plain_escape [of u]
    by (auto intro!: well_formed_units simp: plain_unit_def)
next
  case (3 u v us)
  show ?case
  proof (cases "is_high u \<and> is_low v")
    case False
    with 3 have "well_formed (escape_string (v # us))" by simp
    moreover have "well_formed (if is_high u \<or> is_low u then unicode_escape u else escape_unit u)"
      using plain_unicode [of u] plain_escape [of u] by (auto intro!: well_formed_units simp: plain_unit_def)
    ultimately have "well_formed ((if is_high u \<or> is_low u then unicode_escape u else escape_unit u) @ escape_string (v # us))"
      by (rule well_formed_append [rotated])
    then show ?thesis using False by (simp only: escape_string.simps if_not_P [OF False] if_False)
  qed (use 3 in simp)
qed simp

lemma well_formed_quote: "well_formed (quote_json s)"
  unfolding quote_json_def
  by (intro well_formed_append well_formed_escape well_formed_units) (simp_all add: plain_small)

lemma well_formed_join: "(\<And>s. s \<in> set ss \<Longrightarrow> well_formed s) \<Longrightarrow> well_formed (join_comma ss)"
proof (induction ss rule: join_comma.induct)
  case (3 x y zs)
  have "well_formed [44]" by (rule well_formed_units) (simp add: plain_small)
  then have "well_formed ([44] @ join_comma (y # zs))"
    by (rule well_formed_append) (use 3 in simp)
  then have "well_formed (x @ [44] @ join_comma (y # zs))"
    by (rule well_formed_append [rotated]) (use 3 in simp)
  then show ?case by (simp only: join_comma.simps)
qed simp_all

lemma plain_digit: "is_digit u \<Longrightarrow> plain_unit u"
  by (rule plain_small) (simp add: is_digit_def)

lemma plain_digits: "list_all plain_unit (digits n)"
  using digits_all [of n] plain_digit by (auto simp: list_all_iff)

lemma plain_positive: "list_all plain_unit (positive_string x)"
proof -
  obtain ds n where s: "shortest_digits x = (ds, n)" by fastforce
  then have "list_all plain_unit ds"
    using plain_digits unfolding shortest_digits_def
    by (auto simp: Let_def list_all_iff dest: in_set_takeD split: if_splits)
  moreover have "plain_unit 48" "plain_unit 46" "plain_unit 101" "plain_unit 43" "plain_unit 45"
    by (simp_all add: plain_small)
  ultimately show ?thesis
    unfolding positive_string_def s using plain_digits
    by (auto simp: Let_def list_all_iff dest: in_set_takeD in_set_dropD)
qed

lemma plain_number: "list_all plain_unit (number_string n)"
  using plain_positive by (cases n) (auto simp: jstr_def plain_small)

lemma well_formed_json: "well_formed (json_stringify j)"
proof (induction j)
  case (JsNum n)
  then show ?case
    using plain_number [of n] by (cases n) (auto simp: jstr_def is_high_def is_low_def intro!: well_formed_units)
next
  case (JsArr xs)
  then have "well_formed (join_comma (map json_stringify xs))" by (intro well_formed_join) auto
  then have "well_formed ([91] @ join_comma (map json_stringify xs) @ [93])"
    by (intro well_formed_append) (simp_all add: is_high_def is_low_def)
  then show ?case by simp
next
  case (JsObj kvs)
  have colon: "well_formed [58]" by (rule well_formed_units) (simp add: plain_small)
  have "well_formed (json_stringify (snd p))" if "p \<in> set kvs" for p
    using JsObj that by (cases p) (auto simp: snds.simps)
  then have "well_formed (join_comma (map (\<lambda>(k, v). quote_json k @ [58] @ v) (map (map_prod id json_stringify) kvs)))"
    by (intro well_formed_join) (auto intro!: well_formed_append well_formed_quote colon simp del: append.simps)
  then have "well_formed ([123] @ join_comma (map (\<lambda>(k, v). quote_json k @ [58] @ v) (map (map_prod id json_stringify) kvs)) @ [125])"
    by (intro well_formed_append) (simp_all add: is_high_def is_low_def)
  then show ?case by (simp only: json_stringify.simps)
qed (auto simp: jstr_def is_high_def is_low_def well_formed_quote)

lemma plain_member_list: "plain_text (json_stringify (JsArr js))"
  using well_formed_json [of "JsArr js"] by (simp add: plain_text_def)

section \<open>JSON payloads\<close>

text \<open>The values whose payload is their JSON text: a client sends numbers and booleans so, too.\<close>

fun json_value :: "jsval \<Rightarrow> json option" where
  "json_value (JObject j) = Some j"
| "json_value (JNumber (Fin x)) = Some (JsNum (Fin x))"
| "json_value (JBool b) = Some (JsBool b)"
| "json_value _ = None"

lemma client_payload_json: "json_value p = Some j \<Longrightarrow> client_payload p = utf8_encode (json_stringify j)"
  by (cases p rule: json_value.cases) (auto simp: client_payload_def split: bool.split)

lemma text_not_empty: "s \<noteq> [] \<Longrightarrow> well_formed s \<Longrightarrow> utf8_encode s \<noteq> []"
  using utf8_roundtrip [of s] by (auto simp: utf8_decode_def utf8_scalars_def dec.simps)

lemma payloadJSON_text:
  assumes "json_ok j" "msg_payload m = utf8_encode (json_stringify j)"
  shows "payloadJSON m = Inr (nulled j)"
proof -
  have "json_stringify j \<noteq> []"
    using stringify_start [OF assms(1), of "[]"] by (auto simp: starts_value_def)
  then show ?thesis
    using text_not_empty well_formed_json [of j] utf8_roundtrip assms
    by (simp add: payloadJSON_def payloadString_def parse_stringify)
qed

lemma encode_frame:
  assumes "msg_encode m = Inr b"
  shows "\<exists>v f. fields_fit (utf8_encode (msg_room m)) (utf8_encode (msg_event m)) (utf8_encode (msg_dst m))
      (utf8_encode (msg_src m)) (msg_payload m) \<and>
    b = raw_frame v f (utf8_encode (msg_room m)) (utf8_encode (msg_event m)) (utf8_encode (msg_dst m))
      (utf8_encode (msg_src m)) (msg_payload m)"
proof (cases "u8_of_num (msg_version m)"; cases "u8_of_num (msg_flags m)")
  fix v f
  assume "u8_of_num (msg_version m) = Inr v" "u8_of_num (msg_flags m) = Inr f"
  from encode_iff [OF this, of b] assms show ?thesis by blast
qed (use assms in \<open>auto simp: msg_encode_ref encode_ref_def Let_def bindE_def split: if_splits\<close>)

text \<open>
  C11: JSON payloads arrive. Whatever value with a JSON text is sent, by a client (objects,
  arrays, numbers and booleans) or by the server (objects and arrays), to any finite depth that
  the engine's stack allows and whatever strings, doubles and property names it holds: when the frame can be encoded, it is
  accepted, and \<^verbatim>\<open>payloadJSON\<close> returns the value, but for infinities and not-a-number, which have
  become null.
\<close>

theorem json_payload_roundtrip:
  assumes "json_value p = Some j" "json_ok j"
    and "new_message room event dst src p flags = Inr b \<or>
      p = JObject j \<and> msg_encode (create_message room event dst src p version flags) = Inr b"
  shows "\<exists>m. decode_message (JBuffer b) JUndefined = Inr (Some m) \<and> payloadJSON m = Inr (nulled j)"
proof -
  let ?t = "utf8_encode (json_stringify j)"
  obtain v f r e d s where "fields_fit r e d s ?t" "b = raw_frame v f r e d s ?t"
    using assms(3)
  proof
    assume "new_message room event dst src p flags = Inr b"
    then show thesis
      unfolding new_message_iff client_payload_json [OF assms(1)] using that by blast
  next
    assume m: "p = JObject j \<and> msg_encode (create_message room event dst src p version flags) = Inr b"
    then have "msg_payload (create_message room event dst src p version flags) = ?t"
      by (simp add: create_message_def payload_bytes_def)
    with encode_frame [OF conjunct2 [OF m]] show thesis using that by auto
  qed
  then show ?thesis
    using decode_raw payloadJSON_text [OF assms(2)] by simp
qed

theorem json_payload_roundtrip_witness:
  "\<exists>b m. new_message (JString []) (JString (jstr ''e'')) (JString []) (JString [])
      (JObject (JsObj [(jstr ''k'', JsArr [JsNum (Fin 0), JsNum NaN, JsStr [55296]])])) JUndefined = Inr b \<and>
    decode_message (JBuffer b) JUndefined = Inr (Some m) \<and>
    payloadJSON m = Inr (JsObj [(jstr ''k'', JsArr [JsNum (Fin 0), JsNull, JsStr [55296]])])"
proof -
  let ?j = "JsObj [(jstr ''k'', JsArr [JsNum (Fin 0), JsNum NaN, JsStr [55296]])]"
  have ok: "json_ok ?j"
    by (simp add: finite_num_def is_double_def obj_keys_def array_index_def jstr_def is_digit_def)
  have "length (client_payload (JObject ?j)) = 23" 
    by (simp add: client_payload_def quote_json_def escape_unit_def unicode_escape_def utf8_encode_def jstr_def
        is_high_def is_low_def hex_digit_def enc_scalar_def)
  then obtain b where b: "new_message (JString []) (JString (jstr ''e'')) (JString []) (JString []) (JObject ?j) JUndefined = Inr b"
    unfolding new_message_iff 
    by (simp add: fields_fit_def valid_int_def flags_value_def utf8_encode_def jstr_def is_high_def is_low_def
        enc_scalar_def num_leq_def)
  from json_payload_roundtrip [OF _ ok disjI1 [OF b]] b show ?thesis by simp
qed

end
