(* ===== verification/Server_To_Client.thy ===== *)
theory Server_To_Client
  imports Client_Rooms Json_Text Requests
begin

text \<open>
  From the server to the client: what the client makes of the server's membership messages, and
  of one that only claims to be from the server.
\<close>

section \<open>The frames of the server on the client\<close>

definition server_packet :: "js_string \<Rightarrow> js_string \<Rightarrow> js_string \<Rightarrow> js_string \<Rightarrow> js_string \<Rightarrow> packet" where
  "server_packet room event dst src payload =
     \<lparr>p_dst = dst, p_event = event, p_flags = size_of 0, p_payload = utf8_encode payload,
      p_room = room, p_src = src, p_version = size_of 1\<rparr>"

lemma server_frame:
  assumes "msg_encode (create_message (JString room) (JString event) (JString dst) (JString src) (JString payload)
      JUndefined JUndefined) = Inr b"
    and "plain_text room" "plain_text event" "plain_text dst" "plain_text src"
  shows "parse_frame (JArrayBuffer b) = Inr (Some (server_packet room event dst src payload))"
proof -
  let ?m = "create_message (JString room) (JString event) (JString dst) (JString src) (JString payload) JUndefined JUndefined"
  have v: "u8_of_num (msg_version ?m) = Inr 1" and f: "u8_of_num (msg_flags ?m) = Inr 0"
    by (simp_all add: create_message_def PROTOCOL_VERSION_def DEFAULT_FLAGS_def u8_of_num_def)
  have fields: "msg_room ?m = room" "msg_event ?m = event" "msg_dst ?m = dst" "msg_src ?m = src"
      "msg_payload ?m = utf8_encode payload"
    by (simp_all add: create_message_def payload_bytes_def)
  have fit: "fields_fit (utf8_encode room) (utf8_encode event) (utf8_encode dst) (utf8_encode src) (utf8_encode payload)"
    and b: "b = raw_frame 1 0 (utf8_encode room) (utf8_encode event) (utf8_encode dst) (utf8_encode src) (utf8_encode payload)"
    using assms(1) unfolding encode_iff [OF v f] fields by simp_all
  have "parse_frame (JArrayBuffer b) = Inr (Some (frame_packet 1 0 (utf8_encode room) (utf8_encode event)
      (utf8_encode dst) (utf8_encode src) (utf8_encode payload)))"
    by (rule parse_of_frame [OF fit, where rest = "[]"]) (use b fields_small [OF fit] in simp_all)
  then show ?thesis using assms(2-5) by (simp add: frame_packet_def server_packet_def text_roundtrip)
qed

lemma plain_names: "plain_text (jstr ''join_ack'')" "plain_text (jstr ''new_member'')" "plain_text (jstr ''member_left'')"
    "plain_text (jstr ''leave_ack'')" "plain_text []"
  by (simp_all add: plain_text_def) (simp_all add: jstr_def)

section \<open>Members\<close>

lemma upd_obj_twice: "h < length (objects s) \<Longrightarrow> upd_obj h f (upd_obj h g s) = upd_obj h (\<lambda>r. f (g r)) s"
  by (simp add: upd_obj_def obj_def)

lemma received:
  assumes "parse_frame data = Inr (Some packet)" "prop_get (c_rooms s) (p_room packet) = Some h"
    and "h < length (objects s)" "stack pf = Suc depth"
  shows "Client.on_message pf data s =
    try_log (parse (\<lambda>h type args. run_call depth pf (On h (Emit type args))) h packet) s"
  using assms by (simp add: Client.on_message_def try_log_def run_call_Suc perform_call_def Let_def)

lemma try_log_cong: "a s = b t \<Longrightarrow> try_log a s = try_log b t"
  by (simp add: try_log_def)

lemma parse_ids: "parse_json (json_stringify (JsArr (map JsStr ids))) = Some (JsArr (map JsStr ids))"
proof -
  have "json_ok (JsArr (map JsStr ids))" by (simp add: list_all_iff)
  from parse_stringify [OF this] show ?thesis by (simp add: comp_def)
qed

lemma join_ack_received:
  assumes "prop_get (c_rooms s) room = Some h" "h < length (objects s)" "stack pf = Suc depth"
    and "plain_text room" "plain_text cid" "msg_encode (join_ack_msg room cid ids) = Inr b"
  shows "Client.on_message pf (JArrayBuffer b) s = try_log (run_call depth pf (On h (Emit (str ''open'') [])))
    (upd_obj h (\<lambda>r. r\<lparr>cr_member_id := cid, cr_members := map JsStr ids, cr_is_open := True\<rparr>) s)"
proof -
  let ?p = "server_packet room (jstr ''join_ack'') [] cid (json_stringify (JsArr (map JsStr ids)))"
  have p: "parse_frame (JArrayBuffer b) = Inr (Some ?p)"
    using assms(4-6) unfolding join_ack_msg_def by (intro server_frame plain_names)
  have decoded: "text_decode (utf8_encode (json_stringify (JsArr (map JsStr ids)))) = json_stringify (JsArr (map JsStr ids))"
    by (rule text_roundtrip) (rule plain_member_list)
  have "parse emit h ?p s = emit h (str ''open'') []
      (upd_obj h (\<lambda>r. r\<lparr>cr_member_id := cid, cr_members := map JsStr ids, cr_is_open := True\<rparr>) s)" for emit
    using assms(2) decoded parse_ids [of ids]
    by (simp add: parse_def server_packet_def Let_def andthen_modify set_members_def upd_obj_twice comp_def del: json_stringify.simps)
  with p show ?thesis
    using assms(1-3) by (subst received [OF p, where h = h]) (auto simp: server_packet_def intro!: try_log_cong)
qed

lemma new_member_received:
  assumes "prop_get (c_rooms s) room = Some h" "h < length (objects s)" "stack pf = Suc depth"
    and "plain_text room" "plain_text cid" "msg_encode (new_member_msg room cid) = Inr b"
  shows "Client.on_message pf (JArrayBuffer b) s =
    (if JsStr cid \<in> set (cr_members (obj s h)) then (None, s)
     else try_log (run_call depth pf (On h (Emit (str ''new_member'') [Val (JString cid)])))
       (upd_obj h (cr_members_update (\<lambda>ms. ms @ [JsStr cid])) s))"
proof -
  let ?p = "server_packet room (jstr ''new_member'') [] [] cid"
  have p: "parse_frame (JArrayBuffer b) = Inr (Some ?p)"
    using assms(4,6) unfolding new_member_msg_def by (intro server_frame plain_names)
  have "parse emit h ?p s =
      (if JsStr cid \<in> set (cr_members (obj s h)) then (None, s)
       else emit h (str ''new_member'') [Val (JString cid)] (upd_obj h (cr_members_update (\<lambda>ms. ms @ [JsStr cid])) s))" for emit
    using text_roundtrip [OF assms(5)]
    by (simp add: parse_def server_packet_def Let_def andthen_modify set_members_def skip_def)
  with p show ?thesis
    using assms(1-3) by (subst received [OF p, where h = h]) (auto simp: server_packet_def try_log_def)
qed

lemma member_left_received:
  assumes "prop_get (c_rooms s) room = Some h" "h < length (objects s)" "stack pf = Suc depth"
    and "plain_text room" "plain_text cid" "msg_encode (left_msg room cid) = Inr b"
  shows "Client.on_message pf (JArrayBuffer b) s =
    (if JsStr cid \<in> set (cr_members (obj s h))
     then try_log (run_call depth pf (On h (Emit (str ''member_left'') [Val (JString cid)])))
       (upd_obj h (cr_members_update (remove1 (JsStr cid))) s)
     else (None, s))"
proof -
  let ?p = "server_packet room (jstr ''member_left'') [] [] cid"
  have p: "parse_frame (JArrayBuffer b) = Inr (Some ?p)"
    using assms(4,6) unfolding left_msg_def by (intro server_frame plain_names)
  have "parse emit h ?p s =
      (if JsStr cid \<in> set (cr_members (obj s h))
       then emit h (str ''member_left'') [Val (JString cid)] (upd_obj h (cr_members_update (remove1 (JsStr cid))) s)
       else (None, s))" for emit
    using text_roundtrip [OF assms(5)]
    by (simp add: parse_def server_packet_def Let_def andthen_modify set_members_def skip_def)
  with p show ?thesis
    using assms(1-3) by (subst received [OF p, where h = h]) (auto simp: server_packet_def try_log_def)
qed

text \<open>
  C14: the client's view of a room follows the server's. The server's acknowledgement of a join
  makes the room open, with the id and exactly the members it lists; its \<^verbatim>\<open>new_member\<close> adds the
  id, unless it is there already, and its \<^verbatim>\<open>member_left\<close> removes it. Each frame is encoded as
  the server encodes it, the listeners run after the change, and nothing else of the client
  changes.
\<close>

theorem client_follows_server:
  assumes "prop_get (c_rooms s) room = Some h" "h < length (objects s)" "stack pf = Suc depth"
    and "plain_text room" "plain_text cid"
    and "msg_encode (join_ack_msg room cid ids) = Inr ack" "msg_encode (new_member_msg room cid) = Inr new"
    and "msg_encode (left_msg room cid) = Inr left"
  shows "Client.on_message pf (JArrayBuffer ack) s = try_log (run_call depth pf (On h (Emit (str ''open'') [])))
      (upd_obj h (\<lambda>r. r\<lparr>cr_member_id := cid, cr_members := map JsStr ids, cr_is_open := True\<rparr>) s) \<and>
    Client.on_message pf (JArrayBuffer new) s =
      (if JsStr cid \<in> set (cr_members (obj s h)) then (None, s)
       else try_log (run_call depth pf (On h (Emit (str ''new_member'') [Val (JString cid)])))
         (upd_obj h (cr_members_update (\<lambda>ms. ms @ [JsStr cid])) s)) \<and>
    Client.on_message pf (JArrayBuffer left) s =
      (if JsStr cid \<in> set (cr_members (obj s h))
       then try_log (run_call depth pf (On h (Emit (str ''member_left'') [Val (JString cid)])))
         (upd_obj h (cr_members_update (remove1 (JsStr cid))) s)
       else (None, s))"
  using join_ack_received [OF assms(1-6)] new_member_received [OF assms(1-5,7)]
    member_left_received [OF assms(1-5,8)] by simp

lemma server_encodes:
  assumes "fields_fit (utf8_encode room) (utf8_encode event) (utf8_encode dst) (utf8_encode src) (utf8_encode payload)"
  shows "\<exists>b. msg_encode (create_message (JString room) (JString event) (JString dst) (JString src) (JString payload)
    JUndefined JUndefined) = Inr b"
proof -
  let ?m = "create_message (JString room) (JString event) (JString dst) (JString src) (JString payload) JUndefined JUndefined"
  have v: "u8_of_num (msg_version ?m) = Inr 1" and f: "u8_of_num (msg_flags ?m) = Inr 0"
    by (simp_all add: create_message_def PROTOCOL_VERSION_def DEFAULT_FLAGS_def u8_of_num_def)
  have "msg_room ?m = room" "msg_event ?m = event" "msg_dst ?m = dst" "msg_src ?m = src" "msg_payload ?m = utf8_encode payload"
    by (simp_all add: create_message_def payload_bytes_def)
  with assms show ?thesis unfolding encode_iff [OF v f] by simp
qed

lemma root_msgs_encode:
  "\<exists>b. msg_encode (join_ack_msg root (jstr ''A'') [jstr ''A'']) = Inr b"
  "\<exists>b. msg_encode (new_member_msg root (jstr ''A'')) = Inr b"
  "\<exists>b. msg_encode (left_msg root (jstr ''A'')) = Inr b"
  unfolding join_ack_msg_def new_member_msg_def left_msg_def
  by (rule server_encodes, simp add: fields_fit_def root_def jstr_def utf8_encode_def is_high_def is_low_def
      enc_scalar_def quote_json_def escape_unit_def)+

theorem client_follows_server_witness:
  "\<exists>ack. msg_encode (join_ack_msg root (jstr ''A'') [jstr ''A'']) = Inr ack \<and>
    Client.on_message demo (JArrayBuffer ack) acked = try_log (run_call 4 demo (On 0 (Emit (str ''open'') [])))
      (upd_obj 0 (\<lambda>r. r\<lparr>cr_member_id := jstr ''A'', cr_members := [JsStr (jstr ''A'')], cr_is_open := True\<rparr>) acked)"
proof -
  obtain ack new left where m: "msg_encode (join_ack_msg root (jstr ''A'') [jstr ''A'']) = Inr ack"
      "msg_encode (new_member_msg root (jstr ''A'')) = Inr new" "msg_encode (left_msg root (jstr ''A'')) = Inr left"
    using root_msgs_encode by blast
  have plain: "plain_text root" "plain_text (jstr ''A'')"
    by (simp_all add: plain_text_def root_def) (simp_all add: jstr_def)
  have acked: "prop_get (c_rooms acked) root = Some 0" "0 < length (objects acked)" "stack demo = Suc 4"
    by (simp_all add: acked_facts opened_facts roomer_demo prop_get_def)
  from conjunct1 [OF client_follows_server [OF acked plain m]] m(1) show ?thesis by auto
qed

section \<open>An event in disguise\<close>

text \<open>
  An event that begins with a byte order mark is not reserved, so that \<open>send\<close> takes it, and is
  another event to the server; the receiving client's decoder cuts the mark off.
\<close>

lemma marked_event_unmasked:
  assumes "new_message (JString room) (JString (65279 # e)) (JString dst) (JString src) payload flags = Inr b"
    and "well_formed e"
  shows "65279 # e \<notin> set reserved_events \<and> (\<exists>p. parse_frame (JArrayBuffer b) = Inr (Some p) \<and> p_event p = e)"
proof -
  obtain f where fit: "fields_fit (utf8_encode room) (utf8_encode (65279 # e)) (utf8_encode dst) (utf8_encode src) (client_payload payload)"
    and b: "b = raw_frame 1 f (utf8_encode room) (utf8_encode (65279 # e)) (utf8_encode dst) (utf8_encode src) (client_payload payload)"
    by (rule client_frame [OF assms(1)])
  have "parse_frame (JArrayBuffer b) = Inr (Some
      (frame_packet 1 f (utf8_encode room) (utf8_encode (65279 # e)) (utf8_encode dst) (utf8_encode src) (client_payload payload)))"
    by (rule parse_of_frame [OF fit, where rest = "[]"]) (use b fields_small [OF fit] in simp_all)
  moreover have "text_decode (utf8_encode (65279 # e)) = e"
    using assms(2) by (simp add: text_decode_encode text_back_def to_well_formed_id)
  moreover have "65279 # e \<notin> set reserved_events" by (auto simp: reserved_events_def jstr_def)
  ultimately show ?thesis by (simp add: frame_packet_def)
qed

section \<open>A forged acknowledgement\<close>

interpretation named: client_kept "\<lambda>s. h < length (objects s) \<and> cr_name (obj s h) = n" for h n
proof
  fix s m
  assume "h < length (objects s) \<and> cr_name (obj s h) = n"
  then show "h < length (objects (s\<lparr>objects := objects s @ [new_room (length (objects s)) m],
      c_rooms := prop_set (c_rooms s) m (length (objects s))\<rparr>)) \<and>
    cr_name (obj (s\<lparr>objects := objects s @ [new_room (length (objects s)) m],
      c_rooms := prop_set (c_rooms s) m (length (objects s))\<rparr>) h) = n"
    by (auto simp: obj_def nth_append)
qed auto

lemma leave_ack_forgets:
  assumes "p_event packet = jstr ''leave_ack''" "h < length (objects s)" "cr_name (obj s h) = n"
    and "call h (str ''close'') [Val (JNumber (Fin 1000)), Val (str ''Left room'')] s = (None, s1)"
    and "keeps (\<lambda>s. h < length (objects s) \<and> cr_name (obj s h) = n) (call h (str ''close'') [Val (JNumber (Fin 1000)), Val (str ''Left room'')])"
  shows "\<exists>s'. parse call h packet s = (None, s') \<and> prop_get (c_rooms s') n = None \<and>
    \<not> cr_is_open (obj s' h) \<and> cr_members (obj s' h) = [] \<and> cr_member_id (obj s' h) = []"
proof -
  have "h < length (objects s1) \<and> cr_name (obj s1 h) = n"
    using keepsD [OF assms(5), of s] assms(2-4) by simp
  then show ?thesis
    using assms(1,4) by (simp add: parse_def Let_def andthen_None andthen_modify modify_apply)
qed

text \<open>
  C37: any client can end another one's stay in a room, in that one's own eyes. A frame with the
  event \<^verbatim>\<open>leave_ack\<close>, the room's name and the victim's id is forwarded by the server as it is
  (the sender is checked neither for its room nor for its id), and the victim's client takes it
  for the server's: it closes and forgets the room. On the server nothing has changed; the
  victim is still a member of the room.
\<close>

theorem forged_leave_ack:
  assumes "frame = raw_frame v f (utf8_encode room) (utf8_encode (jstr ''leave_ack'')) (utf8_encode victim) src payload"
    and "fields_fit (utf8_encode room) (utf8_encode (jstr ''leave_ack'')) (utf8_encode victim) src payload"
    and "v \<noteq> 0" "plain_text room" "plain_text victim" "valid_utf8 src" "victim \<noteq> []"
    and "prop_has (conns node) victim" "sendable (conn_of node victim)" "\<not> slow (conn_of node victim)"
    and "\<not> num_less (max_payload cfg) (js_nat (length frame))"
    and "prop_get (c_rooms s) room = Some h" "rooms_named s" "stack pf = Suc depth"
    and "fst (run_call depth pf (On h (Emit (str ''close'') [Val (JNumber (Fin 1000)), Val (str ''Left room'')])) s) = None"
  shows "WsSend victim frame \<in> set (out (turn env cfg (Data attacker (Whole frame)) node)) \<and>
    rooms (turn env cfg (Data attacker (Whole frame)) node) = rooms node \<and>
    prop_get (c_rooms (snd (Client.on_message pf (JArrayBuffer frame) s))) room = None \<and>
    \<not> cr_is_open (obj (snd (Client.on_message pf (JArrayBuffer frame) s)) h) \<and>
    cr_members (obj (snd (Client.on_message pf (JArrayBuffer frame) s)) h) = []"
proof -
  have utf8: "utf8_decode (utf8_encode x) = x \<and> valid_utf8 (utf8_encode x)" if "plain_text x" for x
    using that by (simp add: plain_text_def utf8_roundtrip valid_utf8_def)
  have calm: "\<not> evicts (conn_of node victim)" using assms(10) by (simp add: evicts_def)
  have forwarded: "turn env cfg (Data attacker (Whole frame)) node =
      sent_state env frame victim (node\<lparr>out := out node @ [Metric (OnMessageReceived (length frame))]\<rparr>)"
    by (rule direct_forwarded [OF assms(1,2,3)])
      (use assms utf8 plain_names calm in \<open>simp_all\<close>)
  have h: "h < length (objects s)" "cr_name (obj s h) = room" using assms(12,13) by (auto simp: rooms_named_def)
  let ?p = "frame_packet v f (utf8_encode room) (utf8_encode (jstr ''leave_ack'')) (utf8_encode victim) src payload"
  have p: "parse_frame (JArrayBuffer frame) = Inr (Some ?p)"
    by (rule parse_of_frame [OF assms(2), where rest = "[]"]) (use assms(1) fields_small [OF assms(2)] in simp_all)
  have names: "p_room ?p = room" "p_event ?p = jstr ''leave_ack''"
    using assms(4) plain_names by (simp_all add: frame_packet_def text_roundtrip)
  let ?emit = "\<lambda>h type args. run_call depth pf (On h (Emit type args))"
  obtain s1 where "?emit h (str ''close'') [Val (JNumber (Fin 1000)), Val (str ''Left room'')] s = (None, s1)"
    using assms(15) by (metis prod.collapse)
  then obtain s' where s': "parse ?emit h ?p s = (None, s')" "prop_get (c_rooms s') room = None"
      "\<not> cr_is_open (obj s' h)" "cr_members (obj s' h) = []"
    using leave_ack_forgets [OF names(2) h, of ?emit s1] named.run_call_kept by blast
  have "Client.on_message pf (JArrayBuffer frame) s = (None, s')"
    using received [OF p _ h(1) assms(14)] names(1) assms(12) s'(1) by (simp add: try_log_def)
  then show ?thesis
    using s' forwarded assms(9,10) by (simp add: delivery_def)
qed

theorem forged_leave_ack_witness:
  "\<exists>frame. prop_get (c_rooms (snd (Client.on_message demo (JArrayBuffer frame) acked))) root = None \<and>
    WsSend (jstr ''A'') frame \<in> set (out (turn demo_env demo_cfg (Data (jstr ''B'') (Whole frame)) demo_node)) \<and>
    rooms (turn demo_env demo_cfg (Data (jstr ''B'') (Whole frame)) demo_node) = rooms demo_node"
proof -
  let ?frame = "raw_frame 1 0 (utf8_encode root) (utf8_encode (jstr ''leave_ack'')) (utf8_encode (jstr ''A'')) [] []"
  have plain: "plain_text root" "plain_text (jstr ''A'')"
    by (simp_all add: plain_text_def root_def) (simp_all add: jstr_def)
  have fit: "fields_fit (utf8_encode root) (utf8_encode (jstr ''leave_ack'')) (utf8_encode (jstr ''A'')) [] []"
    by (simp add: fields_fit_def root_def jstr_def utf8_encode_def is_high_def is_low_def enc_scalar_def)
  have "valid_utf8 []" by (simp add: valid_utf8_def utf8_decode_def utf8_scalars_def dec.simps utf8_encode_def)
  moreover have "\<not> num_less (max_payload demo_cfg) (js_nat (length ?frame))"
    by (simp add: demo_cfg_def server_config_def length_raw_frame root_def jstr_def utf8_encode_def is_high_def
        is_low_def enc_scalar_def HEADER_OVERHEAD_def)
  moreover have "prop_get (c_rooms acked) root = Some 0" "rooms_named acked" "stack demo = Suc 4"
    by (simp_all add: acked_facts opened_facts roomer_demo prop_get_def rooms_named_def wf_dict_def obj_def open_root_def)
  moreover have "jstr ''close'' \<noteq> newListener" by code_simp
  then have "fst (run_call 4 demo (On 0 (Emit (str ''close'') [Val (JNumber (Fin 1000)), Val (str ''Left room'')])) acked) = None"
    by (subst emit_unheard_4(1)) (simp_all add: acked_facts obj_def listed_open_root opened_facts)
  moreover have "prop_has (conns demo_node) (jstr ''A'')" "sendable (conn_of demo_node (jstr ''A''))"
      "\<not> slow (conn_of demo_node (jstr ''A''))"
    using demo_sendable by (simp_all add: demo_node_facts)
  moreover have "(1 :: byte) \<noteq> 0" "jstr ''A'' \<noteq> []" by simp_all
  ultimately show ?thesis
    using forged_leave_ack [OF _ fit _ plain, where ?v = 1 and ?f = 0 and ?frame = ?frame and ?node = demo_node
        and ?cfg = demo_cfg and ?s = acked and ?h = 0 and ?pf = demo and ?depth = 4 and ?env = demo_env
        and ?attacker = "jstr ''B''"]
    by (intro exI [of _ ?frame]) simp
qed

end
