(* ===== verification/End_To_End.thy ===== *)
theory End_To_End
  imports Server_To_Client
begin

text \<open>
  A message on its whole way: from the \<^verbatim>\<open>send\<close> of one client's room, through the server's turn, to
  the listeners of the room on the clients it is for.
\<close>

section \<open>The sending client\<close>

lemma new_message_dst: "new_message room event dst src payload flags = new_message room event (JString (string_or dst [])) src payload flags"
  by (simp add: new_message_def)

lemma sent_by:
  assumes "h < length (objects a)" "cr_is_open (obj a h)" "event \<notin> set reserved_events"
    and "socket_state a = Some OPEN" "c_socket a = Some i" "stack pf = Suc depth"
    and "new_message (JString (cr_name (obj a h))) (JString event) dst (JString (cr_member_id (obj a h))) payload JUndefined = Inr b"
  shows "client_turn pf (Use (Send h (JString event) payload dst)) a = a\<lparr>c_out := c_out a @ [Sent i b]\<rparr>"
  using assms by (simp add: client_turn_def run_call_Suc perform_call_def Let_def send_def send_frame_def effect_def modify_def)

section \<open>The server\<close>

text \<open>Whom a message is for: the destination, or the other members of the room.\<close>

definition addressees :: "node \<Rightarrow> js_string \<Rightarrow> js_string \<Rightarrow> js_string \<Rightarrow> js_string list" where
  "addressees s cid room dst = (if dst = [] then recipients s (Some cid) room else [dst])"

lemma relayed:
  assumes "reachable env cfg s"
    and "decode_message (JBuffer b) (JNumber (max_payload cfg)) = Inr (Some m)" "msg_encode m = Inr b"
    and "msg_event m \<notin> {jstr ''join'', jstr ''leave''}" "\<not> num_less (max_payload cfg) (js_nat (length b))"
    and "if msg_dst m = [] then prop_get (handlers s) (msg_event m) = None else prop_has (conns s) (msg_dst m)"
    and "\<forall>x \<in> set (addressees s cid (msg_room m) (msg_dst m)). \<not> evicts (conn_of s x)"
  shows "out (turn env cfg (Data cid (Whole b)) s) = out s @ [Metric (OnMessageReceived (length b))]
      @ concat (map (\<lambda>x. delivery (conn_of s x) x b) (addressees s cid (msg_room m) (msg_dst m)))
      @ (if msg_dst m = [] then [Call (PublishRaw (msg_room m) b)] else []) \<and>
    rooms (turn env cfg (Data cid (Whole b)) s) = rooms s"
proof -
  let ?s = "s\<lparr>out := out s @ [Metric (OnMessageReceived (length b))]\<rparr>"
  have same: "recipients ?s (Some cid) room = recipients s (Some cid) room" "conn_of ?s x = conn_of s x" for room x
    by (simp_all add: recipients_def)
  have "rooms_ok s"
    using membership.reachable_invariant [OF assms(1)] by (simp add: membership_def)
  then have ok: "rooms_ok ?s" and distinct: "distinct (recipients s (Some cid) room)" for room
    by (simp_all add: recipients_def distinct_obj_keys rooms_ok_wf rooms_ok_other)
  have "\<exists>s'. dispatch env cid m ?s = (None, s') \<and> rooms s' = rooms s \<and>
    out s' = out ?s @ concat (map (\<lambda>x. delivery (conn_of s x) x b) (addressees s cid (msg_room m) (msg_dst m)))
      @ (if msg_dst m = [] then [Call (PublishRaw (msg_room m) b)] else [])"
  proof (cases "msg_dst m = []")
    case True
    have calm: "\<forall>x \<in> set (recipients ?s (Some cid) (msg_room m)). \<not> evicts (conn_of ?s x)"
      using assms(7) True unfolding same by (simp add: addressees_def)
    from True assms(4,6) have "dispatch env cid m ?s = broadcast_room env (Some cid) m ?s"
      by (simp add: dispatch_def dispatch_other_def)
    then show ?thesis
      using broadcast_calm [OF ok calm assms(3), of env] True distinct
      by (simp add: Let_def out_fold_sent same addressees_def)
  next
    case False
    then show ?thesis
      using assms(3,4,6,7) by (simp add: dispatch_def dispatch_other_def send_message_def try_send_calm addressees_def)
  qed
  then show ?thesis
    using assms(2,5) by (auto simp: turn_def on_message_def Let_def andthen_None [OF metric_apply] swallow_def try_ignore_def)
qed

section \<open>The listeners\<close>

text \<open>A function of the application that only looks.\<close>

definition observer :: "platform \<Rightarrow> arg list \<Rightarrow> nat \<Rightarrow> bool" where
  "observer pf args f \<longleftrightarrow> even f \<and> app_function pf f args = ([], None)"

lemma observers_called:
  "list_all (observer pf args) fs \<Longrightarrow>
     for_each (\<lambda>fn. invoke (room_lens k) notify (call_function run pf) fn args) (map Fn fs) t
       = (None, t\<lparr>c_out := c_out t @ map (\<lambda>f. Called f args) fs\<rparr>)"
proof (induction fs arbitrary: t)
  case (Cons f fs)
  have "invoke (room_lens k) notify (call_function run pf) (Fn f) args t = (None, t\<lparr>c_out := c_out t @ [Called f args]\<rparr>)"
    using Cons.prems by (simp add: invoke_def call_function_def observer_def effect_def andthen_modify skip_def modify_apply)
  then show ?case using Cons by (simp add: andthen_None)
qed simp

lemma heard:
  assumes "k < length (objects t)" "listed (cr_em (obj t k)) event = map Fn fs" "list_all (observer pf args) fs"
  shows "run_call (Suc d) pf (On k (Emit (JString event) args)) t =
    (None, t\<lparr>c_out := c_out t @ map (\<lambda>f. Called f args) fs\<rparr>)"
  using assms observers_called
  by (simp add: run_call_Suc perform_call_def Let_def room_emitter_op_def emit_with_def room_lens_def)

section \<open>All the way\<close>

text \<open>
  C2: a message arrives where it should, as it was sent. The application of one client sends
  any event that is not reserved and any payload in an open room; the socket gets one frame.
  The server writes this very frame, once, to every addressee with an open socket that is not
  too slow - the destination if there is one, otherwise the other members of the room - and to
  nobody else, and publishes a broadcast to the other nodes. A client that receives it and
  holds the room emits the event there with the payload's bytes and the sender's id, whatever
  its listeners do; listeners that only look are each called once, in the order in which they
  were registered.
\<close>

theorem message_arrives:
  assumes sender: "h < length (objects a)" "cr_is_open (obj a h)" "event \<notin> set reserved_events"
      "socket_state a = Some OPEN" "c_socket a = Some i" "stack pfa = Suc deptha"
      "cr_name (obj a h) = room" "cr_member_id (obj a h) = me" "string_or dst [] = to"
      "new_message (JString room) (JString event) dst (JString me) payload JUndefined = Inr b"
    and names: "plain_text room" "plain_text event" "plain_text to" "plain_text me"
    and server: "reachable env cfg s" "\<not> num_less (max_payload cfg) (js_nat (length b))"
      "if to = [] then prop_get (handlers s) event = None else prop_has (conns s) to"
      "\<forall>x \<in> set (addressees s cid room to). \<not> evicts (conn_of s x)"
    and receiver: "prop_get (c_rooms t) room = Some k" "k < length (objects t)" "stack pfb = Suc (Suc depthb)"
    and args: "args = [Val (JUint8Array (client_payload payload)), Val (JString me)]"
  shows "client_turn pfa (Use (Send h (JString event) payload dst)) a = a\<lparr>c_out := c_out a @ [Sent i b]\<rparr> \<and>
    out (turn env cfg (Data cid (Whole b)) s) = out s @ [Metric (OnMessageReceived (length b))]
      @ concat (map (\<lambda>x. delivery (conn_of s x) x b) (addressees s cid room to))
      @ (if to = [] then [Call (PublishRaw room b)] else []) \<and>
    rooms (turn env cfg (Data cid (Whole b)) s) = rooms s \<and>
    Client.on_message pfb (JArrayBuffer b) t = try_log (run_call (Suc depthb) pfb (On k (Emit (JString event) args))) t \<and>
    (\<forall>fs. listed (cr_em (obj t k)) event = map Fn fs \<and> list_all (observer pfb args) fs \<longrightarrow>
      Client.on_message pfb (JArrayBuffer b) t = (None, t\<lparr>c_out := c_out t @ map (\<lambda>f. Called f args) fs\<rparr>))"
proof -
  have small: "\<not> exceeds_max (length b) (JNumber (max_payload cfg))"
    using server(2) by (simp add: exceeds_max_def)
  have "new_message (JString room) (JString event) (JString to) (JString me) payload JUndefined = Inr b"
    using sender(9,10) new_message_dst [of "JString room" "JString event" dst] by simp
  note frame = this names
  from client_frame_decoded [OF frame small] obtain m where m:
      "decode_message (JBuffer b) (JNumber (max_payload cfg)) = Inr (Some m)" "msg_room m = room" "msg_event m = event"
      "msg_dst m = to" "msg_encode m = Inr b"
    by blast
  have free: "event \<notin> set (map jstr [''join_ack'', ''new_member'', ''leave_ack'', ''member_left'', ''join'', ''leave''])"
    using sender(3) by (simp add: reserved_events_def)
  have on_message: "Client.on_message pfb (JArrayBuffer b) t =
      try_log (run_call (Suc depthb) pfb (On k (Emit (JString event) args))) t"
    using received [OF client_frame_parsed [OF frame] _ receiver(2,3)] receiver(1) free by (simp add: parse_def Let_def args)
  moreover have "Client.on_message pfb (JArrayBuffer b) t = (None, t\<lparr>c_out := c_out t @ map (\<lambda>f. Called f args) fs\<rparr>)"
    if "listed (cr_em (obj t k)) event = map Fn fs" "list_all (observer pfb args) fs" for fs
    unfolding on_message try_log_def heard [OF receiver(2) that] by simp
  moreover have "client_turn pfa (Use (Send h (JString event) payload dst)) a = a\<lparr>c_out := c_out a @ [Sent i b]\<rparr>"
    using sent_by [OF sender(1-6)] sender(7,8,10) by simp
  ultimately show ?thesis
    using relayed [OF server(1) m(1,5), of cid] free server m(2-4) by simp
qed

definition listening :: client where
  "listening = acked\<lparr>objects := [open_root\<lparr>cr_em := add_to (jstr ''move'') (Fn 2) (cr_em open_root)\<rparr>]\<rparr>"

theorem message_arrives_witness:
  "\<exists>b. c_out (client_turn demo (Use (Send 0 (str ''move'') (JUint8Array [7]) JUndefined)) acked) = c_out acked @ [Sent 0 b] \<and>
    out (turn demo_env demo_cfg (Data (jstr ''B'') (Whole b)) demo_node) = out demo_node @
      [Metric (OnMessageReceived (length b)), WsSend (jstr ''A'') b, Metric (OnMessageSent (length b)),
       Call (PublishRaw root b)] \<and>
    Client.on_message demo (JArrayBuffer b) listening =
      (None, listening\<lparr>c_out := c_out listening @ [Called 2 [Val (JUint8Array [7]), Val (str ''A'')]]\<rparr>)"
proof -
  have plain: "plain_text root" "plain_text (jstr ''move'')" "plain_text []" "plain_text (jstr ''A'')"
    by (simp_all add: plain_text_def root_def) (simp_all add: jstr_def)
  have fit: "fields_fit (utf8_encode root) (utf8_encode (jstr ''move'')) (utf8_encode []) (utf8_encode (jstr ''A'')) [7]"
    by (simp add: fields_fit_def root_def jstr_def utf8_encode_def is_high_def is_low_def enc_scalar_def)
  have "valid_int 0 255 (flags_value JUndefined)" by (simp add: flags_value_def valid_int_def num_leq_def)
  then obtain b where b0: "new_message (JString root) (str ''move'') (JString []) (str ''A'') (JUint8Array [7]) JUndefined = Inr b"
    using fit by (simp add: new_message_iff client_payload_def)
  then have b: "new_message (JString root) (str ''move'') JUndefined (str ''A'') (JUint8Array [7]) JUndefined = Inr b"
    using new_message_dst [of "JString root" "str ''move''" JUndefined] by simp
  have "length b < 100"
    using b0 by (auto simp: new_message_iff length_raw_frame root_def jstr_def utf8_encode_def is_high_def is_low_def
      enc_scalar_def HEADER_OVERHEAD_def client_payload_def)
  then have small: "\<not> num_less (max_payload demo_cfg) (js_nat (length b))"
    by (simp add: demo_cfg_def server_config_def)
  have "array_index (jstr ''A'') = None" "jstr ''A'' \<noteq> jstr ''B''" by (simp_all add: jstr_def array_index_def is_digit_def)
  then have to: "addressees demo_node (jstr ''B'') root [] = [jstr ''A'']"
    by (simp add: addressees_def recipients_def root_def demo_node_facts obj_keys_def)
  let ?args = "[Val (JUint8Array (client_payload (JUint8Array [7]))), Val (str ''A'')]"
  have free: "jstr ''move'' \<notin> set reserved_events" by (simp add: reserved_events_def jstr_def)
  have sender: "0 < length (objects acked)" "cr_is_open (obj acked 0)" "socket_state acked = Some OPEN" "c_socket acked = Some 0"
      "stack demo = Suc 4" "cr_name (obj acked 0) = root" "cr_member_id (obj acked 0) = jstr ''A''"
    and receiver: "prop_get (c_rooms listening) root = Some 0" "0 < length (objects listening)" "stack demo = Suc (Suc 3)"
    by (simp_all add: acked_facts opened_facts roomer_demo obj_def open_root_def socket_state_def prop_get_def listening_def)
  have unhandled: "if [] = ([] :: js_string) then prop_get (handlers demo_node) (jstr ''move'') = None else prop_has (conns demo_node) []"
    by (simp add: demo_handlers prop_get_def)
  have calm: "\<forall>x \<in> set (addressees demo_node (jstr ''B'') root []). \<not> evicts (conn_of demo_node x)"
    using demo_sendable by (simp add: to evicts_def)
  note m = message_arrives [OF sender(1,2) free sender(3-7) string_or_simps(2) b plain demo_reachable small unhandled calm
      receiver refl]
  have "listed (cr_em (obj listening 0)) (jstr ''move'') = map Fn [2]"
    using listed_open_root [of "jstr ''move''"] by (simp add: listening_def obj_def add_to_def listed_def newListener_def jstr_def)
  moreover have "list_all (observer demo ?args) [2]" by (simp add: observer_def)
  ultimately have "Client.on_message demo (JArrayBuffer b) listening =
      (None, listening\<lparr>c_out := c_out listening @ map (\<lambda>f. Called f ?args) [2]\<rparr>)"
    using m by blast
  then show ?thesis using m demo_sendable unfolding to
    by (intro exI [of _ b]) (simp add: delivery_def client_payload_def)
qed

end
