(* ===== verification/Joining.thy ===== *)
theory Joining
  imports End_To_End
begin

text \<open>
  A join on its whole way: the frame of the client, the four turns of the server around the
  answers of the adapter, and the room that opens on the client.
\<close>

section \<open>The server, turn by turn\<close>

lemma metered_ws [simp]: "ws (snd (allow_control_event now c)) = ws c"
  by (simp add: allow_control_event_def Let_def)

text \<open>The node after an admitted request.\<close>

definition requested :: "js_string \<Rightarrow> js_string \<Rightarrow> conn \<Rightarrow> bytes \<Rightarrow> node \<Rightarrow> node" where
  "requested room cid c frame s =
     joined_state room cid (upd_conn cid (\<lambda>_. c) (s\<lparr>out := out s @ [Metric (OnMessageReceived (length frame))]\<rparr>))"

lemma request_turn:
  assumes "decode_message (JBuffer frame) (JNumber (max_payload cfg)) = Inr (Some m)"
    and "\<not> num_less (max_payload cfg) (js_nat (length frame))"
    and "msg_event m = jstr ''join''" "msg_room m = room" "prop_has (heap s) cid"
    and "allow_control_event (clock s) (conn_of s cid) = (True, c)" "authorized env cid c room"
  shows "turn env cfg (Data cid (Whole frame)) s =
    (requested room cid c frame s)\<lparr>pending := pending (requested room cid c frame s) @ [AfterAddPresence room cid True]\<rparr>"
proof -
  let ?s = "s\<lparr>out := out s @ [Metric (OnMessageReceived (length frame))]\<rparr>"
  have "dispatch env cid m ?s = join_room room cid True (upd_conn cid (\<lambda>_. c) ?s)"
    using assms(3-7) dispatch_join_eq(1) [of m ?s cid True c env] by simp
  then show ?thesis
    using assms(1,2) by (simp add: turn_def on_message_def Let_def andthen_None [OF metric_apply] swallow_def try_ignore_def
        join_room_eq requested_def)
qed

lemma requested_fields:
  assumes "prop_has (heap s) cid"
  shows "pending (requested room cid c frame s) = pending s"
    "live r (requested room cid c frame s) = (if r = room then prop_set (live r s) cid () else live r s)"
    "conn_of (requested room cid c frame s) x = (if x = cid then track_room room c else conn_of s x)"
proof -
  show "pending (requested room cid c frame s) = pending s"
    by (simp add: requested_def joined_pending)
  show "live r (requested room cid c frame s) = (if r = room then prop_set (live r s) cid () else live r s)"
    by (simp add: requested_def)
  show "conn_of (requested room cid c frame s) x = (if x = cid then track_room room c else conn_of s x)"
    using assms by (simp add: requested_def joined_state_def Let_def)
qed

text \<open>The adapter has the presence: the other members hear of the new one.\<close>

lemma announce_turn:
  assumes "reachable env cfg s" "pending s = ts @ [AfterAddPresence room cid True]"
    and "msg_encode (new_member_msg room cid) = Inr new"
    and "\<forall>x \<in> set (recipients s (Some cid) room). \<not> evicts (conn_of s x)"
  shows "\<exists>s'. turn env cfg (Settle (length ts) reply) s = s' \<and>
    out s' = out s @ concat (map (\<lambda>x. delivery (conn_of s x) x new) (recipients s (Some cid) room)) @ [Call (PublishRaw room new)] \<and>
    pending s' = ts @ [AfterPublish (length new), AfterJoinRoom room cid] \<and> conn_of s' cid = conn_of s cid \<and>
    rooms s' = rooms s"
proof -
  let ?s = "s\<lparr>pending := ts\<rparr>"
  have "rooms_ok s"
    using membership.reachable_invariant [OF assms(1)] by (simp add: membership_def)
  then have ok: "rooms_ok ?s" and distinct: "distinct (recipients s (Some cid) room)"
    by (simp_all add: recipients_def distinct_obj_keys rooms_ok_wf)
  have room: "msg_room (new_member_msg room cid) = room" by (simp add: new_member_msg_def create_message_def)
  have same: "recipients ?s (Some cid) room = recipients s (Some cid) room" "conn_of ?s x = conn_of s x" for x
    by (simp_all add: recipients_def live_def conn_of_def)
  have calm: "\<forall>x \<in> set (recipients ?s (Some cid) (msg_room (new_member_msg room cid))). \<not> evicts (conn_of ?s x)"
    unfolding room same by (rule assms(4))
  let ?b = "fold (sent_state env new) (recipients s (Some cid) room) ?s"
  let ?s' = "?b\<lparr>out := out ?b @ [Call (PublishRaw room new)], pending := ts @ [AfterPublish (length new), AfterJoinRoom room cid]\<rparr>"
  have "broadcast_room env (Some cid) (new_member_msg room cid) ?s =
      (None, ?b\<lparr>out := out ?b @ [Call (PublishRaw room new)], pending := ts @ [AfterPublish (length new)]\<rparr>)"
    using broadcast_calm [OF ok calm assms(3), of env] by (simp add: Let_def room same)
  then have "settle env (AfterAddPresence room cid True) reply ?s = (None, ?s')"
    by (simp add: swallow_def try_ignore_def andthen_None await_def modify_apply)
  then have t: "turn env cfg (Settle (length ts) reply) s = ?s'"
    using assms(2) by (simp add: turn_def take_task_def)
  have "conn_of (fold (sent_state env new) xs t) cid = conn_of t cid" if "cid \<notin> set xs" for xs t
    using that by (induction xs arbitrary: t) simp_all
  then have "conn_of ?b cid = conn_of s cid" by (simp add: recipients_def same)
  then show ?thesis unfolding t using distinct by (simp add: out_fold_sent same)
qed

text \<open>The members are asked for, and the answer is acknowledged.\<close>

lemma presence_turn:
  "pending s = ts @ [AfterJoinRoom room cid] \<Longrightarrow>
     turn env cfg (Settle (length ts) reply) s =
       s\<lparr>out := out s @ [Call (GetPresence room)], pending := ts @ [AfterGetPresence room cid (obj_keys (live room s))]\<rparr>"
  by (simp add: turn_def take_task_def get_cluster_presence_def adapter_do_def emit_def await_def andthen_modify modify_apply
      local_snapshot_def live_def snapshot_def obj_keys_def split: option.split)

lemma ack_turn:
  assumes "pending s = ts @ [AfterGetPresence room cid snap]"
    and "msg_encode (join_ack_msg room cid (presence_union snap reply)) = Inr ack"
    and "sendable (conn_of s cid)" "\<not> slow (conn_of s cid)"
  shows "out (turn env cfg (Settle (length ts) reply) s) = out s @ [WsSend cid ack, Metric (OnMessageSent (length ack))] \<and>
    rooms (turn env cfg (Settle (length ts) reply) s) = rooms s"
proof -
  have "\<not> evicts (conn_of (s\<lparr>pending := ts\<rparr>) cid)" using assms(4) by (simp add: evicts_def)
  then have "settle env (AfterGetPresence room cid snap) reply (s\<lparr>pending := ts\<rparr>) =
      (None, sent_state env ack cid (s\<lparr>pending := ts\<rparr>))"
    using assms(2) by (simp add: swallow_def try_ignore_def send_message_def try_send_calm)
  then show ?thesis using assms(1,3,4) by (simp add: turn_def take_task_def delivery_def)
qed

section \<open>The client\<close>

lemma client_joins:
  assumes "h < length (objects a)" "cr_is_open (obj a h)" "prop_get (c_rooms a) room = None" "room \<noteq> root"
    and "socket_state a = Some OPEN" "c_socket a = Some i" "stack pf = Suc depth" "join_frame room = Inr b"
  shows "client_turn pf (Use (Join h (JString room))) a =
    a\<lparr>objects := objects a @ [new_room (length (objects a)) room],
      c_rooms := prop_set (c_rooms a) room (length (objects a)), c_out := c_out a @ [Sent i b]\<rparr>"
proof -
  have "socket_state (a\<lparr>objects := x, c_rooms := y\<rparr>) = socket_state a" for x y
    by (cases "c_socket a") (simp_all add: socket_state_def)
  then show ?thesis
    using assms by (simp add: client_turn_def run_call_Suc perform_call_def Let_def no_result_def join_def Client.get_room_def
        send_frame_def effect_def modify_def)
qed

lemma fresh_room_opens:
  assumes "prop_get (c_rooms t) room = Some k" "k < length (objects t)" "stack pf = Suc (Suc depth)"
    and "plain_text room" "plain_text cid" "msg_encode (join_ack_msg room cid ids) = Inr ack"
    and "listed (cr_em (obj t k)) (jstr ''open'') = []"
  shows "Client.on_message pf (JArrayBuffer ack) t =
    (None, upd_obj k (\<lambda>r. r\<lparr>cr_member_id := cid, cr_members := map JsStr ids, cr_is_open := True\<rparr>) t)"
proof -
  let ?t = "upd_obj k (\<lambda>r. r\<lparr>cr_member_id := cid, cr_members := map JsStr ids, cr_is_open := True\<rparr>) t"
  have "run_call (Suc depth) pf (On k (Emit (str ''open'') [])) ?t = (None, ?t)"
    using assms(2,7) by (intro emit_unheard) (simp_all add: upd_obj_def obj_def)
  then show ?thesis
    using join_ack_received [OF assms(1-6)] by (simp add: try_log_def)
qed

section \<open>All the way\<close>

lemma member_ids:
  "set (presence_union (obj_keys (prop_set (live room s) cid ())) reply) =
     insert cid ({x. member s room x} \<union> (case reply of Members ms \<Rightarrow> set ms | _ \<Rightarrow> {}))"
  by (auto simp: presence_union_set member_def)

lemma join_requested:
  assumes "join_frame room = Inr b" "plain_text room" "prop_has (heap s) cid"
    and "\<not> num_less (max_payload cfg) (js_nat (length b))"
    and "allow_control_event (clock s) (conn_of s cid) = (True, c)" "authorized env cid c room"
  shows "turn env cfg (Data cid (Whole b)) s =
    (requested room cid c b s)\<lparr>pending := pending s @ [AfterAddPresence room cid True]\<rparr>"
proof -
  have "plain_text []" "plain_text (jstr ''join'')" by (simp_all add: plain_text_def) (simp add: jstr_def)
  moreover have "\<not> exceeds_max (length b) (JNumber (max_payload cfg))"
    using assms(4) by (simp add: exceeds_max_def)
  ultimately obtain m where m: "decode_message (JBuffer b) (JNumber (max_payload cfg)) = Inr (Some m)"
      "msg_room m = room" "msg_event m = jstr ''join''"
    using client_frame_decoded [OF assms(1) [unfolded join_frame_def] assms(2)] by blast
  show ?thesis
    using request_turn [OF m(1) assms(4) m(3,2) assms(3,5,6)] requested_fields(1) [OF assms(3)] by simp
qed

lemma conn_frame: "conn_of (s\<lparr>out := a, pending := p\<rparr>) x = conn_of s x"
  by (simp add: conn_of_def)

lemma metered_able:
  assumes "allow_control_event now c0 = (ok, c)"
  shows "sendable (track_room room c) = sendable c0" "slow (track_room room c) = slow c0"
  using allow_fields [of now c0] assms by (simp_all add: sendable_def slow_def track_room_def)

text \<open>The four turns of a join.\<close>

lemma join_turns:
  assumes server: "reachable env cfg s" "prop_has (heap s) cid"
      "allow_control_event (clock s) (conn_of s cid) = (True, c)"
      "sendable (conn_of s cid)" "\<not> slow (conn_of s cid)" "\<And>x. member s room x \<Longrightarrow> x \<noteq> cid \<Longrightarrow> \<not> evicts (conn_of s x)"
    and turns: "n = length (pending s)" "s1 = turn env cfg (Data cid (Whole b)) s"
      "s2 = turn env cfg (Settle n r1) s1" "s3 = turn env cfg (Settle (Suc n) r2) s2" "s4 = turn env cfg (Settle (Suc n) r3) s3"
    and s1: "s1 = (requested room cid c b s)\<lparr>pending := pending s @ [AfterAddPresence room cid True]\<rparr>"
    and frames: "msg_encode (new_member_msg room cid) = Inr new"
      "msg_encode (join_ack_msg room cid (presence_union (obj_keys (live room s1)) r3)) = Inr ack"
  shows "\<exists>xs. distinct xs \<and> set xs = {x. member s room x \<and> x \<noteq> cid} \<and> rooms s4 = rooms s1 \<and>
      out s4 = out s1 @ concat (map (\<lambda>x. delivery (conn_of s x) x new) xs) @
        [Call (PublishRaw room new), Call (GetPresence room), WsSend cid ack, Metric (OnMessageSent (length ack))]"
proof -
  have live1: "live r s1 = (if r = room then prop_set (live r s) cid () else live r s)"
    and conn1: "conn_of s1 x = (if x = cid then track_room room c else conn_of s x)" for r x
    using requested_fields(2,3) [OF server(2)] by (simp_all add: s1)
  have reach1: "reachable env cfg s1"
    unfolding turns(2) using server(1,2) by (intro reachable_turn) (simp_all add: enabled_def)
  let ?xs = "recipients s1 (Some cid) room"
  have xs: "set ?xs = {x. member s room x \<and> x \<noteq> cid}"
    by (auto simp: recipients_def live1 member_def)
  have "rooms_ok s1" using membership.reachable_invariant [OF reach1] by (simp add: membership_def)
  then have distinct: "distinct ?xs" by (simp add: recipients_def distinct_obj_keys rooms_ok_wf)
  have "\<forall>x \<in> set ?xs. \<not> evicts (conn_of s1 x)" using server(6) by (simp add: xs conn1)
  moreover have "pending s1 = pending s @ [AfterAddPresence room cid True]" by (simp add: s1)
  ultimately have s2: "out s2 = out s1 @ concat (map (\<lambda>x. delivery (conn_of s1 x) x new) ?xs) @ [Call (PublishRaw room new)]"
      "pending s2 = (pending s @ [AfterPublish (length new)]) @ [AfterJoinRoom room cid]" "conn_of s2 cid = conn_of s1 cid"
      "rooms s2 = rooms s1"
    using announce_turn [OF reach1 _ frames(1), of "pending s" r1] unfolding turns(1,3) by auto
  have calls: "map (\<lambda>x. delivery (conn_of s1 x) x new) ?xs = map (\<lambda>x. delivery (conn_of s x) x new) ?xs"
    using xs by (intro map_cong) (auto simp: conn1)
  have n: "Suc n = length (pending s @ [AfterPublish (length new)])" by (simp add: turns(1))
  then have s3: "s3 = s2\<lparr>out := out s2 @ [Call (GetPresence room)],
      pending := (pending s @ [AfterPublish (length new)]) @ [AfterGetPresence room cid (obj_keys (live room s2))]\<rparr>"
    using presence_turn [OF s2(2)] turns(4) by metis
  have live2: "live room s2 = live room s1" by (simp add: live_def s2(4))
  have "conn_of s3 cid = track_room room c" using s2(3) conn_frame conn1 by (simp add: s3)
  then have "sendable (conn_of s3 cid)" "\<not> slow (conn_of s3 cid)" using server(4,5) metered_able [OF server(3)] by simp_all
  then have "out s4 = out s3 @ [WsSend cid ack, Metric (OnMessageSent (length ack))] \<and> rooms s4 = rooms s3"
    unfolding turns(5) n using frames(2) by (intro ack_turn) (simp_all add: s3 live2)
  then show ?thesis using distinct xs by (intro exI [of _ ?xs]) (simp add: s3 s2 calls)
qed

text \<open>
  C3: A join completes. A client with an open root room asks for a new room: one frame goes out.
  On the server, the frame and the three answers of the adapter are four turns: the connection
  is a member at once and has the room in its set; when the adapter has its presence, each other
  member with an open, not too slow socket is sent \<^verbatim>\<open>new_member\<close>, and it is published; then the
  members of the cluster are asked for; then the connection is sent its \<^verbatim>\<open>join_ack\<close>, whose ids
  are the connection's own, the local members and those of the adapter, each once. The client
  that receives it opens the room, with its own id and these members.
\<close>

theorem join_completes:
  assumes client: "h < length (objects a)" "cr_is_open (obj a h)" "prop_get (c_rooms a) room = None" "room \<noteq> root"
      "socket_state a = Some OPEN" "c_socket a = Some i" "stack pf = Suc (Suc depth)" "join_frame room = Inr b"
      "a' = client_turn pf (Use (Join h (JString room))) a" "k = length (objects a)"
    and names: "plain_text room" "plain_text cid"
    and server: "reachable env cfg s" "prop_has (heap s) cid" "\<not> num_less (max_payload cfg) (js_nat (length b))"
      "allow_control_event (clock s) (conn_of s cid) = (True, c)" "authorized env cid c room"
      "sendable (conn_of s cid)" "\<not> slow (conn_of s cid)" "\<And>x. member s room x \<Longrightarrow> x \<noteq> cid \<Longrightarrow> \<not> evicts (conn_of s x)"
    and turns: "n = length (pending s)" "s1 = turn env cfg (Data cid (Whole b)) s"
      "s2 = turn env cfg (Settle n r1) s1" "s3 = turn env cfg (Settle (Suc n) r2) s2" "s4 = turn env cfg (Settle (Suc n) r3) s3"
    and ids: "ids = presence_union (obj_keys (live room s1)) r3"
    and frames: "msg_encode (new_member_msg room cid) = Inr new" "msg_encode (join_ack_msg room cid ids) = Inr ack"
  shows "c_out a' = c_out a @ [Sent i b] \<and>
    (\<exists>xs. distinct xs \<and> set xs = {x. member s room x \<and> x \<noteq> cid} \<and>
      out s4 = out s1 @ concat (map (\<lambda>x. delivery (conn_of s x) x new) xs) @
        [Call (PublishRaw room new), Call (GetPresence room), WsSend cid ack, Metric (OnMessageSent (length ack))]) \<and>
    (\<forall>r x. member s4 r x \<longleftrightarrow> member s r x \<or> r = room \<and> x = cid) \<and>
    distinct ids \<and> set ids = insert cid ({x. member s room x} \<union> (case r3 of Members ms \<Rightarrow> set ms | _ \<Rightarrow> {})) \<and>
    Client.on_message pf (JArrayBuffer ack) a' =
      (None, upd_obj k (\<lambda>r. r\<lparr>cr_member_id := cid, cr_members := map JsStr ids, cr_is_open := True\<rparr>) a')"
proof -
  note a' = client_joins [OF client(1-8)]
  have new: "prop_get (c_rooms a') room = Some k" "k < length (objects a')" "obj a' k = new_room k room"
    by (simp_all add: client(9,10) a' obj_def)
  have "listed (cr_em (obj a' k)) (jstr ''open'') = []"
    unfolding new by (simp add: new_room_def listed_def add_to_def new_emitter_def newListener_def jstr_def)
  note opens = fresh_room_opens [OF new(1,2) client(7) names frames(2) this]
  have s1: "s1 = (requested room cid c b s)\<lparr>pending := pending s @ [AfterAddPresence room cid True]\<rparr>"
    unfolding turns(2) by (rule join_requested [OF client(8) names(1) server(2-5)])
  have live1: "live r s1 = (if r = room then prop_set (live r s) cid () else live r s)" for r
    using requested_fields(2) [OF server(2)] by (simp add: s1)
  from join_turns [OF server(1,2,4,6-8) turns s1 frames(1) frames(2) [unfolded ids]]
  obtain xs where xs: "distinct xs" "set xs = {x. member s room x \<and> x \<noteq> cid}" "rooms s4 = rooms s1"
      "out s4 = out s1 @ concat (map (\<lambda>x. delivery (conn_of s x) x new) xs) @
        [Call (PublishRaw room new), Call (GetPresence room), WsSend cid ack, Metric (OnMessageSent (length ack))]"
    by blast
  have "member s4 r x \<longleftrightarrow> member s r x \<or> r = room \<and> x = cid" for r x
    using live1 [of r] xs(3) by (auto simp: member_def live_def)
  moreover have "distinct ids" by (simp add: ids presence_union_set)
  moreover have "set ids = insert cid ({x. member s room x} \<union> (case r3 of Members ms \<Rightarrow> set ms | _ \<Rightarrow> {}))"
    unfolding ids live1 by (simp add: member_ids)
  moreover have "c_out a' = c_out a @ [Sent i b]" by (simp add: client(9) a')
  ultimately show ?thesis using xs opens by blast
qed

theorem join_completes_witness:
  "\<exists>b s1 new ack k. c_out (client_turn demo (Use (Join 0 (JString [120]))) acked) = c_out acked @ [Sent 0 b] \<and>
    s1 = turn demo_env demo_cfg (Data (jstr ''A'') (Whole b)) demo_node \<and>
    out (turn demo_env demo_cfg (Settle (Suc (length (pending demo_node))) Failed)
          (turn demo_env demo_cfg (Settle (Suc (length (pending demo_node))) Failed)
            (turn demo_env demo_cfg (Settle (length (pending demo_node)) Failed) s1))) =
      out s1 @ [Call (PublishRaw [120] new), Call (GetPresence [120]), WsSend (jstr ''A'') ack, Metric (OnMessageSent (length ack))] \<and>
    Client.on_message demo (JArrayBuffer ack) (client_turn demo (Use (Join 0 (JString [120]))) acked) =
      (None, upd_obj k (\<lambda>r. r\<lparr>cr_member_id := jstr ''A'', cr_members := [JsStr (jstr ''A'')], cr_is_open := True\<rparr>)
        (client_turn demo (Use (Join 0 (JString [120]))) acked))"
proof -
  obtain b where b: "join_frame [120] = Inr b" using join_frame_x by blast
  obtain c where c: "allow_control_event (clock demo_node) (conn_of demo_node (jstr ''A'')) = (True, c)"
    using demo_allows by blast
  have plain: "plain_text [120]" "plain_text (jstr ''A'')"
    by (simp_all add: plain_text_def is_high_def is_low_def) (simp add: jstr_def)
  have "length b < 100"
    using b by (auto simp: join_frame_def new_message_iff length_raw_frame jstr_def utf8_encode_def is_high_def is_low_def
      enc_scalar_def HEADER_OVERHEAD_def client_payload_def)
  then have small: "\<not> num_less (max_payload demo_cfg) (js_nat (length b))"
    by (simp add: demo_cfg_def server_config_def)
  have anyone: "authorized demo_env (jstr ''A'') c [120]" by (simp add: authorized_def demo_env_def)
  have heap: "prop_has (heap demo_node) (jstr ''A'')" by (rule open_in_heap [OF demo_open])
  have nobody: "\<not> member demo_node [120] x" for x by (simp add: demo_node_facts jstr_def)
  let ?s1 = "turn demo_env demo_cfg (Data (jstr ''A'') (Whole b)) demo_node"
  have "live [120] ?s1 = [(jstr ''A'', ())]"
    unfolding join_requested [OF b plain(1) heap small c anyone]
    using requested_fields(2) [OF heap] by (simp add: demo_node_facts jstr_def prop_set_def)
  moreover have "array_index (jstr ''A'') = None" by (simp add: jstr_def array_index_def is_digit_def)
  ultimately have ids: "[jstr ''A''] = presence_union (obj_keys (live [120] ?s1)) Failed"
    by (simp add: obj_keys_def presence_union_def prop_set_def Let_def)
  have "\<exists>raw. msg_encode (new_member_msg [120] (jstr ''A'')) = Inr raw"
      "\<exists>raw. msg_encode (join_ack_msg [120] (jstr ''A'') [jstr ''A'']) = Inr raw"
    unfolding join_ack_msg_def new_member_msg_def
    by (rule server_encodes, simp add: fields_fit_def jstr_def utf8_encode_def is_high_def is_low_def
      enc_scalar_def quote_json_def escape_unit_def)+
  then obtain new ack where frames: "msg_encode (new_member_msg [120] (jstr ''A'')) = Inr new"
      "msg_encode (join_ack_msg [120] (jstr ''A'') [jstr ''A'']) = Inr ack"
    by blast
  have client: "0 < length (objects acked)" "cr_is_open (obj acked 0)" "prop_get (c_rooms acked) [120] = None" "[120] \<noteq> root"
      "socket_state acked = Some OPEN" "c_socket acked = Some 0" "stack demo = Suc (Suc 3)"
    using root_not_x by (simp_all add: acked_facts opened_facts roomer_demo obj_def open_root_def socket_state_def prop_get_def)
  note j = join_completes [OF client b refl refl plain demo_reachable heap small c anyone demo_sendable _
      refl refl refl refl refl ids frames, of Failed Failed]
  show ?thesis using j nobody
    by (intro exI [of _ b] exI [of _ ?s1] exI [of _ new] exI [of _ ack] exI [of _ "length (objects acked)"]) auto
qed

end
