(* ===== verification/Spec2Isabelle.thy ===== *)
theory Spec2Isabelle
  imports JS_Base JS_Number Utf8 JS_Value Json_Parse Decimal Json_Roundtrip Ieee Codec Message Adapter Metrics Room
    Redis_Adapter Node_State Conn Token_Bucket Hub Server Closing Kept Membership Delivery Requests Demo_Server Hazards
    Ending Rejoin Cluster Byte_Cursor Cursor_Facts Cursor_Fields Client_Codec Emitter Emitter_Facts Client Client_Kept
    Reconnection Client_Rooms Json_Text Server_To_Client End_To_End Joining
begin

text \<open>
  Roomer is a room-based WebSocket messaging library: a Node.js server
  (\<^verbatim>\<open>src/server/node\<close>) and a browser client (\<^verbatim>\<open>src/client\<close>) that exchange binary frames. This
  library models the JavaScript of both and proves what makes them correct, and where they
  are not.

  \<^bigskip>\<^bold>\<open>The program.\<close> A frame has a version and a flags byte, length-prefixed room, event,
  destination and source names, and a payload. On the server \<^verbatim>\<open>server.js\<close> accepts sockets
  of the \<^verbatim>\<open>ws\<close> library, makes a connection object (\<^verbatim>\<open>conn.js\<close>) for each and passes decoded
  frames (\<^verbatim>\<open>message.js\<close>) to the hub (\<^verbatim>\<open>hub.js\<close>), which keeps the connections, the rooms
  (\<^verbatim>\<open>room.js\<close>) and the application's handlers, answers joins and leaves, and broadcasts or
  forwards everything else. Through an adapter (\<^verbatim>\<open>adapter.js\<close>, in memory, or
  \<^verbatim>\<open>adapter_redis.js\<close>) it publishes frames to other nodes and shares presence. Closing a
  connection leaves its rooms, leaving broadcasts, broadcasting sends, and sending to a slow
  client closes it: four functions that call each other. The client (\<^verbatim>\<open>roomer.js\<close>) keeps one
  WebSocket and reconnects it with a growing delay, has an object for every room it is in or
  wants to be in, builds and reads frames with a byte cursor (\<^verbatim>\<open>bytecursor.js\<close>) and tells the
  application through event emitters (\<^verbatim>\<open>emitter.js\<close>), whose listeners may call back into it.
  \<^verbatim>\<open>examples/main.js\<close> is a server with one handler and static files.

  \<^bigskip>\<^bold>\<open>Theories and code.\<close> A definition has the name of the function it models wherever that
  name is free.

  \<^item> \<^verbatim>\<open>JS_Base\<close> (prelude): strings as UTF-16 code units, buffers as bytes, exceptions,
    actions that may throw (effects before the throw persist), computations with a result,
    prototype-free dictionaries with the order of \<^verbatim>\<open>Object.keys\<close>, and the rules that lift
    preservation, agreement and the set of possible exceptions through loops and sequences.
  \<^item> \<^verbatim>\<open>JS_Number\<close>, \<^verbatim>\<open>Ieee\<close>, \<^verbatim>\<open>Utf8\<close>, \<^verbatim>\<open>JS_Value\<close>: doubles with IEEE rounding, the bytes of binary32 and
    binary64 numbers, \<^verbatim>\<open>TextEncoder\<close>, \<^verbatim>\<open>TextDecoder\<close> and \<^verbatim>\<open>Buffer.toString\<close>, values under
    \<^verbatim>\<open>typeof\<close>, \<^verbatim>\<open>JSON.stringify\<close>, \<^verbatim>\<open>String\<close> of numbers, Node.js buffer reads and writes.
    \<^verbatim>\<open>Json_Parse\<close>, \<^verbatim>\<open>Decimal\<close>, \<^verbatim>\<open>Json_Roundtrip\<close>, \<^verbatim>\<open>Json_Text\<close>: \<^verbatim>\<open>JSON.parse\<close>, that the shortest decimals
    printed for a double round back to it, that parsing undoes printing, and payloads that are
    JSON. \<^verbatim>\<open>Codec\<close>: the locale of a partial codec, interpreted by UTF-8, by both frame codecs and
    by the Redis envelope.
  \<^item> \<^verbatim>\<open>Message\<close>: \<^verbatim>\<open>message.js\<close>. The encoder writes at moving offsets into uninitialised
    memory, as the code does; a reference encoder and the wire format are stated beside it.
  \<^item> \<^verbatim>\<open>Room\<close>, \<^verbatim>\<open>Adapter\<close>, \<^verbatim>\<open>Metrics\<close>, \<^verbatim>\<open>Redis_Adapter\<close>: the module of the same name; the locale
    \<open>presence_store\<close> is what the hub relies on in an adapter, \<open>redis_db\<close> what the Redis
    adapter relies on in Redis.
  \<^item> \<^verbatim>\<open>Node_State\<close>, \<^verbatim>\<open>Conn\<close>, \<^verbatim>\<open>Hub\<close>, \<^verbatim>\<open>Server\<close>: the state of a process, \<^verbatim>\<open>conn.js\<close>, \<^verbatim>\<open>hub.js\<close>,
    \<^verbatim>\<open>server.js\<close>. The closures' variables are the fields of the records \<open>conn\<close> and
    \<open>node\<close>; connection objects live in a heap by id. \<open>Server.step\<close> is one turn of the
    event loop: any listener, timer, settled promise, cluster frame, application call,
    clock tick or change of a socket, in any order; \<open>reachable\<close> states are those of a hub that
    has not been shut down.
  \<^item> \<^verbatim>\<open>Token_Bucket\<close>: the rate limit of control events in IEEE arithmetic.
  \<^item> \<^verbatim>\<open>Closing\<close>: the recursion of closing terminates; the locales \<open>leave_kept\<close> and
    \<open>close_kept\<close>: what its elementary steps keep, it keeps. \<^verbatim>\<open>Kept\<close>: the same for a whole
    turn (\<open>server_kept\<close>). \<^verbatim>\<open>Membership\<close>: the invariants, each an interpretation of it.
  \<^item> \<^verbatim>\<open>Delivery\<close>: what a broadcast writes and that closing completes. \<^verbatim>\<open>Requests\<close>: joins,
    leaves, acknowledgements. \<^verbatim>\<open>Hazards\<close>: closing that fails. \<^verbatim>\<open>Ending\<close>: malformed frames and
    shutdown, with the close frames that are sent, also where leaving a room throws.
    \<^verbatim>\<open>Rejoin\<close>: closing that does not last.
    \<^verbatim>\<open>Cluster\<close>: two nodes over Redis.
  \<^item> \<^verbatim>\<open>Demo_Server\<close>: \<^verbatim>\<open>examples/main.js\<close>: which file a URL is answered with (with Node's \<^verbatim>\<open>path.join\<close>), the
    chat handler, the choice of the adapter, the options and the shutdown.
  \<^item> \<^verbatim>\<open>Byte_Cursor\<close>, \<^verbatim>\<open>Cursor_Facts\<close>, \<^verbatim>\<open>Cursor_Fields\<close>: \<^verbatim>\<open>bytecursor.js\<close>, the locale
    \<open>cursor_number\<close> of a fixed-width number with its interpretations by the eight integer
    and the two floating point kinds, round trips and confinement to the view.
    \<^verbatim>\<open>Client_Codec\<close>: \<open>new_message\<close> and the parser of \<^verbatim>\<open>onmessage\<close> in \<^verbatim>\<open>roomer.js\<close>, compared with
    the server's codec.
  \<^item> \<^verbatim>\<open>Emitter\<close>, \<^verbatim>\<open>Emitter_Facts\<close>: \<^verbatim>\<open>emitter.js\<close>, over a state the emitter is a part of, with listeners
    that use it while they are called; the locales \<open>emitter_kept\<close> and \<open>app_kept\<close>: what its
    operations and the application's functions keep.
  \<^item> \<^verbatim>\<open>Client\<close>: the rest of \<^verbatim>\<open>roomer.js\<close>. The variables of \<^verbatim>\<open>roomer\<close> are the record \<open>client\<close>, those of
    \<^verbatim>\<open>get_room\<close> the record \<open>croom\<close>; room objects live in a heap by index. \<open>client_step\<close> is one
    turn of the browser's event loop: an event of any socket, a timeout, a call of the
    application. \<^verbatim>\<open>Client_Kept\<close>: the locales \<open>client_kept\<close> and \<open>run_kept\<close>, what the elementary steps
    keep, every run keeps. \<^verbatim>\<open>Reconnection\<close>: one connection, backing off, closing for good, joining
    again. \<^verbatim>\<open>Client_Rooms\<close>: the table of rooms, the objects' methods, and what listeners can break.
  \<^item> \<^verbatim>\<open>Server_To_Client\<close>: the server's membership messages on the client, and a forged one.
    \<^verbatim>\<open>End_To_End\<close>: a message from one client's \<^verbatim>\<open>send\<close> through the server to the other clients' listeners.
    \<^verbatim>\<open>Joining\<close>: a join, from the client's request over the server's four turns to the open room.

  \<^bigskip>\<^bold>\<open>Fuel.\<close> \<^verbatim>\<open>close_with\<close> and its companions recurse with the number of connections that are
  still open plus one as fuel: a connection is marked closed before it leaves its rooms, so
  every nested close has one less. \<open>Closing\<close> proves that no state needs more, so the model's
  functions are those of the code and never end in the value \<open>StackOverflow\<close>. The client's calls
  nest as deep as its listeners make them, which may be without end; there the fuel is the
  parameter \<open>stack\<close>, the engine's own bound, and running out is the exception of the engine.
  \<open>parse_json\<close> has twice the length of its text and one as fuel; \<open>Json_Roundtrip\<close> proves it enough
  for every text that \<^verbatim>\<open>JSON.stringify\<close> prints.

  \<^bigskip>\<^bold>\<open>Parameters.\<close> On the server: the \<^verbatim>\<open>ws\<close> library's \<open>send\<close> and \<open>close\<close> (an \<open>env\<close>: what a call
  does to the socket, and whether it throws), the answers of \<^verbatim>\<open>authorize_room\<close> and of an
  adapter's promises, random ids (fresh), and Redis (its documented commands, as laws). The
  application's handlers are arbitrary scripts of calls of the hub, possibly ending in an
  exception. Of Redis' patterns one law is a hypothesis (\<open>glob_law\<close>), of sockets that a send leaves
  the ready state alone (\<open>steady\<close>). On the client (a \<open>platform\<close>): whether the WebSocket's constructor and \<^verbatim>\<open>close\<close> throw,
  \<^verbatim>\<open>Math.random\<close>, the property key of a value that is not a string, and the application's
  functions, scripts that look at the state before each call; a socket opens once, delivers
  messages while it is open and closes once. For the example: which files exist and what
  they hold.

  \<^bigskip>\<^bold>\<open>Conventions.\<close> An \<^verbatim>\<open>async\<close> function is split at its \<^verbatim>\<open>await\<close>s; what is left to do is a
  pending task, settled with any reply in any order. An exception that leaves its turn is
  recorded as \<open>Uncaught\<close> and the process may go on, as it does under an
  \<^verbatim>\<open>uncaughtException\<close> handler. Room members are connection ids, looked up in the heap.
  Buffers are shorter than \<open>2 ^ 53\<close> bytes, counters of the metrics are unbounded. The two
  zeros are one number, except where their bytes are written or read (\<open>js_any\<close>); not-a-number
  is written as the quiet one without payload, as the engines do. Functions of the client are
  numbers: even ones the application's, odd ones those with which a room notes the types of
  its listeners. Event names are not \<^verbatim>\<open>__proto__\<close>, functions have no \<^verbatim>\<open>listener\<close> property of
  their own, and the delays in the options are numbers. Of a \<^verbatim>\<open>SyntaxError\<close> the text is not
  modelled.

  \<^bigskip>\<^bold>\<open>Not modelled.\<close> \<^verbatim>\<open>setNoDelay\<close> and the mounting of the server on an HTTP server, the example's
  port and its logging, \<^verbatim>\<open>index.js\<close> (re-exports), the tests, the HTML and build files, the Go,
  Rust and Python implementations, and the TLA+ specification.
\<close>

end
